(* ===== verification/GoJson.thy ===== *)
theory GoJson
  imports GoBase
begin

text \<open>
  What the sources use of \<open>encoding/json\<close>: the scanner of \<open>json.Unmarshal\<close> as a
  push-down machine that reads one byte at a time, with its three verdicts (a value, a
  syntax error, and the syntax error \<open>unexpected end of JSON input\<close>, which the SSE
  reader singles out), string literals with escapes and invalid UTF-8, and decoding into
  Go values and structs, where field names match up to case, \<open>null\<close> leaves a field
  alone and a later duplicate overwrites.

  A number stays the text of its literal.  A \<open>json.RawMessage\<close> is the value itself.  The
  one thing left out is that a repeated array field re-uses the elements of the first one.
\<close>

datatype json =
    JNull
  | JBool bool
  | JNum string
  | JStr string
  | JArr "json list"
  | JObj "(string \<times> json) list"

section \<open>String literals\<close>

text \<open>The length of the valid UTF-8 sequence at the head, \<open>None\<close> where
  \<open>utf8.DecodeRune\<close> reports an error.\<close>

definition in_range :: "nat \<Rightarrow> nat \<Rightarrow> char \<Rightarrow> bool" where
  "in_range lo hi c \<longleftrightarrow> lo \<le> of_char c \<and> of_char c \<le> hi"

abbreviation cont_byte :: "char \<Rightarrow> bool" where
  "cont_byte \<equiv> in_range 0x80 0xBF"

definition utf8_len :: "string \<Rightarrow> nat option" where
  "utf8_len s = (case s of
      [] \<Rightarrow> None
    | a # s1 \<Rightarrow>
      if in_range 0 0x7F a then Some 1 else
      (case s1 of
        [] \<Rightarrow> None
      | b # s2 \<Rightarrow>
        if in_range 0xC2 0xDF a then (if cont_byte b then Some 2 else None) else
        (case s2 of
          [] \<Rightarrow> None
        | c # s3 \<Rightarrow>
          if in_range 0xE0 0xEF a then
            (if (if a = CHR 0xE0 then in_range 0xA0 0xBF b
                 else if a = CHR 0xED then in_range 0x80 0x9F b else cont_byte b) \<and> cont_byte c
             then Some 3 else None) else
          (case s3 of
            [] \<Rightarrow> None
          | d # _ \<Rightarrow>
            if in_range 0xF0 0xF4 a \<and>
               (if a = CHR 0xF0 then in_range 0x90 0xBF b
                else if a = CHR 0xF4 then in_range 0x80 0x8F b else cont_byte b) \<and>
               cont_byte c \<and> cont_byte d
            then Some 4 else None))))"

lemma utf8_len_pos: "utf8_len s = Some n \<Longrightarrow> 0 < n \<and> n \<le> length s"
  by (auto simp: utf8_len_def split: list.splits if_splits)

definition utf8_encode :: "nat \<Rightarrow> string" where
  "utf8_encode r =
    (if r < 0x80 then [char_of r]
     else if r < 0x800 then [char_of (0xC0 + r div 64), char_of (0x80 + r mod 64)]
     else if r < 0x10000 then
       [char_of (0xE0 + r div 4096), char_of (0x80 + r div 64 mod 64), char_of (0x80 + r mod 64)]
     else [char_of (0xF0 + r div 262144), char_of (0x80 + r div 4096 mod 64),
           char_of (0x80 + r div 64 mod 64), char_of (0x80 + r mod 64)])"

abbreviation replacement_rune :: nat where "replacement_rune \<equiv> 0xFFFD"

definition hex_val :: "char \<Rightarrow> nat option" where
  "hex_val c =
    (if in_range 0x30 0x39 c then Some (of_char c - 0x30)
     else if in_range 0x61 0x66 c then Some (of_char c - 0x61 + 10)
     else if in_range 0x41 0x46 c then Some (of_char c - 0x41 + 10)
     else None)"

text \<open>Four hexadecimal digits (\<open>getu4\<close> after its \<open>\u\<close>).\<close>

definition take_u4 :: "string \<Rightarrow> (nat \<times> string) option" where
  "take_u4 s = (case s of
      a # b # c # d # r \<Rightarrow>
        (case (hex_val a, hex_val b, hex_val c, hex_val d) of
           (Some x, Some y, Some z, Some w) \<Rightarrow> Some (((x * 16 + y) * 16 + z) * 16 + w, r)
         | _ \<Rightarrow> None)
    | _ \<Rightarrow> None)"

lemma take_u4_shorter: "take_u4 s = Some (n, r) \<Longrightarrow> length r < length s"
  by (auto simp: take_u4_def split: list.splits option.splits)

definition is_surrogate :: "nat \<Rightarrow> bool" where
  "is_surrogate r \<longleftrightarrow> 0xD800 \<le> r \<and> r < 0xE000"

text \<open>\<open>utf16.DecodeRune\<close>: \<open>None\<close> for a pair that is not high, low.\<close>

definition utf16_decode :: "nat \<Rightarrow> nat \<Rightarrow> nat option" where
  "utf16_decode hi lo =
    (if 0xD800 \<le> hi \<and> hi < 0xDC00 \<and> 0xDC00 \<le> lo \<and> lo < 0xE000
     then Some ((hi - 0xD800) * 0x400 + (lo - 0xDC00) + 0x10000) else None)"

definition low_surrogate :: "nat \<Rightarrow> string \<Rightarrow> (nat \<times> string) option" where
  "low_surrogate hi s = (case s of
      a # b # r \<Rightarrow>
        if a = BSL \<and> b = CHR ''u'' then
          (case take_u4 r of
             None \<Rightarrow> None
           | Some (lo, r') \<Rightarrow> map_option (\<lambda>u. (u, r')) (utf16_decode hi lo))
        else None
    | _ \<Rightarrow> None)"

lemma low_surrogate_shorter: "low_surrogate hi s = Some (n, r) \<Longrightarrow> length r < length s"
  by (auto simp: low_surrogate_def split: list.splits option.splits if_splits dest: take_u4_shorter)

definition escape_char :: "char \<Rightarrow> char" where
  "escape_char c =
    (if c = CHR ''b'' then CHR 0x08 else if c = CHR ''f'' then CHR 0x0C
     else if c = CHR ''n'' then LF else if c = CHR ''r'' then CR
     else if c = CHR ''t'' then TAB else c)"

text \<open>\<open>unquoteBytes\<close> on the text between the quotes, which the scanner has accepted.\<close>

function unquote :: "string \<Rightarrow> string" where
  "unquote s = (case s of
      [] \<Rightarrow> []
    | c # r \<Rightarrow>
      if c = BSL then
        (case r of
           [] \<Rightarrow> []
         | e # r1 \<Rightarrow>
           if e = CHR ''u'' then
             (case take_u4 r1 of
                None \<Rightarrow> []
              | Some (u, r2) \<Rightarrow>
                if is_surrogate u then
                  (case low_surrogate u r2 of
                     None \<Rightarrow> utf8_encode replacement_rune @ unquote r2
                   | Some (v, r3) \<Rightarrow> utf8_encode v @ unquote r3)
                else utf8_encode u @ unquote r2)
           else escape_char e # unquote r1)
      else (case utf8_len s of
              None \<Rightarrow> utf8_encode replacement_rune @ unquote r
            | Some n \<Rightarrow> take n s @ unquote (drop n s)))"
  by pat_completeness auto
termination
  by (relation "measure length")
    (auto dest!: take_u4_shorter low_surrogate_shorter utf8_len_pos)

declare unquote.simps [simp del]

lemma unquote_Nil [simp]: "unquote [] = []"
  by (simp add: unquote.simps)

section \<open>The scanner\<close>

text \<open>An open array holds its elements, an open object its members, latest first, and the
  key whose value is being read.\<close>

datatype frame = FArr "json list" | FObj "(string \<times> json) list" string

datatype num_state = NNeg | NZero | NInt | NDot | NFrac | NExp | NExpSign | NExpInt

datatype pstate =
    BeginVal bool              \<comment> \<open>a value; the flag admits a closing bracket instead\<close>
  | BeginKey bool              \<comment> \<open>a key; the flag admits a closing brace instead\<close>
  | AfterKey
  | InStr bool string          \<comment> \<open>the flag says key; the bytes read, latest first\<close>
  | InEsc bool string
  | InU bool string nat        \<comment> \<open>hexadecimal digits still to come\<close>
  | InNum num_state string
  | InLit string json          \<comment> \<open>the rest of the literal and its value\<close>
  | EndVal
  | EndTop json

type_synonym cfg = "frame list \<times> pstate"

definition json_ws :: "char \<Rightarrow> bool" where
  "json_ws c \<longleftrightarrow> c = CHR '' '' \<or> c = TAB \<or> c = LF \<or> c = CR"

fun finish_val :: "frame list \<Rightarrow> json \<Rightarrow> cfg" where
  "finish_val [] v = ([], EndTop v)"
| "finish_val (FArr vs # st) v = (FArr (v # vs) # st, EndVal)"
| "finish_val (FObj kvs k # st) v = (FObj ((k, v) # kvs) k # st, EndVal)"

text \<open>\<open>stateEndValue\<close> and \<open>stateEndTop\<close>.\<close>

fun end_step :: "cfg \<Rightarrow> char \<Rightarrow> cfg option" where
  "end_step (st, EndTop v) c = (if json_ws c then Some (st, EndTop v) else None)"
| "end_step (FArr vs # st, EndVal) c =
     (if json_ws c then Some (FArr vs # st, EndVal)
      else if c = CHR '','' then Some (FArr vs # st, BeginVal False)
      else if c = CHR '']'' then Some (finish_val st (JArr (rev vs)))
      else None)"
| "end_step (FObj kvs k # st, EndVal) c =
     (if json_ws c then Some (FObj kvs k # st, EndVal)
      else if c = CHR '','' then Some (FObj kvs k # st, BeginKey False)
      else if c = CHR ''}'' then Some (finish_val st (JObj (rev kvs)))
      else None)"
| "end_step _ c = None"

text \<open>\<open>maxNestingDepth\<close> of \<open>encoding/json\<close>.\<close>

definition push_frame :: "frame \<Rightarrow> frame list \<Rightarrow> pstate \<Rightarrow> cfg option" where
  "push_frame f st p = (if int (length st) < 10000 then Some (f # st, p) else None)"

definition is_19 :: "char \<Rightarrow> bool" where
  "is_19 c \<longleftrightarrow> is_digit c \<and> c \<noteq> CHR ''0''"

definition begin_val :: "frame list \<Rightarrow> char \<Rightarrow> cfg option" where
  "begin_val st c =
    (if c = CHR ''{'' then push_frame (FObj [] []) st (BeginKey True)
     else if c = CHR ''['' then push_frame (FArr []) st (BeginVal True)
     else if c = DQ then Some (st, InStr False [])
     else if c = CHR ''-'' then Some (st, InNum NNeg [c])
     else if c = CHR ''0'' then Some (st, InNum NZero [c])
     else if is_19 c then Some (st, InNum NInt [c])
     else if c = CHR ''t'' then Some (st, InLit ''rue'' (JBool True))
     else if c = CHR ''f'' then Some (st, InLit ''alse'' (JBool False))
     else if c = CHR ''n'' then Some (st, InLit ''ull'' JNull)
     else None)"

text \<open>The next state of a number literal; \<open>None\<close> where the byte does not belong to it.\<close>

definition num_next :: "num_state \<Rightarrow> char \<Rightarrow> num_state option" where
  "num_next n c =
    (let dig = is_digit c; dot = (c = CHR ''.''); ex = (c = CHR ''e'' \<or> c = CHR ''E'')
     in case n of
        NNeg \<Rightarrow> if c = CHR ''0'' then Some NZero else if dig then Some NInt else None
      | NZero \<Rightarrow> if dot then Some NDot else if ex then Some NExp else None
      | NInt \<Rightarrow> if dig then Some NInt else if dot then Some NDot else if ex then Some NExp else None
      | NDot \<Rightarrow> if dig then Some NFrac else None
      | NFrac \<Rightarrow> if dig then Some NFrac else if ex then Some NExp else None
      | NExp \<Rightarrow> if c = CHR ''+'' \<or> c = CHR ''-'' then Some NExpSign
                else if dig then Some NExpInt else None
      | NExpSign \<Rightarrow> if dig then Some NExpInt else None
      | NExpInt \<Rightarrow> if dig then Some NExpInt else None)"

definition num_final :: "num_state \<Rightarrow> bool" where
  "num_final n \<longleftrightarrow> n = NZero \<or> n = NInt \<or> n = NFrac \<or> n = NExpInt"

definition end_string :: "frame list \<Rightarrow> bool \<Rightarrow> string \<Rightarrow> cfg" where
  "end_string st key raw =
    (if key then (case st of FObj kvs _ # st' \<Rightarrow> (FObj kvs (unquote (rev raw)) # st', AfterKey)
                  | _ \<Rightarrow> (st, AfterKey))
     else finish_val st (JStr (unquote (rev raw))))"

fun jstep :: "cfg \<Rightarrow> char \<Rightarrow> cfg option" where
  "jstep (st, BeginVal e) c =
     (if json_ws c then Some (st, BeginVal e)
      else if e \<and> c = CHR '']'' then
        (case st of FArr _ # st' \<Rightarrow> Some (finish_val st' (JArr [])) | _ \<Rightarrow> None)
      else begin_val st c)"
| "jstep (st, BeginKey e) c =
     (if json_ws c then Some (st, BeginKey e)
      else if e \<and> c = CHR ''}'' then
        (case st of FObj _ _ # st' \<Rightarrow> Some (finish_val st' (JObj [])) | _ \<Rightarrow> None)
      else if c = DQ then Some (st, InStr True [])
      else None)"
| "jstep (st, AfterKey) c =
     (if json_ws c then Some (st, AfterKey)
      else if c = CHR '':'' then Some (st, BeginVal False)
      else None)"
| "jstep (st, InStr key raw) c =
     (if c = DQ then Some (end_string st key raw)
      else if c = BSL then Some (st, InEsc key (c # raw))
      else if in_range 0 0x1F c then None
      else Some (st, InStr key (c # raw)))"
| "jstep (st, InEsc key raw) c =
     (if c \<in> set [CHR ''b'', CHR ''f'', CHR ''n'', CHR ''r'', CHR ''t'', BSL, CHR ''/'', DQ]
      then Some (st, InStr key (c # raw))
      else if c = CHR ''u'' then Some (st, InU key (c # raw) 4)
      else None)"
| "jstep (st, InU key raw n) c =
     (if hex_val c = None then None
      else Some (st, if n \<le> 1 then InStr key (c # raw) else InU key (c # raw) (n - 1)))"
| "jstep (st, InNum n raw) c =
     (case num_next n c of
        Some n' \<Rightarrow> Some (st, InNum n' (c # raw))
      | None \<Rightarrow> if num_final n then end_step (finish_val st (JNum (rev raw))) c else None)"
| "jstep (st, InLit rest v) c =
     (case rest of
        [] \<Rightarrow> None
      | x # xs \<Rightarrow> if c \<noteq> x then None
                  else if xs = [] then Some (finish_val st v) else Some (st, InLit xs v))"
| "jstep (st, EndVal) c = end_step (st, EndVal) c"
| "jstep (st, EndTop v) c = end_step (st, EndTop v) c"

fun jrun :: "cfg \<Rightarrow> string \<Rightarrow> cfg option" where
  "jrun k [] = Some k"
| "jrun k (c # s) = (case jstep k c of None \<Rightarrow> None | Some k' \<Rightarrow> jrun k' s)"

text \<open>
  The verdict of \<open>Unmarshal\<close>'s validity check.  At the end of the input the scanner takes
  one more step on a blank (\<open>scanner.eof\<close>): only where that step is neither an error nor
  the end of a value is the error \<open>unexpected end of JSON input\<close>.  A text cut inside a
  literal, an escape or a number is an ordinary syntax error.
\<close>

datatype json_verdict = JOk json | JEnd | JBad

definition jeof :: "cfg \<Rightarrow> json_verdict" where
  "jeof k = (case jstep k (CHR '' '') of
      None \<Rightarrow> JBad
    | Some (st, p) \<Rightarrow> (case p of EndTop v \<Rightarrow> JOk v | _ \<Rightarrow> JEnd))"

definition json_parse :: "string \<Rightarrow> json_verdict" where
  "json_parse s = (case jrun ([], BeginVal False) s of None \<Rightarrow> JBad | Some k \<Rightarrow> jeof k)"

lemma jrun_append:
  "jrun k (s @ t) = (case jrun k s of None \<Rightarrow> None | Some k' \<Rightarrow> jrun k' t)"
  by (induction s arbitrary: k) (auto split: option.splits)

text \<open>An error in a prefix is final; a text that ends too early is a prefix of the run.\<close>

lemma json_parse_bad_prefix:
  "jrun ([], BeginVal False) s = None \<Longrightarrow> json_parse (s @ t) = JBad"
  by (simp add: json_parse_def jrun_append)

lemma json_parse_JEnd_run:
  "json_parse s = JEnd \<Longrightarrow> \<exists>k. jrun ([], BeginVal False) s = Some k"
  by (auto simp: json_parse_def split: option.splits)

lemma json_parse_Nil [simp]: "json_parse [] = JEnd"
  by (simp add: json_parse_def jeof_def json_ws_def)

section \<open>Decoding into Go values\<close>

text \<open>
  A decoder takes the value a Go variable holds and returns the value it holds after
  \<open>json.Unmarshal\<close>, \<open>None\<close> for an error.
\<close>

type_synonym 'a dec = "json \<Rightarrow> 'a \<Rightarrow> 'a option"

fun dec_string :: "string dec" where
  "dec_string JNull x = Some x"
| "dec_string (JStr s) x = Some s"
| "dec_string _ x = None"

fun dec_bool :: "bool dec" where
  "dec_bool JNull x = Some x"
| "dec_bool (JBool b) x = Some b"
| "dec_bool _ x = None"

fun dec_int :: "int dec" where
  "dec_int JNull x = Some x"
| "dec_int (JNum s) x = parse_int64 s"
| "dec_int _ x = None"

fun dec_raw :: "json option dec" where
  "dec_raw j x = Some (Some j)"

text \<open>A field of type \<open>any\<close> and the pointers.\<close>

fun dec_any :: "json dec" where
  "dec_any j x = Some j"

definition dec_ptr :: "'a dec \<Rightarrow> 'a \<Rightarrow> 'a option dec" where
  "dec_ptr d zero j x =
    (if j = JNull then Some None
     else map_option Some (d j (case x of None \<Rightarrow> zero | Some y \<Rightarrow> y)))"

fun dec_all :: "'a dec \<Rightarrow> 'a \<Rightarrow> json list \<Rightarrow> 'a list option" where
  "dec_all d zero [] = Some []"
| "dec_all d zero (j # js) =
     (case d j zero of
        None \<Rightarrow> None
      | Some x \<Rightarrow> map_option ((#) x) (dec_all d zero js))"

definition dec_list :: "'a dec \<Rightarrow> 'a \<Rightarrow> 'a list dec" where
  "dec_list d zero j x = (case j of
      JNull \<Rightarrow> Some []
    | JArr js \<Rightarrow> dec_all d zero js
    | _ \<Rightarrow> None)"

text \<open>\<open>foldName\<close>: ASCII letters, and the two other characters that fold to one.\<close>

function fold_name :: "string \<Rightarrow> string" where
  "fold_name s =
    (if has_prefix s [CHR 0xC5, CHR 0xBF] then CHR ''S'' # fold_name (drop 2 s)
     else if has_prefix s [CHR 0xE2, CHR 0x84, CHR 0xAA] then CHR ''K'' # fold_name (drop 3 s)
     else (case s of
             [] \<Rightarrow> []
           | c # r \<Rightarrow> (if in_range 0x61 0x7A c then char_of (of_char c - (32::nat)) else c)
                        # fold_name r))"
  by pat_completeness auto
termination
  by (relation "measure length") (auto simp: has_prefix_iff prefix_def)

declare fold_name.simps [simp del]

definition key_is :: "string \<Rightarrow> string \<Rightarrow> bool" where
  "key_is name k \<longleftrightarrow> k = name \<or> fold_name k = fold_name name"

lemma key_is_refl [simp]: "key_is name name"
  by (simp add: key_is_def)

text \<open>Among names of lower-case letters and underscores only equal names match.\<close>

definition plain_char :: "char \<Rightarrow> bool" where
  "plain_char c \<longleftrightarrow> in_range 0x61 0x7A c \<or> c = CHR ''_''"

abbreviation plain_name :: "string \<Rightarrow> bool" where
  "plain_name \<equiv> list_all plain_char"

definition fold_char :: "char \<Rightarrow> char" where
  "fold_char c = (if in_range 0x61 0x7A c then char_of (of_char c - (32::nat)) else c)"

lemma fold_name_plain: "plain_name s \<Longrightarrow> fold_name s = map fold_char s"
proof (induction s)
  case Nil
  then show ?case by (simp add: fold_name.simps)
next
  case (Cons c s)
  from Cons.prems have "c \<noteq> CHR 0xC5" "c \<noteq> CHR 0xE2" by (auto simp: plain_char_def in_range_def)
  with Cons show ?case by (subst fold_name.simps) (simp add: fold_char_def)
qed

lemma fold_char_inj: "plain_char c \<Longrightarrow> plain_char d \<Longrightarrow> fold_char c = fold_char d \<longleftrightarrow> c = d"
proof -
  have low: "of_char (fold_char c) + 32 = (of_char c :: nat)" if "in_range 0x61 0x7A c" for c
  proof -
    from that have "of_char c - 32 < (256 :: nat)" unfolding in_range_def by linarith
    then have "(of_char c - 32) mod 256 = (of_char c - 32 :: nat)" by (rule mod_less)
    with that show ?thesis by (simp add: fold_char_def in_range_def)
  qed
  have bar: "fold_char (CHR ''_'') = CHR ''_''" by (simp add: fold_char_def in_range_def)
  have "of_char (fold_char c) \<noteq> (0x5F :: nat)" if "in_range 0x61 0x7A c" for c
    using low [OF that] that by (simp add: in_range_def)
  then have out: "fold_char c \<noteq> CHR ''_''" if "in_range 0x61 0x7A c" for c
    using that by fastforce
  assume "plain_char c" "plain_char d"
  then show ?thesis
    using low [of c] low [of d] bar out [of c] out [of d] unfolding plain_char_def
    by (metis of_char_eq_iff)
qed

lemma key_is_plain: "plain_name a \<Longrightarrow> plain_name b \<Longrightarrow> key_is a b \<longleftrightarrow> a = b"
proof -
  assume ab: "plain_name a" "plain_name b"
  then have "map fold_char b = map fold_char a \<longleftrightarrow> b = a"
    by (intro inj_on_map_eq_map) (auto simp: inj_on_def fold_char_inj list_all_iff)
  with ab show ?thesis by (auto simp: key_is_def fold_name_plain)
qed

fun dec_members :: "(string \<Rightarrow> 'r dec) \<Rightarrow> (string \<times> json) list \<Rightarrow> 'r \<Rightarrow> 'r option" where
  "dec_members h [] r = Some r"
| "dec_members h ((k, j) # kvs) r =
     (case h k j r of None \<Rightarrow> None | Some r' \<Rightarrow> dec_members h kvs r')"

definition dec_struct :: "(string \<Rightarrow> 'r dec) \<Rightarrow> 'r dec" where
  "dec_struct h j r = (case j of
      JNull \<Rightarrow> Some r
    | JObj kvs \<Rightarrow> dec_members h kvs r
    | _ \<Rightarrow> None)"

text \<open>A \<open>map[string]json.RawMessage\<close>: the last of several members with one key wins.\<close>

type_synonym rawmap = "string \<Rightarrow> json option"

definition dec_rawmap :: "json \<Rightarrow> rawmap option" where
  "dec_rawmap j = (case j of
      JNull \<Rightarrow> Some Map.empty
    | JObj kvs \<Rightarrow> Some (map_of (rev kvs))
    | _ \<Rightarrow> None)"

text \<open>\<open>json.Unmarshal(raw, &x)\<close> for a raw message that may be absent: empty input is the
  error \<open>unexpected end of JSON input\<close>.\<close>

definition unmarshal_opt :: "'a dec \<Rightarrow> 'a \<Rightarrow> json option \<Rightarrow> 'a option" where
  "unmarshal_opt d zero r = (case r of None \<Rightarrow> None | Some j \<Rightarrow> d j zero)"

section \<open>Objects the program builds\<close>

text \<open>An integer, a string and a flag as \<open>json.Marshal\<close> writes them.\<close>

definition jint :: "int \<Rightarrow> json" where
  "jint n = JNum (show_int n)"

lemma dec_int_jint [simp]: "in64 n \<Longrightarrow> dec_int (jint n) x = Some n"
  by (simp add: jint_def parse_show_int)

end
