(* ===== verification/Events.thy ===== *)
theory Events
  imports GoJson
begin

text \<open>
  \<open>internal/stream/events.go\<close>: the records that travel from the SSE reader through the
  thinking router to the accumulator or the SSE writer.  The JSON tags of the types are
  the decoders of the reader (theory \<open>SseParser\<close>) and the printers of the writer (theory
  \<open>OpenAI\<close>).
\<close>

record ToolFunctionDelta =
  fn_name :: string
  fn_arguments :: string

record ToolCallDelta =
  tc_index :: int
  tc_id :: string
  tc_type :: string
  tc_function :: ToolFunctionDelta

record UsageDetails =
  cached_tokens :: int
  cache_write_tokens :: int

record Usage =
  prompt_tokens :: int
  completion_tokens :: int
  total_tokens :: int
  prompt_details :: UsageDetails
  completion_details :: "json option"

record Event =
  ev_kind :: string
  ev_id :: string
  ev_created :: int
  ev_model :: string
  ev_role :: string
  ev_content :: string
  ev_reasoning :: string
  ev_tools :: "ToolCallDelta list"
  ev_usage :: "Usage option"
  ev_finish :: "string option"

text \<open>The zero values, and \<open>Event{Kind: "done"}\<close>.\<close>

definition zero_tool :: ToolCallDelta where
  "zero_tool = \<lparr>tc_index = 0, tc_id = [], tc_type = [],
     tc_function = \<lparr>fn_name = [], fn_arguments = []\<rparr>\<rparr>"

definition zero_details :: UsageDetails where
  "zero_details = \<lparr>cached_tokens = 0, cache_write_tokens = 0\<rparr>"

definition zero_usage :: Usage where
  "zero_usage = \<lparr>prompt_tokens = 0, completion_tokens = 0, total_tokens = 0,
     prompt_details = zero_details, completion_details = None\<rparr>"

definition event_of_kind :: "string \<Rightarrow> Event" where
  "event_of_kind k = \<lparr>ev_kind = k, ev_id = [], ev_created = 0, ev_model = [], ev_role = [],
     ev_content = [], ev_reasoning = [], ev_tools = [], ev_usage = None, ev_finish = None\<rparr>"

definition done_event :: Event where
  "done_event = event_of_kind ''done''"

lemma event_of_kind_simps [simp]:
  "ev_kind (event_of_kind k) = k" "ev_id (event_of_kind k) = []"
  "ev_created (event_of_kind k) = 0" "ev_model (event_of_kind k) = []"
  "ev_role (event_of_kind k) = []" "ev_content (event_of_kind k) = []"
  "ev_reasoning (event_of_kind k) = []" "ev_tools (event_of_kind k) = []"
  "ev_usage (event_of_kind k) = None" "ev_finish (event_of_kind k) = None"
  by (simp_all add: event_of_kind_def)

end
