(* ===== verification/Thinking.thy ===== *)
theory Thinking
  imports Events
begin

text \<open>
  \<open>internal/stream/thinking.go\<close>: the router that splits the text of the model into
  reasoning and content at the tags \<open><thinking>\<close>, \<open><think>\<close> and \<open><reasoning>\<close>, which may
  arrive cut into chunks at any byte.  \<open>feed\<close> is the loop of \<open>Feed\<close>, \<open>finalize\<close> and
  \<open>route\<close> the other two methods.  The lemmas compare the loop with an automaton that
  reads one byte at a time, from which the independence of the chunking follows.
\<close>

definition thinking_tags :: "(string \<times> bool) list" where
  "thinking_tags =
    [(''<thinking>'', True), (''</thinking>'', False),
     (''<think>'', True), (''</think>'', False),
     (''<reasoning>'', True), (''</reasoning>'', False)]"

record Piece =
  piece_reasoning :: bool
  piece_text :: string

record ThinkingRouter =
  in_thinking :: bool
  pending :: string
  pending_reasoning :: bool

definition new_router :: ThinkingRouter where
  "new_router = \<lparr>in_thinking = False, pending = [], pending_reasoning = False\<rparr>"

definition is_tag_prefix :: "string \<Rightarrow> bool" where
  "is_tag_prefix s \<longleftrightarrow> list_ex (\<lambda>(tag, _). has_prefix tag s) thinking_tags"

text \<open>The closure \<open>emit\<close>: text of the same kind is appended to the last piece.\<close>

definition emit_piece :: "Piece list \<Rightarrow> bool \<Rightarrow> string \<Rightarrow> Piece list" where
  "emit_piece out r t =
    (if t = [] then out
     else if out \<noteq> [] \<and> piece_reasoning (last out) = r
     then butlast out @ [(last out)\<lparr>piece_text := piece_text (last out) @ t\<rparr>]
     else out @ [\<lparr>piece_reasoning = r, piece_text = t\<rparr>])"

function feed_loop ::
    "ThinkingRouter \<Rightarrow> bool \<Rightarrow> string \<Rightarrow> Piece list \<Rightarrow> ThinkingRouter \<times> Piece list" where
  "feed_loop p src inp out =
    (case inp of
       [] \<Rightarrow> (p, out)
     | c # rest \<Rightarrow>
       if pending p = [] then
         (case index_byte inp (CHR ''<'') of
            None \<Rightarrow> (p, emit_piece out (src \<or> in_thinking p) inp)
          | Some i \<Rightarrow>
              feed_loop (p\<lparr>pending := ''<'', pending_reasoning := src\<rparr>) src (drop (i + 1) inp)
                (if 0 < i then emit_piece out (src \<or> in_thinking p) (take i inp) else out))
       else
         (let pend = pending p @ [c]; pr = (pending_reasoning p \<or> src) in
          case map_of thinking_tags pend of
            Some opn \<Rightarrow>
              feed_loop (p\<lparr>in_thinking := opn, pending := [], pending_reasoning := False\<rparr>)
                src rest out
          | None \<Rightarrow>
              if is_tag_prefix pend
              then feed_loop (p\<lparr>pending := pend, pending_reasoning := pr\<rparr>) src rest out
              else feed_loop (p\<lparr>pending := [], pending_reasoning := False\<rparr>) src rest
                     (emit_piece out (pr \<or> in_thinking p) pend)))"
  by pat_completeness auto
termination
  by (relation "measure (\<lambda>(p, src, inp, out). length inp)") auto

declare feed_loop.simps [simp del]

lemma feed_loop_Nil [simp]: "feed_loop p src [] out = (p, out)"
  by (simp add: feed_loop.simps [of p src "[]" out])

definition feed :: "ThinkingRouter \<Rightarrow> string \<Rightarrow> bool \<Rightarrow> ThinkingRouter \<times> Piece list" where
  "feed p inp src = feed_loop p src inp []"

definition finalize :: "ThinkingRouter \<Rightarrow> ThinkingRouter \<times> Piece list" where
  "finalize p =
    (if pending p = [] then (p, [])
     else (p\<lparr>pending := [], pending_reasoning := False\<rparr>,
           [\<lparr>piece_reasoning = pending_reasoning p \<or> in_thinking p, piece_text = pending p\<rparr>]))"

text \<open>The event a piece becomes: \<open>x := base\<close> with one of the two texts set.\<close>

definition piece_event :: "Event \<Rightarrow> Piece \<Rightarrow> Event" where
  "piece_event base pc =
    (if piece_reasoning pc then base\<lparr>ev_reasoning := piece_text pc\<rparr>
     else base\<lparr>ev_content := piece_text pc\<rparr>)"

definition route :: "ThinkingRouter \<Rightarrow> Event \<Rightarrow> ThinkingRouter \<times> Event list" where
  "route p ev =
    (if ev_kind ev \<noteq> ''delta'' then (p, [ev])
     else
       let base = ev\<lparr>ev_content := [], ev_reasoning := [], ev_tools := [], ev_finish := None\<rparr>;
           out1 = (if ev_role ev \<noteq> [] then [base\<lparr>ev_role := ev_role ev\<rparr>] else []);
           base1 = (if ev_role ev \<noteq> [] then base\<lparr>ev_role := []\<rparr> else base);
           (p1, ps1) = feed p (ev_reasoning ev) True;
           (p2, ps2) = feed p1 (ev_content ev) False;
           out2 = out1 @ map (piece_event base1) ps1 @ map (piece_event base1) ps2;
           out3 = (if ev_tools ev \<noteq> [] then out2 @ [base1\<lparr>ev_tools := ev_tools ev\<rparr>] else out2);
           out4 = (if ev_finish ev \<noteq> None then out3 @ [base1\<lparr>ev_finish := ev_finish ev\<rparr>] else out3)
       in (p2, if out4 = [] then [base1] else out4))"

section \<open>One byte at a time\<close>

text \<open>What is emitted, byte by byte, with its kind.\<close>

definition tag_bytes :: "bool \<Rightarrow> string \<Rightarrow> (bool \<times> char) list" where
  "tag_bytes r t = map (\<lambda>c. (r, c)) t"

definition piece_bytes :: "Piece list \<Rightarrow> (bool \<times> char) list" where
  "piece_bytes ps = concat (map (\<lambda>p. tag_bytes (piece_reasoning p) (piece_text p)) ps)"

lemma tag_bytes_simps [simp]:
  "tag_bytes r [] = []"
  "tag_bytes r (c # s) = (r, c) # tag_bytes r s"
  "tag_bytes r (s @ t) = tag_bytes r s @ tag_bytes r t"
  by (simp_all add: tag_bytes_def)

lemma piece_bytes_simps [simp]:
  "piece_bytes [] = []"
  "piece_bytes (p # ps) = tag_bytes (piece_reasoning p) (piece_text p) @ piece_bytes ps"
  "piece_bytes (ps @ qs) = piece_bytes ps @ piece_bytes qs"
  by (simp_all add: piece_bytes_def)

lemma piece_bytes_emit [simp]: "piece_bytes (emit_piece out r t) = piece_bytes out @ tag_bytes r t"
proof (cases "out = [] \<or> t = []")
  case True
  then show ?thesis by (auto simp: emit_piece_def)
next
  case False
  then have "piece_bytes out = piece_bytes (butlast out) @
      tag_bytes (piece_reasoning (last out)) (piece_text (last out))"
    by (metis append_butlast_last_id append_Nil2 piece_bytes_simps)
  with False show ?thesis by (auto simp: emit_piece_def)
qed

definition byte_step :: "ThinkingRouter \<Rightarrow> bool \<Rightarrow> char \<Rightarrow> ThinkingRouter \<times> (bool \<times> char) list" where
  "byte_step p src c =
    (if pending p = [] then
       (if c = CHR ''<'' then (p\<lparr>pending := ''<'', pending_reasoning := src\<rparr>, [])
        else (p, [(src \<or> in_thinking p, c)]))
     else
       (let pend = pending p @ [c]; pr = (pending_reasoning p \<or> src) in
        case map_of thinking_tags pend of
          Some opn \<Rightarrow> (p\<lparr>in_thinking := opn, pending := [], pending_reasoning := False\<rparr>, [])
        | None \<Rightarrow>
            if is_tag_prefix pend then (p\<lparr>pending := pend, pending_reasoning := pr\<rparr>, [])
            else (p\<lparr>pending := [], pending_reasoning := False\<rparr>,
                  tag_bytes (pr \<or> in_thinking p) pend)))"

fun byte_run :: "ThinkingRouter \<Rightarrow> bool \<Rightarrow> string \<Rightarrow> ThinkingRouter \<times> (bool \<times> char) list" where
  "byte_run p src [] = (p, [])"
| "byte_run p src (c # s) =
     (let (p1, o1) = byte_step p src c; (p2, o2) = byte_run p1 src s in (p2, o1 @ o2))"

lemma byte_run_append:
  "byte_run p src (s @ t) =
    (let (p1, o1) = byte_run p src s; (p2, o2) = byte_run p1 src t in (p2, o1 @ o2))"
  by (induction s arbitrary: p) (auto split: prod.splits simp: Let_def)

lemma byte_run_plain:
  "pending p = [] \<Longrightarrow> CHR ''<'' \<notin> set s \<Longrightarrow>
   byte_run p src s = (p, tag_bytes (src \<or> in_thinking p) s)"
  by (induction s) (auto simp: byte_step_def)

text \<open>The loop of the source emits, in order, the bytes of the automaton.\<close>

lemma feed_loop_bytes:
  "byte_run p src inp = (p', bs) \<Longrightarrow>
   \<exists>ps. feed_loop p src inp out = (p', ps) \<and> piece_bytes ps = piece_bytes out @ bs"
proof (induction p src inp out arbitrary: p' bs rule: feed_loop.induct)
  case (1 p src inp out)
  show ?case
  proof (cases inp)
    case Nil
    with "1.prems" show ?thesis by auto
  next
    case (Cons c rest)
    show ?thesis
    proof (cases "pending p = []")
      case pend: True
      show ?thesis
      proof (cases "index_byte inp (CHR ''<'')")
        case None
        then have "CHR ''<'' \<notin> set inp" by (simp add: index_byte_None)
        with pend "1.prems" have "p' = p \<and> bs = tag_bytes (src \<or> in_thinking p) inp"
          by (auto simp: byte_run_plain)
        moreover have "feed_loop p src inp out = (p, emit_piece out (src \<or> in_thinking p) inp)"
          using None by (subst feed_loop.simps) (simp add: pend Cons del: index_byte.simps)
        ultimately show ?thesis by simp
      next
        case (Some i)
        let ?p = "p\<lparr>pending := ''<'', pending_reasoning := src\<rparr>"
        let ?pre = "tag_bytes (src \<or> in_thinking p) (take i inp)"
        let ?out = "if 0 < i then emit_piece out (src \<or> in_thinking p) (take i inp) else out"
        have dec: "inp = take i inp @ CHR ''<'' # drop (i + 1) inp"
          using index_byte_decomp [OF Some] by simp
        have pre: "byte_run p src (take i inp) = (p, ?pre)"
          using index_byte_Some [OF Some] pend by (intro byte_run_plain) auto
        obtain p2 o2 where run: "byte_run ?p src (drop (i + 1) inp) = (p2, o2)" by fastforce
        have "byte_run p src (take i inp @ CHR ''<'' # drop (i + 1) inp) = (p2, ?pre @ o2)"
          using run by (simp only: byte_run_append pre Let_def prod.case byte_run.simps)
            (simp add: byte_step_def pend del: append_take_drop_id)
        with dec "1.prems" have p': "p' = p2" "bs = ?pre @ o2" by simp_all
        obtain ps where ps: "feed_loop ?p src (drop (i + 1) inp) ?out = (p2, ps)"
            "piece_bytes ps = piece_bytes ?out @ o2"
          using "1.IH"(1) [OF Cons pend Some run] by blast
        have "feed_loop p src inp out = feed_loop ?p src (drop (i + 1) inp) ?out"
          using Some by (subst feed_loop.simps) (simp add: pend Cons del: index_byte.simps)
        with ps p' show ?thesis by (cases "0 < i") auto
      qed
    next
      case pend: False
      let ?pend = "pending p @ [c]"
      let ?pr = "pending_reasoning p \<or> src"
      obtain p1 o1 where step: "byte_step p src c = (p1, o1)" by fastforce
      obtain p2 o2 where run: "byte_run p1 src rest = (p2, o2)" by fastforce
      from "1.prems" Cons step run have p': "p' = p2" "bs = o1 @ o2" by simp_all
      show ?thesis
      proof (cases "map_of thinking_tags ?pend")
        case (Some opn)
        with step pend have p1: "p1 = p\<lparr>in_thinking := opn, pending := [], pending_reasoning := False\<rparr>"
          "o1 = []" by (simp_all add: byte_step_def)
        from "1.IH"(4) [OF Cons pend refl refl Some, of p2 o2] run p1 p' Cons pend Some
        show ?thesis by (simp add: feed_loop.simps [of p src "c # rest" out])
      next
        case None
        show ?thesis
        proof (cases "is_tag_prefix ?pend")
          case True
          with step pend None have p1: "p1 = p\<lparr>pending := ?pend, pending_reasoning := ?pr\<rparr>"
            "o1 = []" by (simp_all add: byte_step_def)
          from "1.IH"(2) [OF Cons pend refl refl None True, of p2 o2] run p1 p' Cons pend None True
          show ?thesis by (simp add: feed_loop.simps [of p src "c # rest" out])
        next
          case False
          with step pend None have p1: "p1 = p\<lparr>pending := [], pending_reasoning := False\<rparr>"
            "o1 = tag_bytes (?pr \<or> in_thinking p) ?pend" by (simp_all add: byte_step_def)
          from "1.IH"(3) [OF Cons pend refl refl None False, of p2 o2] run p1 p' Cons pend None False
          show ?thesis by (simp add: feed_loop.simps [of p src "c # rest" out])
        qed
      qed
    qed
  qed
qed

lemma feed_bytes:
  "fst (feed p inp src) = fst (byte_run p src inp)"
  "piece_bytes (snd (feed p inp src)) = snd (byte_run p src inp)"
proof -
  obtain p' bs where run: "byte_run p src inp = (p', bs)" by fastforce
  from feed_loop_bytes [OF run, of "[]"] obtain ps where
    "feed_loop p src inp [] = (p', ps)" "piece_bytes ps = bs" by auto
  with run show "fst (feed p inp src) = fst (byte_run p src inp)"
    and "piece_bytes (snd (feed p inp src)) = snd (byte_run p src inp)"
    by (simp_all add: feed_def)
qed

section \<open>Tags and their prefixes\<close>

definition tag_names :: "string list" where
  "tag_names = map fst thinking_tags"

lemma tag_prefix_iff: "is_tag_prefix s \<longleftrightarrow> (\<exists>tag \<in> set tag_names. prefix s tag)"
  by (force simp: is_tag_prefix_def list_ex_iff has_prefix_iff tag_names_def)

lemma tag_of_Some: "map_of thinking_tags s = Some b \<Longrightarrow> s \<in> set tag_names"
  by (force simp: tag_names_def dest: map_of_SomeD)

lemma tags_start_lt:
  "list_all (\<lambda>tag. tag \<noteq> [] \<and> hd tag = CHR ''<'' \<and> CHR ''<'' \<notin> set (tl tag)) tag_names"
  by code_simp

lemma tag_hd: "tag \<in> set tag_names \<Longrightarrow> \<exists>t. tag = CHR ''<'' # t \<and> CHR ''<'' \<notin> set t"
  using tags_start_lt by (cases tag) (auto simp: list_all_iff)

lemma tag_prefix_snoc_lt: "is_tag_prefix (s @ [CHR ''<'']) \<Longrightarrow> s = []"
  by (cases s) (auto simp: tag_prefix_iff prefix_def dest!: tag_hd)

text \<open>Between calls the router holds nothing, or a proper prefix of a tag.\<close>

definition router_inv :: "ThinkingRouter \<Rightarrow> bool" where
  "router_inv p \<longleftrightarrow>
    (if pending p = [] then \<not> pending_reasoning p
     else is_tag_prefix (pending p) \<and> map_of thinking_tags (pending p) = None)"

lemma router_inv_new [simp]: "router_inv new_router"
  by (simp add: router_inv_def new_router_def)

lemma lt_is_tag_prefix: "is_tag_prefix ''<'' \<and> map_of thinking_tags ''<'' = None"
  by code_simp

lemma router_inv_byte_step: "router_inv p \<Longrightarrow> router_inv (fst (byte_step p src c))"
  using lt_is_tag_prefix
  by (auto simp: router_inv_def byte_step_def Let_def split: option.splits)

lemma router_inv_byte_run: "router_inv p \<Longrightarrow> router_inv (fst (byte_run p src s))"
proof (induction s arbitrary: p)
  case Nil
  then show ?case by simp
next
  case (Cons c s)
  then have "router_inv (fst (byte_step p src c))" by (rule_tac router_inv_byte_step)
  from Cons.IH [OF this] show ?case by (simp add: split_beta Let_def)
qed

lemma router_inv_feed [go_intros]: "router_inv p \<Longrightarrow> router_inv (fst (feed p s src))"
  by (simp add: feed_bytes router_inv_byte_run)

lemma router_inv_finalize [go_intros]: "router_inv (fst (finalize p)) \<longleftrightarrow> (pending p = [] \<longrightarrow> router_inv p)"
  by (simp add: finalize_def router_inv_def)

section \<open>Nothing but tags is removed\<close>

inductive tag_erase :: "string \<Rightarrow> string \<Rightarrow> bool" where
  erase_nil: "tag_erase [] []"
| erase_keep: "tag_erase s t \<Longrightarrow> tag_erase (c # s) (c # t)"
| erase_tag: "tag \<in> set tag_names \<Longrightarrow> tag_erase s t \<Longrightarrow> tag_erase (tag @ s) t"

lemma tag_erase_prefix: "tag_erase s t \<Longrightarrow> tag_erase (u @ s) (u @ t)"
  by (induction u) (auto intro: erase_keep)

lemma tag_erase_refl: "tag_erase s s"
  using tag_erase_prefix [OF erase_nil, of s] by simp

lemma map_snd_tag_bytes [simp]: "map snd (tag_bytes r s) = s"
  by (simp add: tag_bytes_def comp_def)

lemma byte_step_erase:
  assumes "byte_step p src c = (p1, o1)"
    and "tag_erase (pending p1 @ s) t"
  shows "tag_erase (pending p @ c # s) (map snd o1 @ t)"
proof (cases "pending p = []")
  case True
  with assms show ?thesis
    by (cases "c = CHR ''<''") (auto simp: byte_step_def intro: erase_keep)
next
  case False
  let ?pend = "pending p @ [c]"
  show ?thesis
  proof (cases "map_of thinking_tags ?pend")
    case (Some opn)
    with assms False have "o1 = []" "tag_erase s t"
      by (auto simp: byte_step_def)
    with erase_tag [OF tag_of_Some [OF Some], of s t] show ?thesis by simp
  next
    case None
    show ?thesis
    proof (cases "is_tag_prefix ?pend")
      case True
      with assms False None show ?thesis by (auto simp: byte_step_def)
    next
      case nopre: False
      with assms False None have "o1 = tag_bytes (pending_reasoning p \<or> src \<or> in_thinking p) ?pend"
        "tag_erase s t" by (auto simp: byte_step_def)
      with tag_erase_prefix [of s t ?pend] show ?thesis by simp
    qed
  qed
qed

lemma byte_run_erase:
  "byte_run p src s = (p', bs) \<Longrightarrow> tag_erase (pending p @ s) (map snd bs @ pending p')"
proof (induction s arbitrary: p bs)
  case Nil
  then show ?case by (simp add: tag_erase_refl)
next
  case (Cons c s)
  obtain p1 o1 where step: "byte_step p src c = (p1, o1)" by fastforce
  with Cons.prems obtain o2 where "byte_run p1 src s = (p', o2)" and bs: "bs = o1 @ o2"
    by (auto split: prod.splits)
  from byte_step_erase [OF step Cons.IH [OF this(1)]] bs show ?case by simp
qed

lemma tag_erase_no_tag:
  "tag_erase s t \<Longrightarrow> \<forall>tag \<in> set tag_names. \<not> sublist tag s \<Longrightarrow> t = s"
proof (induction rule: tag_erase.induct)
  case erase_nil
  then show ?case by simp
next
  case (erase_keep s t c)
  then show ?case by (metis sublist_Cons_right)
next
  case (erase_tag tag s t)
  then show ?case by (metis sublist_appendI append_Nil)
qed

section \<open>Feeding a sequence of chunks\<close>

text \<open>The calls \<open>Feed\<close> makes over a stream, each with the channel the text arrived on.\<close>

fun feed_chunks :: "ThinkingRouter \<Rightarrow> (bool \<times> string) list \<Rightarrow> ThinkingRouter \<times> Piece list" where
  "feed_chunks p [] = (p, [])"
| "feed_chunks p ((src, s) # cs) =
     (let (p1, o1) = feed p s src; (p2, o2) = feed_chunks p1 cs in (p2, o1 @ o2))"

definition feed_all :: "(bool \<times> string) list \<Rightarrow> ThinkingRouter \<times> Piece list" where
  "feed_all cs =
    (let (p1, o1) = feed_chunks new_router cs; (p2, o2) = finalize p1 in (p2, o1 @ o2))"

definition channel :: "bool \<Rightarrow> Piece list \<Rightarrow> string" where
  "channel r ps = concat (map piece_text (filter (\<lambda>p. piece_reasoning p = r) ps))"

lemma channel_simps [simp]:
  "channel r [] = []"
  "channel r (p # ps) = (if piece_reasoning p = r then piece_text p else []) @ channel r ps"
  "channel r (ps @ qs) = channel r ps @ channel r qs"
  by (simp_all add: channel_def)

lemma channel_bytes: "channel r ps = map snd (filter (\<lambda>x. fst x = r) (piece_bytes ps))"
proof (induction ps)
  case Nil
  then show ?case by simp
next
  case (Cons p ps)
  have "filter (\<lambda>x. fst x = r) (tag_bytes q t) = (if q = r then tag_bytes q t else [])" for q t
    by (induction t) auto
  with Cons show ?case by simp
qed

text \<open>The bytes of the chunks with their channels, and the automaton over them.\<close>

fun mixed_run :: "ThinkingRouter \<Rightarrow> (bool \<times> char) list \<Rightarrow> ThinkingRouter \<times> (bool \<times> char) list" where
  "mixed_run p [] = (p, [])"
| "mixed_run p ((src, c) # s) =
     (let (p1, o1) = byte_step p src c; (p2, o2) = mixed_run p1 s in (p2, o1 @ o2))"

definition chunk_bytes :: "(bool \<times> string) list \<Rightarrow> (bool \<times> char) list" where
  "chunk_bytes cs = concat (map (\<lambda>(src, s). tag_bytes src s) cs)"

lemma mixed_run_append:
  "mixed_run p (s @ t) =
    (let (p1, o1) = mixed_run p s; (p2, o2) = mixed_run p1 t in (p2, o1 @ o2))"
  by (induction s arbitrary: p) (auto split: prod.splits simp: Let_def)

lemma mixed_run_tag_bytes: "mixed_run p (tag_bytes src s) = byte_run p src s"
  by (induction s arbitrary: p) (auto split: prod.splits simp: Let_def)

lemma feed_chunks_mixed:
  "fst (feed_chunks p cs) = fst (mixed_run p (chunk_bytes cs))"
  "piece_bytes (snd (feed_chunks p cs)) = snd (mixed_run p (chunk_bytes cs))"
proof (induction cs arbitrary: p)
  case Nil
  { case 1 show ?case by (simp add: chunk_bytes_def) }
  { case 2 show ?case by (simp add: chunk_bytes_def) }
next
  case (Cons x cs)
  obtain src s where x: "x = (src, s)" by fastforce
  have cb: "chunk_bytes ((src, s) # cs) = tag_bytes src s @ chunk_bytes cs"
    by (simp add: chunk_bytes_def)
  { case 1 show ?case using Cons.IH(1) [of "fst (feed p s src)"]
      by (simp add: x cb mixed_run_append mixed_run_tag_bytes feed_bytes split_beta Let_def) }
  { case 2 show ?case using Cons.IH(2) [of "fst (feed p s src)"]
      by (simp add: x cb mixed_run_append mixed_run_tag_bytes feed_bytes split_beta Let_def) }
qed

lemma finalize_bytes:
  "piece_bytes (snd (finalize p)) = tag_bytes (pending_reasoning p \<or> in_thinking p) (pending p)"
  by (simp add: finalize_def)

lemma feed_all_mixed:
  assumes "mixed_run new_router (chunk_bytes cs) = (p, bs)"
  shows "fst (feed_all cs) = fst (finalize p)"
    and "piece_bytes (snd (feed_all cs)) =
      bs @ tag_bytes (pending_reasoning p \<or> in_thinking p) (pending p)"
  using assms feed_chunks_mixed [of new_router cs]
  by (simp_all add: feed_all_def split_beta Let_def finalize_bytes)

lemma concat_texts: "concat (map piece_text ps) = map snd (piece_bytes ps)"
  by (induction ps) auto

lemma mixed_run_erase:
  "mixed_run p s = (p', bs) \<Longrightarrow> tag_erase (pending p @ map snd s) (map snd bs @ pending p')"
proof (induction s arbitrary: p bs)
  case Nil
  then show ?case by (simp add: tag_erase_refl)
next
  case (Cons x s)
  obtain src c where x: "x = (src, c)" by fastforce
  obtain p1 o1 where step: "byte_step p src c = (p1, o1)" by fastforce
  with Cons.prems x obtain o2 where "mixed_run p1 s = (p', o2)" and bs: "bs = o1 @ o2"
    by (auto split: prod.splits)
  from byte_step_erase [OF step Cons.IH [OF this(1)]] bs x show ?case by simp
qed

lemma map_snd_chunk_bytes: "map snd (chunk_bytes cs) = concat (map snd cs)"
  by (induction cs) (auto simp: chunk_bytes_def)

text \<open>A whole tag, read from a router that holds nothing, only switches the mode.\<close>

lemma byte_run_tag:
  assumes "pending p = []" and "\<not> pending_reasoning p" and "map_of thinking_tags tag = Some b"
  shows "byte_run p src tag = (p\<lparr>in_thinking := b\<rparr>, [])"
proof -
  have all: "list_all (\<lambda>(tag, b). \<forall>i \<in> {False, True}. \<forall>src \<in> {False, True}.
      let p = \<lparr>in_thinking = i, pending = [], pending_reasoning = False\<rparr>
      in byte_run p src tag = (p\<lparr>in_thinking := b\<rparr>, [])) thinking_tags"
    by code_simp
  have p: "p = \<lparr>in_thinking = in_thinking p, pending = [], pending_reasoning = False\<rparr>"
    using assms(1,2) by (cases p) simp
  have "(tag, b) \<in> set thinking_tags" using assms(3) by (rule map_of_SomeD)
  with all have "\<forall>i \<in> {False, True}. \<forall>src \<in> {False, True}.
      let p = \<lparr>in_thinking = i, pending = [], pending_reasoning = False\<rparr>
      in byte_run p src tag = (p\<lparr>in_thinking := b\<rparr>, [])"
    by (auto simp: list_all_iff)
  then have "byte_run \<lparr>in_thinking = in_thinking p, pending = [], pending_reasoning = False\<rparr> src tag =
      (\<lparr>in_thinking = b, pending = [], pending_reasoning = False\<rparr>, [])"
    by (cases "in_thinking p"; cases src) (auto simp: Let_def)
  with p show ?thesis by (cases p) simp
qed

lemma byte_run_section:
  assumes "map_of thinking_tags opn = Some True" and "map_of thinking_tags cls = Some False"
    and "CHR ''<'' \<notin> set (a @ b @ c)"
  shows "byte_run new_router False (a @ opn @ b @ cls @ c) =
    (new_router, tag_bytes False a @ tag_bytes True b @ tag_bytes False c)"
proof -
  let ?r = "\<lambda>i. new_router\<lparr>in_thinking := i\<rparr>"
  have plain: "byte_run (?r i) False s = (?r i, tag_bytes i s)" if "CHR ''<'' \<notin> set s" for i s
    using byte_run_plain [of "?r i" s False] that by (simp add: new_router_def)
  have tag: "byte_run (?r i) False t = (?r j, [])" if "map_of thinking_tags t = Some j" for i j t
    using byte_run_tag [of "?r i" t j False] that by (simp add: new_router_def)
  have r0: "new_router = ?r False" by (simp add: new_router_def)
  show ?thesis
    by (subst r0, subst (2) r0)
      (use assms in \<open>simp add: byte_run_append plain tag [OF assms(1)] tag [OF assms(2)]\<close>)
qed

section \<open>Properties of the router\<close>

text \<open>
  C30: the split does not depend on how the upstream cuts the text.  Two sequences of
  chunks with the same bytes on the same channels leave the router in the same state and
  give the same reasoning and the same content.
\<close>

theorem thinking_chunk_independent:
  assumes "chunk_bytes cs = chunk_bytes ds"
  shows "fst (feed_all cs) = fst (feed_all ds)
    \<and> channel r (snd (feed_all cs)) = channel r (snd (feed_all ds))"
proof -
  obtain p bs where "mixed_run new_router (chunk_bytes cs) = (p, bs)" by fastforce
  with assms feed_all_mixed [of cs p bs] feed_all_mixed [of ds p bs]
  show ?thesis by (simp add: channel_bytes)
qed

theorem thinking_chunk_independent_witness:
  "channel True (snd (feed_all [(False, ''<thi''), (False, ''nking>pl''), (False, ''an'')])) =
   channel True (snd (feed_all [(False, ''<thinking>plan'')]))"
  using thinking_chunk_independent [of "[(False, ''<thi''), (False, ''nking>pl''), (False, ''an'')]"
      "[(False, ''<thinking>plan'')]" True]
  by (simp add: chunk_bytes_def)

text \<open>
  A tagged section is routed to the reasoning and the tags disappear, whatever the
  chunks: text before and after it is content, and the router ends outside the section.
  The texts hold no \<open><\<close> of their own.
\<close>

lemma thinking_section:
  assumes "map_of thinking_tags opn = Some True" and "map_of thinking_tags cls = Some False"
    and "CHR ''<'' \<notin> set (a @ b @ c)"
    and "concat (map snd cs) = a @ opn @ b @ cls @ c" and "\<forall>x \<in> set cs. \<not> fst x"
  shows "channel True (snd (feed_all cs)) = b \<and> channel False (snd (feed_all cs)) = a @ c
    \<and> fst (feed_all cs) = new_router"
proof -
  have "chunk_bytes cs = tag_bytes False (concat (map snd cs))"
    using assms(5) by (induction cs) (auto simp: chunk_bytes_def)
  then have "mixed_run new_router (chunk_bytes cs) =
      byte_run new_router False (a @ opn @ b @ cls @ c)"
    by (simp only: mixed_run_tag_bytes assms(4))
  then have "mixed_run new_router (chunk_bytes cs) =
      (new_router, tag_bytes False a @ tag_bytes True b @ tag_bytes False c)"
    by (simp only: byte_run_section [OF assms(1-3)])
  from feed_all_mixed [OF this] show ?thesis
    by (simp add: channel_bytes finalize_def new_router_def tag_bytes_def filter_map comp_def)
qed

lemma thinking_section_witness:
  "channel True (snd (feed_all [(False, ''a<rea''), (False, ''soning>b</thin''), (False, ''king>c'')])) = ''b''
   \<and> channel False (snd (feed_all [(False, ''a<rea''), (False, ''soning>b</thin''), (False, ''king>c'')])) = ''ac''
   \<and> fst (feed_all [(False, ''a<rea''), (False, ''soning>b</thin''), (False, ''king>c'')]) = new_router"
  using thinking_section [of "''<reasoning>''" "''</thinking>''" "''a''" "''b''" "''c''"
      "[(False, ''a<rea''), (False, ''soning>b</thin''), (False, ''king>c'')]"]
  by (simp add: thinking_tags_def)

text \<open>
  The router removes tags and nothing else.  The text of all pieces, in order, is
  the text of all chunks with some occurrences of the six tags deleted.
\<close>

lemma thinking_erases_only_tags:
  "tag_erase (concat (map snd cs)) (concat (map piece_text (snd (feed_all cs))))"
proof -
  obtain p bs where run: "mixed_run new_router (chunk_bytes cs) = (p, bs)" by fastforce
  from mixed_run_erase [OF run] feed_all_mixed(2) [OF run] show ?thesis
    by (simp add: concat_texts map_snd_chunk_bytes new_router_def)
qed

text \<open>
  A tag that starts while another one may be starting is missed.  With a partial
  tag held back, a second \<open><\<close> is flushed together with it as plain text, so the mode
  stays what it was and a tag beginning at that second \<open><\<close> reaches the client as text.
\<close>

lemma thinking_missed_tag:
  assumes "router_inv p" and "pending p \<noteq> []" and "CHR ''<'' \<notin> set s"
  shows "in_thinking (fst (feed p (CHR ''<'' # s) src)) = in_thinking p
    \<and> concat (map piece_text (snd (feed p (CHR ''<'' # s) src))) = pending p @ CHR ''<'' # s"
proof -
  let ?q = "p\<lparr>pending := [], pending_reasoning := False\<rparr>"
  let ?r = "pending_reasoning p \<or> src \<or> in_thinking p"
  have none: "\<not> is_tag_prefix (pending p @ ''<'')"
    using assms(2) tag_prefix_snoc_lt by blast
  then have "map_of thinking_tags (pending p @ ''<'') = None"
    using tag_of_Some tag_prefix_iff by (meson option.exhaust prefix_order.order_refl)
  with none assms(2) have step: "byte_step p src (CHR ''<'') = (?q, tag_bytes ?r (pending p @ ''<''))"
    by (simp add: byte_step_def)
  have "byte_run p src (CHR ''<'' # s) =
      (?q, tag_bytes ?r (pending p @ ''<'') @ tag_bytes (src \<or> in_thinking p) s)"
    using byte_run_plain [of ?q s src] assms(3) step by simp
  then show ?thesis by (simp add: feed_bytes concat_texts)
qed

lemma thinking_missed_tag_witness:
  "concat (map piece_text (snd (feed (fst (feed new_router ''<'' False)) ''<think>plan'' False)))
     = ''<<think>plan''"
proof -
  have "router_inv (fst (feed new_router ''<'' False))" by code_simp
  moreover have "pending (fst (feed new_router ''<'' False)) = ''<''" by code_simp
  ultimately show ?thesis
    using thinking_missed_tag [of "fst (feed new_router ''<'' False)" "''think>plan''" False] by simp
qed

end
