(* ===== verification/OpenAI.thy ===== *)
theory OpenAI
  imports Events "HOL-Library.AList"
begin

text \<open>
  \<open>internal/stream/openai.go\<close>: the accumulator that folds the events of a stream into one
  \<open>chat.completion\<close> object, and the writer that prints them as \<open>chat.completion.chunk\<close>
  frames.  The Go map of the tool calls is an association list with distinct keys.  The
  objects both build are JSON values whose members stand in the order of
  \<open>json.Marshal\<close> (sorted for maps, declaration order for structs); \<open>now\<close> is
  \<open>time.Now().Unix()\<close>.  A frame is one \<open>data:\<close> line with its blank line, and the n-th
  write of the underlying writer may fail.
\<close>

section \<open>JSON of the events\<close>

definition opt_member :: "bool \<Rightarrow> string \<Rightarrow> json \<Rightarrow> (string \<times> json) list" where
  "opt_member b k v = (if b then [(k, v)] else [])"

lemma opt_member_simps [simp]:
  "opt_member True k v = [(k, v)]" "opt_member False k v = []"
  by (simp_all add: opt_member_def)

definition json_of_tool :: "ToolCallDelta \<Rightarrow> json" where
  "json_of_tool tc = JObj
    ([(''index'', jint (tc_index tc))] @
     opt_member (tc_id tc \<noteq> []) ''id'' (JStr (tc_id tc)) @
     opt_member (tc_type tc \<noteq> []) ''type'' (JStr (tc_type tc)) @
     [(''function'', JObj
        (opt_member (fn_name (tc_function tc) \<noteq> []) ''name'' (JStr (fn_name (tc_function tc))) @
         opt_member (fn_arguments (tc_function tc) \<noteq> []) ''arguments''
           (JStr (fn_arguments (tc_function tc)))))])"

definition json_of_details :: "UsageDetails \<Rightarrow> json" where
  "json_of_details d = JObj
    (opt_member (cached_tokens d \<noteq> 0) ''cached_tokens'' (jint (cached_tokens d)) @
     opt_member (cache_write_tokens d \<noteq> 0) ''cache_write_tokens'' (jint (cache_write_tokens d)))"

definition json_of_usage :: "Usage \<Rightarrow> json" where
  "json_of_usage u = JObj
    ([(''prompt_tokens'', jint (prompt_tokens u)),
      (''completion_tokens'', jint (completion_tokens u)),
      (''total_tokens'', jint (total_tokens u)),
      (''prompt_tokens_details'', json_of_details (prompt_details u))] @
     (case completion_details u of None \<Rightarrow> [] | Some j \<Rightarrow> [(''completion_tokens_details'', j)]))"

definition finish_json :: "string option \<Rightarrow> json" where
  "finish_json f = (case f of None \<Rightarrow> JNull | Some s \<Rightarrow> JStr s)"

section \<open>The accumulator\<close>

record accumulatorTool =
  at_id :: string
  at_type :: string
  at_name :: string
  at_arguments :: string

record Accumulator =
  acc_id :: string
  acc_model :: string
  acc_role :: string
  acc_content :: string
  acc_reasoning :: string
  acc_created :: int
  acc_tools :: "(int \<times> accumulatorTool) list"
  acc_usage :: "Usage option"
  acc_finish :: "string option"

definition zero_acc_tool :: accumulatorTool where
  "zero_acc_tool = \<lparr>at_id = [], at_type = [], at_name = [], at_arguments = []\<rparr>"

definition new_accumulator :: Accumulator where
  "new_accumulator = \<lparr>acc_id = [], acc_model = [], acc_role = [], acc_content = [],
     acc_reasoning = [], acc_created = 0, acc_tools = [], acc_usage = None, acc_finish = None\<rparr>"

definition update_tool :: "accumulatorTool \<Rightarrow> ToolCallDelta \<Rightarrow> accumulatorTool" where
  "update_tool t tc =
    \<lparr>at_id = (if tc_id tc \<noteq> [] then tc_id tc else at_id t),
     at_type = (if tc_type tc \<noteq> [] then tc_type tc else at_type t),
     at_name = (if fn_name (tc_function tc) \<noteq> [] then fn_name (tc_function tc) else at_name t),
     at_arguments = at_arguments t @ fn_arguments (tc_function tc)\<rparr>"

text \<open>One turn of the loop over the tool call deltas of an event.\<close>

definition add_tool ::
    "ToolCallDelta \<Rightarrow> (int \<times> accumulatorTool) list \<Rightarrow> (int \<times> accumulatorTool) list" where
  "add_tool tc ts =
    (let t = (case map_of ts (tc_index tc) of None \<Rightarrow> zero_acc_tool | Some t \<Rightarrow> t)
     in AList.update (tc_index tc) (update_tool t tc) ts)"

definition acc_add :: "Accumulator \<Rightarrow> Event \<Rightarrow> Accumulator" where
  "acc_add a ev =
    \<lparr>acc_id = (if ev_id ev \<noteq> [] then ev_id ev else acc_id a),
     acc_model = (if ev_model ev \<noteq> [] then ev_model ev else acc_model a),
     acc_role = (if ev_role ev \<noteq> [] then ev_role ev else acc_role a),
     acc_content = acc_content a @ ev_content ev,
     acc_reasoning = acc_reasoning a @ ev_reasoning ev,
     acc_created = (if ev_created ev \<noteq> 0 then ev_created ev else acc_created a),
     acc_tools = fold add_tool (ev_tools ev) (acc_tools a),
     acc_usage = (if ev_usage ev \<noteq> None then ev_usage ev else acc_usage a),
     acc_finish = (if ev_finish ev \<noteq> None then ev_finish ev else acc_finish a)\<rparr>"

definition tool_call_json :: "accumulatorTool \<Rightarrow> json" where
  "tool_call_json t = JObj
    [(''function'', JObj
       [(''arguments'', JStr (if at_arguments t = [] then ''{}'' else at_arguments t)),
        (''name'', JStr (at_name t))]),
     (''id'', JStr (at_id t)),
     (''type'', JStr (if at_type t = [] then ''function'' else at_type t))]"

text \<open>The loop \<open>for i := 0; i < len(a.Tools); i++\<close>.\<close>

definition response_calls :: "(int \<times> accumulatorTool) list \<Rightarrow> json list" where
  "response_calls ts =
    List.map_filter (\<lambda>i. map_option tool_call_json (map_of ts (int i))) [0..<length ts]"

definition response :: "Accumulator \<Rightarrow> string \<Rightarrow> int \<Rightarrow> Accumulator \<times> json" where
  "response a fallback now =
    (let a = a\<lparr>acc_id := (if acc_id a = [] then ''chatcmpl-qoder-proxy'' else acc_id a),
               acc_model := (if acc_model a = [] then fallback else acc_model a),
               acc_created := (if acc_created a = 0 then now else acc_created a)\<rparr>;
         content = (if acc_content a = [] \<and> acc_tools a \<noteq> [] then JNull else JStr (acc_content a));
         msg = JObj
           ([(''content'', content)] @
            opt_member (acc_reasoning a \<noteq> []) ''reasoning_content'' (JStr (acc_reasoning a)) @
            [(''role'', JStr ''assistant'')] @
            opt_member (acc_tools a \<noteq> []) ''tool_calls'' (JArr (response_calls (acc_tools a))));
         choice = JObj [(''finish_reason'', finish_json (acc_finish a)), (''index'', jint 0),
                        (''message'', msg)]
     in (a, JObj
           ([(''choices'', JArr [choice]), (''created'', jint (acc_created a)),
             (''id'', JStr (acc_id a)), (''model'', JStr (acc_model a)),
             (''object'', JStr ''chat.completion'')] @
            (case acc_usage a of None \<Rightarrow> [] | Some u \<Rightarrow> [(''usage'', json_of_usage u)]))))"

section \<open>The SSE writer\<close>

datatype sse_frame = FrameDone | FrameData json

text \<open>\<open>write_fails n\<close>: the write that follows \<open>n\<close> writes of this response fails.\<close>

record SSEWriter =
  sw_out :: "sse_frame list"
  sw_writes :: nat
  sw_include_usage :: bool
  sw_done :: bool

definition new_writer :: "bool \<Rightarrow> SSEWriter" where
  "new_writer inc = \<lparr>sw_out = [], sw_writes = 0, sw_include_usage = inc, sw_done = False\<rparr>"

definition write_frame :: "(nat \<Rightarrow> bool) \<Rightarrow> SSEWriter \<Rightarrow> sse_frame \<Rightarrow> bool \<times> SSEWriter" where
  "write_frame write_fails w f =
    (let w' = w\<lparr>sw_writes := sw_writes w + 1\<rparr>
     in if write_fails (sw_writes w) then (False, w') else (True, w'\<lparr>sw_out := sw_out w @ [f]\<rparr>))"

definition chunk_json :: "Event \<Rightarrow> string \<Rightarrow> int \<Rightarrow> json" where
  "chunk_json ev fallback now =
    (let delta = JObj
           (opt_member (ev_content ev \<noteq> []) ''content'' (JStr (ev_content ev)) @
            opt_member (ev_reasoning ev \<noteq> []) ''reasoning_content'' (JStr (ev_reasoning ev)) @
            opt_member (ev_role ev \<noteq> []) ''role'' (JStr (ev_role ev)) @
            opt_member (ev_tools ev \<noteq> []) ''tool_calls'' (JArr (map json_of_tool (ev_tools ev))));
         choice = JObj [(''delta'', delta), (''finish_reason'', finish_json (ev_finish ev)),
                        (''index'', jint 0)]
     in JObj
          ([(''choices'', JArr (if ev_usage ev \<noteq> None then [] else [choice])),
            (''created'', jint (if ev_created ev = 0 then now else ev_created ev)),
            (''id'', JStr (if ev_id ev = [] then ''chatcmpl-qoder-proxy'' else ev_id ev)),
            (''model'', JStr (if ev_model ev = [] then fallback else ev_model ev)),
            (''object'', JStr ''chat.completion.chunk'')] @
           (case ev_usage ev of None \<Rightarrow> [] | Some u \<Rightarrow> [(''usage'', json_of_usage u)])))"

text \<open>The first component says whether the call returned without an error.\<close>

definition write_event ::
    "(nat \<Rightarrow> bool) \<Rightarrow> string \<Rightarrow> int \<Rightarrow> Event \<Rightarrow> SSEWriter \<Rightarrow> bool \<times> SSEWriter" where
  "write_event write_fails fallback now ev w =
    (if ev_kind ev = ''done'' then
       (if sw_done w then (True, w)
        else write_frame write_fails (w\<lparr>sw_done := True\<rparr>) FrameDone)
     else if ev_kind ev = ''usage'' \<and> \<not> sw_include_usage w then (True, w)
     else write_frame write_fails w (FrameData (chunk_json ev fallback now)))"

section \<open>Folding a stream\<close>

definition acc_run :: "Event list \<Rightarrow> Accumulator \<Rightarrow> Accumulator" where
  "acc_run evs a = fold (\<lambda>ev a. acc_add a ev) evs a"

lemma acc_run_simps [simp]:
  "acc_run [] a = a"
  "acc_run (ev # evs) a = acc_run evs (acc_add a ev)"
  "acc_run (evs @ fvs) a = acc_run fvs (acc_run evs a)"
  by (simp_all add: acc_run_def)

lemma acc_add_texts [simp]:
  "acc_content (acc_add a ev) = acc_content a @ ev_content ev"
  "acc_reasoning (acc_add a ev) = acc_reasoning a @ ev_reasoning ev"
  "acc_tools (acc_add a ev) = fold add_tool (ev_tools ev) (acc_tools a)"
  by (simp_all add: acc_add_def)

lemma acc_run_content: "acc_content (acc_run evs a) = acc_content a @ concat (map ev_content evs)"
  by (induction evs arbitrary: a) auto

lemma acc_run_reasoning:
  "acc_reasoning (acc_run evs a) = acc_reasoning a @ concat (map ev_reasoning evs)"
  by (induction evs arbitrary: a) auto

lemma acc_run_tools:
  "acc_tools (acc_run evs a) = fold add_tool (concat (map ev_tools evs)) (acc_tools a)"
  by (induction evs arbitrary: a) auto

text \<open>The arguments collected for an index.\<close>

definition args_at :: "(int \<times> accumulatorTool) list \<Rightarrow> int \<Rightarrow> string" where
  "args_at ts i = (case map_of ts i of None \<Rightarrow> [] | Some t \<Rightarrow> at_arguments t)"

lemma map_of_add_tool:
  "map_of (add_tool tc ts) = (map_of ts)(tc_index tc \<mapsto>
     update_tool (case map_of ts (tc_index tc) of None \<Rightarrow> zero_acc_tool | Some t \<Rightarrow> t) tc)"
  by (simp add: add_tool_def Let_def update_conv')

lemma args_at_add_tool:
  "args_at (add_tool tc ts) i =
    args_at ts i @ (if tc_index tc = i then fn_arguments (tc_function tc) else [])"
  by (auto simp: args_at_def map_of_add_tool update_tool_def zero_acc_tool_def split: option.splits)

lemma args_at_fold:
  "args_at (fold add_tool tcs ts) i =
    args_at ts i @ concat (map (\<lambda>tc. fn_arguments (tc_function tc)) (filter (\<lambda>tc. tc_index tc = i) tcs))"
  by (induction tcs arbitrary: ts) (auto simp: args_at_add_tool)

lemma fold_add_tool_keys:
  "fst ` set (fold add_tool tcs ts) = fst ` set ts \<union> tc_index ` set tcs"
proof (induction tcs arbitrary: ts)
  case Nil
  then show ?case by simp
next
  case (Cons tc tcs)
  have "fst ` set (add_tool tc ts) = insert (tc_index tc) (fst ` set ts)"
    by (simp add: add_tool_def Let_def AList.dom_update)
  with Cons show ?case by auto
qed

lemma fold_add_tool_distinct: "distinct (map fst ts) \<Longrightarrow> distinct (map fst (fold add_tool tcs ts))"
  by (induction tcs arbitrary: ts) (auto simp: add_tool_def Let_def distinct_update)

definition acc_inv :: "Accumulator \<Rightarrow> bool" where
  "acc_inv a \<longleftrightarrow> distinct (map fst (acc_tools a))"

lemma acc_inv_new [simp]: "acc_inv new_accumulator"
  by (simp add: acc_inv_def new_accumulator_def)

lemma acc_inv_add [go_intros]: "acc_inv a \<Longrightarrow> acc_inv (acc_add a ev)"
  by (simp add: acc_inv_def fold_add_tool_distinct)

lemma acc_inv_run [go_intros]: "acc_inv a \<Longrightarrow> acc_inv (acc_run evs a)"
  by (induction evs arbitrary: a) (auto intro: acc_inv_add)

section \<open>The tool calls of the response\<close>

lemma length_map_filter: "length (List.map_filter f xs) = length (filter (\<lambda>x. f x \<noteq> None) xs)"
  by (induction xs) (auto simp: map_filter_simps split: option.splits)

lemma map_of_in_keys: "map_of ts k \<noteq> None \<longleftrightarrow> k \<in> fst ` set ts"
  by (simp add: map_of_eq_None_iff)

lemma length_response_calls:
  "length (response_calls ts) = card {i. i < length ts \<and> int i \<in> fst ` set ts}"
proof -
  have "length (response_calls ts) = length (filter (\<lambda>i. int i \<in> fst ` set ts) [0..<length ts])"
    by (simp only: response_calls_def length_map_filter option.map_disc_iff map_of_in_keys)
  also have "\<dots> = card (set (filter (\<lambda>i. int i \<in> fst ` set ts) [0..<length ts]))"
    by (rule distinct_card [symmetric]) simp
  also have "set (filter (\<lambda>i. int i \<in> fst ` set ts) [0..<length ts]) =
      {i. i < length ts \<and> int i \<in> fst ` set ts}" by auto
  finally show ?thesis .
qed

lemma card_keys: "distinct (map fst ts) \<Longrightarrow> card (fst ` set ts) = length ts"
  by (metis distinct_card length_map list.set_map)

lemma all_indices_iff:
  assumes "distinct (map fst ts)"
  shows "card {i. i < length ts \<and> int i \<in> fst ` set ts} = length ts \<longleftrightarrow>
    fst ` set ts = int ` {..<length ts}"
proof
  let ?I = "{i. i < length ts \<and> int i \<in> fst ` set ts}"
  assume "card ?I = length ts"
  then have "?I = {..<length ts}"
    by (intro card_subset_eq) auto
  then have "int ` {..<length ts} \<subseteq> fst ` set ts" by auto
  moreover have "card (int ` {..<length ts}) = card (fst ` set ts)"
    using card_keys [OF assms] by (simp add: card_image)
  ultimately show "fst ` set ts = int ` {..<length ts}"
    by (intro card_subset_eq [symmetric]) auto
next
  assume eq: "fst ` set ts = int ` {..<length ts}"
  then have "{i. i < length ts \<and> int i \<in> fst ` set ts} = {..<length ts}" by auto
  then show "card {i. i < length ts \<and> int i \<in> fst ` set ts} = length ts" by simp
qed

section \<open>Properties of the accumulator\<close>

text \<open>
  The accumulated message is the stream.  Its content and its reasoning are the
  deltas' texts in order, and the arguments of the tool call at each index are the
  argument fragments of that index in order.
\<close>

lemma accumulator_concatenates:
  "acc_content (acc_run evs new_accumulator) = concat (map ev_content evs)
   \<and> acc_reasoning (acc_run evs new_accumulator) = concat (map ev_reasoning evs)
   \<and> args_at (acc_tools (acc_run evs new_accumulator)) i =
       concat (map (\<lambda>tc. fn_arguments (tc_function tc))
         (filter (\<lambda>tc. tc_index tc = i) (concat (map ev_tools evs))))"
  by (simp add: acc_run_content acc_run_reasoning acc_run_tools args_at_fold)
    (simp add: new_accumulator_def args_at_def)

text \<open>
  C37: the response lists every accumulated tool call exactly when their indices are
  \<open>0, 1, ..., n - 1\<close>.  The loop stops at the number of calls, so a stream whose indices
  have a gap, start at 1 or are negative loses calls in the non-streaming response.
\<close>

theorem response_calls_complete_iff:
  "length (response_calls (acc_tools (acc_run evs new_accumulator)))
     = length (acc_tools (acc_run evs new_accumulator)) \<longleftrightarrow>
   tc_index ` set (concat (map ev_tools evs))
     = int ` {..<length (acc_tools (acc_run evs new_accumulator))}"
proof -
  let ?ts = "acc_tools (acc_run evs new_accumulator)"
  have "distinct (map fst ?ts)"
    using acc_inv_run [OF acc_inv_new, of evs] by (simp add: acc_inv_def)
  moreover have "fst ` set ?ts = tc_index ` set (concat (map ev_tools evs))"
    by (simp only: acc_run_tools fold_add_tool_keys) (simp add: new_accumulator_def)
  ultimately show ?thesis
    using length_response_calls [of ?ts] all_indices_iff [of ?ts] by simp
qed

section \<open>Writing frames\<close>

text \<open>The writer has sent \<open>[DONE]\<close> at most once, and only when it says so.\<close>

definition writer_inv :: "SSEWriter \<Rightarrow> bool" where
  "writer_inv w \<longleftrightarrow>
    length (filter (\<lambda>f. f = FrameDone) (sw_out w)) \<le> (if sw_done w then 1 else 0)"

lemma writer_inv_new [simp]: "writer_inv (new_writer inc)"
  by (simp add: writer_inv_def new_writer_def)

lemma writer_inv_write_event [go_intros]:
  "writer_inv w \<Longrightarrow> writer_inv (snd (write_event flt fb now ev w))"
  by (auto simp: writer_inv_def write_event_def write_frame_def Let_def filter_empty_conv)

end
