(* ===== verification/SseParser.thy ===== *)
theory SseParser
  imports Events
begin

text \<open>
  \<open>internal/stream/sse.go\<close>: the reader of the upstream's SSE stream.  \<open>parse_payload\<close>
  decodes one payload (with or without Qoder's envelope) into events, \<open>consume\<close> is the
  closure that reassembles JSON cut over several frames, and \<open>parse_sse\<close> the read loop.

  The stream is the bytes that arrive and the way it ends: end of file, a read error, the
  idle timer, or a cancelled context.  The callback \<open>emit\<close> is a function on the state of
  its owner that may return an error.
\<close>

section \<open>Decoding a payload\<close>

record ChunkDelta =
  cd_role :: string
  cd_content :: json
  cd_reasoning :: json
  cd_tools :: "ToolCallDelta list"

record ChunkChoice =
  cc_index :: int
  cc_delta :: ChunkDelta
  cc_finish :: "string option"

record RawUsage =
  ru_prompt :: int
  ru_completion :: int
  ru_total :: int
  ru_input :: int
  ru_output :: int
  ru_cached :: int
  ru_cache_write :: int
  ru_prompt_details :: UsageDetails
  ru_input_details :: UsageDetails
  ru_completion_details :: "json option"

record Chunk =
  ck_id :: string
  ck_object :: string
  ck_created :: "json option"
  ck_model :: string
  ck_choices :: "ChunkChoice list"
  ck_usage :: "Usage option"
  ck_raw_usage :: "RawUsage option"

definition zero_delta :: ChunkDelta where
  "zero_delta = \<lparr>cd_role = [], cd_content = JNull, cd_reasoning = JNull, cd_tools = []\<rparr>"

definition zero_choice :: ChunkChoice where
  "zero_choice = \<lparr>cc_index = 0, cc_delta = zero_delta, cc_finish = None\<rparr>"

definition zero_raw_usage :: RawUsage where
  "zero_raw_usage = \<lparr>ru_prompt = 0, ru_completion = 0, ru_total = 0, ru_input = 0, ru_output = 0,
     ru_cached = 0, ru_cache_write = 0, ru_prompt_details = zero_details,
     ru_input_details = zero_details, ru_completion_details = None\<rparr>"

definition zero_chunk :: Chunk where
  "zero_chunk = \<lparr>ck_id = [], ck_object = [], ck_created = None, ck_model = [], ck_choices = [],
     ck_usage = None, ck_raw_usage = None\<rparr>"

definition dec_function :: "ToolFunctionDelta dec" where
  "dec_function = dec_struct (\<lambda>k j r.
     if key_is ''name'' k then map_option (\<lambda>x. r\<lparr>fn_name := x\<rparr>) (dec_string j (fn_name r))
     else if key_is ''arguments'' k then
       map_option (\<lambda>x. r\<lparr>fn_arguments := x\<rparr>) (dec_string j (fn_arguments r))
     else Some r)"

definition dec_tool :: "ToolCallDelta dec" where
  "dec_tool = dec_struct (\<lambda>k j r.
     if key_is ''index'' k then map_option (\<lambda>x. r\<lparr>tc_index := x\<rparr>) (dec_int j (tc_index r))
     else if key_is ''id'' k then map_option (\<lambda>x. r\<lparr>tc_id := x\<rparr>) (dec_string j (tc_id r))
     else if key_is ''type'' k then map_option (\<lambda>x. r\<lparr>tc_type := x\<rparr>) (dec_string j (tc_type r))
     else if key_is ''function'' k then
       map_option (\<lambda>x. r\<lparr>tc_function := x\<rparr>) (dec_function j (tc_function r))
     else Some r)"

definition dec_details :: "UsageDetails dec" where
  "dec_details = dec_struct (\<lambda>k j r.
     if key_is ''cached_tokens'' k then
       map_option (\<lambda>x. r\<lparr>cached_tokens := x\<rparr>) (dec_int j (cached_tokens r))
     else if key_is ''cache_write_tokens'' k then
       map_option (\<lambda>x. r\<lparr>cache_write_tokens := x\<rparr>) (dec_int j (cache_write_tokens r))
     else Some r)"

definition dec_usage :: "Usage dec" where
  "dec_usage = dec_struct (\<lambda>k j r.
     if key_is ''prompt_tokens'' k then
       map_option (\<lambda>x. r\<lparr>prompt_tokens := x\<rparr>) (dec_int j (prompt_tokens r))
     else if key_is ''completion_tokens'' k then
       map_option (\<lambda>x. r\<lparr>completion_tokens := x\<rparr>) (dec_int j (completion_tokens r))
     else if key_is ''total_tokens'' k then
       map_option (\<lambda>x. r\<lparr>total_tokens := x\<rparr>) (dec_int j (total_tokens r))
     else if key_is ''prompt_tokens_details'' k then
       map_option (\<lambda>x. r\<lparr>prompt_details := x\<rparr>) (dec_details j (prompt_details r))
     else if key_is ''completion_tokens_details'' k then
       map_option (\<lambda>x. r\<lparr>completion_details := x\<rparr>) (dec_raw j (completion_details r))
     else Some r)"

definition dec_raw_usage :: "RawUsage dec" where
  "dec_raw_usage = dec_struct (\<lambda>k j r.
     if key_is ''prompt_tokens'' k then map_option (\<lambda>x. r\<lparr>ru_prompt := x\<rparr>) (dec_int j (ru_prompt r))
     else if key_is ''completion_tokens'' k then
       map_option (\<lambda>x. r\<lparr>ru_completion := x\<rparr>) (dec_int j (ru_completion r))
     else if key_is ''total_tokens'' k then map_option (\<lambda>x. r\<lparr>ru_total := x\<rparr>) (dec_int j (ru_total r))
     else if key_is ''input_tokens'' k then map_option (\<lambda>x. r\<lparr>ru_input := x\<rparr>) (dec_int j (ru_input r))
     else if key_is ''output_tokens'' k then map_option (\<lambda>x. r\<lparr>ru_output := x\<rparr>) (dec_int j (ru_output r))
     else if key_is ''cached_tokens'' k then map_option (\<lambda>x. r\<lparr>ru_cached := x\<rparr>) (dec_int j (ru_cached r))
     else if key_is ''cache_write_tokens'' k then
       map_option (\<lambda>x. r\<lparr>ru_cache_write := x\<rparr>) (dec_int j (ru_cache_write r))
     else if key_is ''prompt_tokens_details'' k then
       map_option (\<lambda>x. r\<lparr>ru_prompt_details := x\<rparr>) (dec_details j (ru_prompt_details r))
     else if key_is ''input_tokens_details'' k then
       map_option (\<lambda>x. r\<lparr>ru_input_details := x\<rparr>) (dec_details j (ru_input_details r))
     else if key_is ''completion_tokens_details'' k then
       map_option (\<lambda>x. r\<lparr>ru_completion_details := x\<rparr>) (dec_raw j (ru_completion_details r))
     else Some r)"

definition dec_delta :: "ChunkDelta dec" where
  "dec_delta = dec_struct (\<lambda>k j r.
     if key_is ''role'' k then map_option (\<lambda>x. r\<lparr>cd_role := x\<rparr>) (dec_string j (cd_role r))
     else if key_is ''content'' k then map_option (\<lambda>x. r\<lparr>cd_content := x\<rparr>) (dec_any j (cd_content r))
     else if key_is ''reasoning_content'' k then
       map_option (\<lambda>x. r\<lparr>cd_reasoning := x\<rparr>) (dec_any j (cd_reasoning r))
     else if key_is ''tool_calls'' k then
       map_option (\<lambda>x. r\<lparr>cd_tools := x\<rparr>) (dec_list dec_tool zero_tool j (cd_tools r))
     else Some r)"

definition dec_choice :: "ChunkChoice dec" where
  "dec_choice = dec_struct (\<lambda>k j r.
     if key_is ''index'' k then map_option (\<lambda>x. r\<lparr>cc_index := x\<rparr>) (dec_int j (cc_index r))
     else if key_is ''delta'' k then map_option (\<lambda>x. r\<lparr>cc_delta := x\<rparr>) (dec_delta j (cc_delta r))
     else if key_is ''finish_reason'' k then
       map_option (\<lambda>x. r\<lparr>cc_finish := x\<rparr>) (dec_ptr dec_string [] j (cc_finish r))
     else Some r)"

definition dec_chunk :: "Chunk dec" where
  "dec_chunk = dec_struct (\<lambda>k j r.
     if key_is ''id'' k then map_option (\<lambda>x. r\<lparr>ck_id := x\<rparr>) (dec_string j (ck_id r))
     else if key_is ''object'' k then map_option (\<lambda>x. r\<lparr>ck_object := x\<rparr>) (dec_string j (ck_object r))
     else if key_is ''created'' k then map_option (\<lambda>x. r\<lparr>ck_created := x\<rparr>) (dec_raw j (ck_created r))
     else if key_is ''model'' k then map_option (\<lambda>x. r\<lparr>ck_model := x\<rparr>) (dec_string j (ck_model r))
     else if key_is ''choices'' k then
       map_option (\<lambda>x. r\<lparr>ck_choices := x\<rparr>) (dec_list dec_choice zero_choice j (ck_choices r))
     else if key_is ''usage'' k then
       map_option (\<lambda>x. r\<lparr>ck_usage := x\<rparr>) (dec_ptr dec_usage zero_usage j (ck_usage r))
     else if key_is ''raw_usage'' k then
       map_option (\<lambda>x. r\<lparr>ck_raw_usage := x\<rparr>) (dec_ptr dec_raw_usage zero_raw_usage j (ck_raw_usage r))
     else Some r)"

text \<open>The errors of the reader.  A delta that is a number or holds one is an error whatever the number
  is: one that \<open>float64\<close> cannot hold counts as an invalid delta here.  The flag of a malformed payload says that the error of
  \<open>encoding/json\<close> is \<open>unexpected end of JSON input\<close>.\<close>

datatype sse_error =
    MalformedSSE bool
  | InvalidStatusCode
  | InvalidBody
  | EnvelopeError int string
  | MalformedInner bool
  | InvalidContentDelta
  | InvalidReasoningDelta
  | NeitherChoicesNorUsage
  | DoneWithIncomplete
  | IncompleteTooLong
  | EventTooLong
  | EndedIncomplete
  | EndedWithoutDone
  | IdleTimeout
  | ReadError string
  | ContextError string
  | EmitError

fun is_incomplete_json :: "sse_error \<Rightarrow> bool" where
  "is_incomplete_json (MalformedSSE b) = b"
| "is_incomplete_json (MalformedInner b) = b"
| "is_incomplete_json _ = False"

definition string_delta :: "json \<Rightarrow> string option" where
  "string_delta v = (case v of JNull \<Rightarrow> Some [] | JStr s \<Rightarrow> Some s | _ \<Rightarrow> None)"

definition truncate :: "string \<Rightarrow> nat \<Rightarrow> string" where
  "truncate s n = (if length s \<le> n then s else take n s @ [CHR 0xE2, CHR 0x80, CHR 0xA6])"

text \<open>
  \<open>int64(f)\<close> of a float: the literal is read as a fraction, rounded to 53 bits (to nearest,
  ties to even) and cut towards zero.  \<open>None\<close> where \<open>ParseFloat\<close> reports a range error; a
  value that does not fit gives the value of amd64's conversion.
\<close>

function bit_len :: "int \<Rightarrow> nat" where
  "bit_len n = (if n \<le> 0 then 0 else Suc (bit_len (n div 2)))"
  by pat_completeness auto
termination
  by (relation "measure nat") auto

declare bit_len.simps [simp del]

definition round_half_even :: "int \<Rightarrow> int \<Rightarrow> int" where
  "round_half_even a b =
    (let q = a div b; r = a mod b
     in if 2 * r < b \<or> 2 * r = b \<and> even q then q else q + 1)"

definition float_trunc :: "int \<Rightarrow> int \<Rightarrow> int option" where
  "float_trunc num den =
    (let k = bit_len (num div den) in
     if num < den then Some (if round_half_even (num * 2 ^ 53) den < 2 ^ 53 then 0 else 1)
     else if k \<le> 53 then Some (round_half_even (num * 2 ^ (53 - k)) den div 2 ^ (53 - k))
     else (let v = round_half_even num (den * 2 ^ (k - 53)) * 2 ^ (k - 53)
           in if v < 2 ^ 1024 then Some v else None))"

definition split_at :: "(char \<Rightarrow> bool) \<Rightarrow> string \<Rightarrow> string \<times> string" where
  "split_at p s = (takeWhile (\<lambda>c. \<not> p c) s, drop 1 (dropWhile (\<lambda>c. \<not> p c) s))"

definition float_to_int64 :: "string \<Rightarrow> int option" where
  "float_to_int64 lit =
    (let neg = has_prefix lit ''-'';
         body = (if neg then drop 1 lit else lit);
         (mant, ex) = split_at (\<lambda>c. c = CHR ''e'' \<or> c = CHR ''E'') body;
         (ip, fp) = split_at (\<lambda>c. c = CHR ''.'') mant;
         e = (if has_prefix ex ''-'' then - digits_val (drop 1 ex)
              else if has_prefix ex ''+'' then digits_val (drop 1 ex) else digits_val ex)
             - int (length fp);
         d = digits_val (ip @ fp)
     in map_option (\<lambda>v. let n = (if neg then - v else v) in if in64 n then n else - (2 ^ 63))
          (if 0 \<le> e then float_trunc (d * 10 ^ nat e) 1 else float_trunc d (10 ^ nat (- e))))"

text \<open>\<open>strconv.ParseInt\<close> whose error is ignored: 0 for a syntax error, the nearest bound for a
  range error.\<close>

definition parse_int64_lax :: "string \<Rightarrow> int" where
  "parse_int64_lax s =
    (case parse_int64 s of
       Some n \<Rightarrow> n
     | None \<Rightarrow>
        (let (neg, ds) = (case s of [] \<Rightarrow> (False, [])
                      | c # r \<Rightarrow> if c = CHR ''-'' then (True, r)
                                  else if c = CHR ''+'' then (False, r) else (False, s))
         in if ds \<noteq> [] \<and> list_all is_digit ds then (if neg then - (2 ^ 63) else 2 ^ 63 - 1) else 0))"

definition parse_created :: "json option \<Rightarrow> int" where
  "parse_created raw = (case raw of
      None \<Rightarrow> 0
    | Some j \<Rightarrow>
      (case dec_int j 0 of
         Some n \<Rightarrow> n
       | None \<Rightarrow>
         (case j of
            JNum s \<Rightarrow> (case float_to_int64 s of Some n \<Rightarrow> n | None \<Rightarrow> 0)
          | JStr s \<Rightarrow> parse_int64_lax s
          | _ \<Rightarrow> 0)))"

definition usage_of_raw :: "RawUsage \<Rightarrow> Usage" where
  "usage_of_raw r =
    (let p = (if ru_prompt r = 0 then ru_input r else ru_prompt r);
         c = (if ru_completion r = 0 then ru_output r else ru_completion r);
         total = (if ru_total r = 0 then wrap64 (p + c) else ru_total r);
         c0 = ru_cached r;
         c1 = (if c0 = 0 then cached_tokens (ru_prompt_details r) else c0);
         cached = (if c1 = 0 then cached_tokens (ru_input_details r) else c1);
         w0 = ru_cache_write r;
         w1 = (if w0 = 0 then cache_write_tokens (ru_prompt_details r) else w0);
         cache_write = (if w1 = 0 then cache_write_tokens (ru_input_details r) else w1)
     in \<lparr>prompt_tokens = p, completion_tokens = c, total_tokens = total,
         prompt_details = \<lparr>cached_tokens = cached, cache_write_tokens = cache_write\<rparr>,
         completion_details = ru_completion_details r\<rparr>)"

text \<open>The loop over the choices.\<close>

fun choice_events :: "Chunk \<Rightarrow> int \<Rightarrow> ChunkChoice list \<Rightarrow> sse_error + Event list" where
  "choice_events ck created [] = Inr []"
| "choice_events ck created (ch # chs) =
     (case string_delta (cd_content (cc_delta ch)) of
        None \<Rightarrow> Inl InvalidContentDelta
      | Some content \<Rightarrow>
        (case string_delta (cd_reasoning (cc_delta ch)) of
           None \<Rightarrow> Inl InvalidReasoningDelta
         | Some reasoning \<Rightarrow>
           rbind (choice_events ck created chs) (\<lambda>evs. Inr
             (\<lparr>ev_kind = ''delta'', ev_id = ck_id ck, ev_created = created, ev_model = ck_model ck,
               ev_role = cd_role (cc_delta ch), ev_content = content, ev_reasoning = reasoning,
               ev_tools = cd_tools (cc_delta ch), ev_usage = None, ev_finish = cc_finish ch\<rparr> # evs))))"

definition chunk_events :: "Chunk \<Rightarrow> sse_error + Event list" where
  "chunk_events ck =
    (let created = parse_created (ck_created ck);
         usage = (case ck_usage ck of
                    Some u \<Rightarrow> Some u
                  | None \<Rightarrow> map_option usage_of_raw (ck_raw_usage ck))
     in rbind (choice_events ck created (ck_choices ck)) (\<lambda>deltas.
          let out = deltas @ (case usage of None \<Rightarrow> []
                | Some u \<Rightarrow> [(event_of_kind ''usage'')\<lparr>ev_id := ck_id ck, ev_created := created,
                              ev_model := ck_model ck, ev_usage := Some u\<rparr>])
          in if out = [] then Inl NeitherChoicesNorUsage else Inr out))"

definition unmarshal_chunk :: "string \<Rightarrow> sse_error + Chunk" where
  "unmarshal_chunk payload = (case json_parse payload of
      JEnd \<Rightarrow> Inl (MalformedInner True)
    | JBad \<Rightarrow> Inl (MalformedInner False)
    | JOk j \<Rightarrow> (case dec_chunk j zero_chunk of
                  None \<Rightarrow> Inl (MalformedInner False)
                | Some ck \<Rightarrow> Inr ck))"

text \<open>The second part of the result is the flag of an envelope that holds \<open>[DONE]\<close>.\<close>

definition parse_inner :: "string \<Rightarrow> sse_error + Event list \<times> bool" where
  "parse_inner payload =
    rbind (unmarshal_chunk payload) (\<lambda>ck. rbind (chunk_events ck) (\<lambda>evs. Inr (evs, False)))"

definition parse_envelope :: "json \<Rightarrow> json option \<Rightarrow> sse_error + Event list \<times> bool" where
  "parse_envelope raw_status raw_body =
    (case dec_int raw_status 0 of
       None \<Rightarrow> Inl InvalidStatusCode
     | Some status \<Rightarrow>
       (case unmarshal_opt dec_string [] raw_body of
          None \<Rightarrow> Inl InvalidBody
        | Some inner \<Rightarrow>
          if status \<noteq> 200 then Inl (EnvelopeError status (truncate inner 256))
          else if trim_space inner = ''[DONE]'' then Inr ([], True)
          else if inner = [] then Inr ([], False)
          else parse_inner inner))"

definition parse_payload :: "string \<Rightarrow> sse_error + Event list \<times> bool" where
  "parse_payload payload = (case json_parse payload of
      JEnd \<Rightarrow> Inl (MalformedSSE True)
    | JBad \<Rightarrow> Inl (MalformedSSE False)
    | JOk j \<Rightarrow>
      (case dec_rawmap j of
         None \<Rightarrow> Inl (MalformedSSE False)
       | Some root \<Rightarrow>
         (case root ''statusCodeValue'' of
            Some raw_status \<Rightarrow> parse_envelope raw_status (root ''body'')
          | None \<Rightarrow> parse_inner payload)))"

section \<open>Reassembly\<close>

definition max_sse_event_bytes :: int where
  "max_sse_event_bytes = 16777216"

record reader =
  rd_incomplete :: string
  rd_done :: bool

definition new_reader :: reader where
  "new_reader = \<lparr>rd_incomplete = [], rd_done = False\<rparr>"

type_synonym 's emitter = "Event \<Rightarrow> 's \<Rightarrow> sse_error option \<times> 's"

fun emit_all :: "'s emitter \<Rightarrow> Event list \<Rightarrow> 's \<Rightarrow> sse_error option \<times> 's" where
  "emit_all emit [] s = (None, s)"
| "emit_all emit (ev # evs) s =
     (case emit ev s of
        (Some e, s') \<Rightarrow> (Some e, s')
      | (None, s') \<Rightarrow> emit_all emit evs s')"

text \<open>The last part of \<open>consume\<close>: the payload has been put together.\<close>

definition deliver :: "'s emitter \<Rightarrow> string \<Rightarrow> reader \<times> 's \<Rightarrow> sse_error option \<times> reader \<times> 's" where
  "deliver emit payload st =
    (let (r, s) = st in
     case parse_payload payload of
       Inl e \<Rightarrow>
         if is_incomplete_json e
         then (None, r\<lparr>rd_incomplete := (if rd_incomplete r = [] then payload else rd_incomplete r)\<rparr>, s)
         else (Some e, r, s)
     | Inr (evs, is_done) \<Rightarrow>
         let r = r\<lparr>rd_incomplete := []\<rparr> in
         (case emit_all emit evs s of
            (Some e, s') \<Rightarrow> (Some e, r, s')
          | (None, s') \<Rightarrow>
              if is_done then (let (e, s'') = emit done_event s' in (e, r\<lparr>rd_done := True\<rparr>, s''))
              else (None, r, s')))"

definition consume :: "'s emitter \<Rightarrow> string \<Rightarrow> reader \<times> 's \<Rightarrow> sse_error option \<times> reader \<times> 's" where
  "consume emit payload st =
    (let (r, s) = st in
     if trim_space payload = [] then (None, r, s)
     else if trim_space payload = ''[DONE]'' then
       (if rd_incomplete r \<noteq> [] then (Some DoneWithIncomplete, r, s)
        else (let (e, s') = emit done_event s in (e, r\<lparr>rd_done := True\<rparr>, s')))
     else if rd_incomplete r \<noteq> [] then
       (if int (length (rd_incomplete r)) + int (length payload) > max_sse_event_bytes
        then (Some IncompleteTooLong, r, s)
        else (let r = r\<lparr>rd_incomplete := rd_incomplete r @ payload\<rparr>
              in deliver emit (rd_incomplete r) (r, s)))
     else if int (length payload) > max_sse_event_bytes then (Some EventTooLong, r, s)
     else deliver emit payload (r, s))"

definition is_control_line :: "string \<Rightarrow> bool" where
  "is_control_line line \<longleftrightarrow> has_prefix line '':'' \<or> has_prefix line ''event:'' \<or>
     has_prefix line ''id:'' \<or> has_prefix line ''retry:''"

section \<open>The read loop\<close>

text \<open>How the bytes of the stream end.\<close>

datatype stream_end = AtEOF | AtReadError string | AtIdle | AtCancel string

fun split_lines :: "string \<Rightarrow> string list \<times> string" where
  "split_lines [] = ([], [])"
| "split_lines (c # s) =
     (let (ls, rest) = split_lines s in
      if c = LF then ([c] # ls, rest)
      else (case ls of [] \<Rightarrow> ([], c # rest) | l # ls' \<Rightarrow> ((c # l) # ls', rest)))"

text \<open>What one line does: the part of the loop body between the read and the check of the
  read error.\<close>

definition on_line :: "'s emitter \<Rightarrow> string \<Rightarrow> reader \<times> 's \<Rightarrow> sse_error option \<times> reader \<times> 's" where
  "on_line emit raw st =
    (let line = trim_right_crlf raw in
     if has_prefix line ''data:''
     then consume emit (trim_prefix (trim_prefix line ''data:'') '' '') st
     else if rd_incomplete (fst st) \<noteq> [] \<and> line \<noteq> [] \<and> \<not> is_control_line line
     then consume emit line st
     else (None, st))"

definition at_end :: "stream_end \<Rightarrow> string \<Rightarrow> 's emitter \<Rightarrow> reader \<times> 's \<Rightarrow> sse_error option \<times> reader \<times> 's" where
  "at_end fin rest emit st = (case fin of
      AtIdle \<Rightarrow> (Some IdleTimeout, st)
    | AtCancel e \<Rightarrow> (Some (ContextError e), st)
    | AtEOF \<Rightarrow>
        (case on_line emit rest st of
           (Some e, st') \<Rightarrow> (Some e, st')
         | (None, st') \<Rightarrow>
             (if rd_done (fst st') \<and> has_prefix (trim_right_crlf rest) ''data:'' then None
              else if rd_incomplete (fst st') \<noteq> [] then Some EndedIncomplete
              else if rd_done (fst st') then None else Some EndedWithoutDone, st'))
    | AtReadError e \<Rightarrow>
        (case on_line emit rest st of
           (Some e', st') \<Rightarrow> (Some e', st')
         | (None, st') \<Rightarrow>
             (if rd_done (fst st') \<and> has_prefix (trim_right_crlf rest) ''data:'' then None
              else Some (ReadError e), st')))"

fun read_loop :: "'s emitter \<Rightarrow> stream_end \<Rightarrow> string \<Rightarrow> string list \<Rightarrow> reader \<times> 's \<Rightarrow>
    sse_error option \<times> reader \<times> 's" where
  "read_loop emit fin rest lines st =
     (if rd_done (fst st) then (None, st)
      else (case lines of
              [] \<Rightarrow> at_end fin rest emit st
            | l # ls \<Rightarrow>
                (case on_line emit l st of
                   (Some e, st') \<Rightarrow> (Some e, st')
                 | (None, st') \<Rightarrow> read_loop emit fin rest ls st')))"

declare read_loop.simps [simp del]

definition parse_sse :: "'s emitter \<Rightarrow> string \<Rightarrow> stream_end \<Rightarrow> 's \<Rightarrow> sse_error option \<times> 's" where
  "parse_sse emit body fin s =
    (let (lines, rest) = split_lines body;
         (e, r, s') = read_loop emit fin rest lines (new_reader, s)
     in (e, s'))"

section \<open>The callback as an interface\<close>

text \<open>What the reader asks of \<open>emit\<close>: an invariant of its owner's state that every call keeps,
  whether or not it returns an error.\<close>

locale event_sink =
  fixes emit :: "'s emitter"
    and inv :: "'s \<Rightarrow> bool"
  assumes emit_inv: "inv s \<Longrightarrow> inv (snd (emit ev s))"
begin

lemma emit_all_inv: "inv s \<Longrightarrow> inv (snd (emit_all emit evs s))"
proof (induction evs arbitrary: s)
  case Nil
  then show ?case by simp
next
  case (Cons ev evs)
  from emit_inv [OF Cons.prems, of ev] Cons.IH [of "snd (emit ev s)"] show ?case
    by (auto split: prod.splits option.splits)
qed

lemma deliver_inv: "inv s \<Longrightarrow> inv (snd (snd (deliver emit p (r, s))))"
  using emit_all_inv [of s] emit_inv
  by (auto simp: deliver_def Let_def split: sum.splits prod.splits option.splits) (metis snd_conv)+

lemma consume_inv: "inv s \<Longrightarrow> inv (snd (snd (consume emit p (r, s))))"
  using emit_inv [of s done_event]
  by (auto simp: consume_def Let_def intro!: deliver_inv split: prod.splits)

lemma on_line_inv: "inv s \<Longrightarrow> inv (snd (snd (on_line emit l (r, s))))"
  by (auto simp: on_line_def Let_def intro: consume_inv)

lemma at_end_inv: "inv s \<Longrightarrow> inv (snd (snd (at_end fin rest emit (r, s))))"
  using on_line_inv [of s rest r]
  by (auto simp: at_end_def split: stream_end.splits prod.splits option.splits)

lemma read_loop_inv: "inv s \<Longrightarrow> inv (snd (snd (read_loop emit fin rest ls (r, s))))"
proof (induction ls arbitrary: r s)
  case Nil
  then show ?case by (simp add: read_loop.simps at_end_inv)
next
  case (Cons l ls)
  obtain e r' s' where step: "on_line emit l (r, s) = (e, r', s')" using prod_cases3 by blast
  with on_line_inv [OF Cons.prems, of l r] have "inv s'" by simp
  with Cons step show ?case by (simp add: read_loop.simps split: option.splits)
qed

lemma parse_sse_inv: "inv s \<Longrightarrow> inv (snd (parse_sse emit body fin s))"
  using read_loop_inv [of s fin "snd (split_lines body)" "fst (split_lines body)" new_reader]
  by (simp add: parse_sse_def Let_def split_beta)

end

text \<open>A callback that never fails sees the events that a list would collect.\<close>

definition collect :: "Event list emitter" where
  "collect ev evs = (None, evs @ [ev])"

locale total_sink = event_sink emit inv
  for emit :: "'s emitter" and inv :: "'s \<Rightarrow> bool" +
  assumes emit_ok: "fst (emit ev s) = None"
begin

definition run :: "Event list \<Rightarrow> 's \<Rightarrow> 's" where
  "run evs s = fold (\<lambda>ev s. snd (emit ev s)) evs s"

lemma run_simps:
  "run [] s = s"
  "run (evs @ [ev]) s = snd (emit ev (run evs s))"
  by (simp_all add: run_def)

lemma emit_run: "emit ev (run xs s) = (None, run (xs @ [ev]) s)"
  using emit_ok [of ev "run xs s"] by (cases "emit ev (run xs s)") (simp add: run_simps)

lemma emit_all_run:
  "emit_all emit evs (run xs s) = (None, run (xs @ evs) s)"
  by (induction evs arbitrary: xs) (simp_all add: emit_run)

lemma emit_all_collect: "emit_all collect evs xs = (None, xs @ evs)"
  by (induction evs arbitrary: xs) (simp_all add: collect_def)

lemma deliver_run:
  "deliver emit p (r, run xs s) =
    (let (e, r', xs') = deliver collect p (r, xs) in (e, r', run xs' s))"
  by (auto simp: deliver_def Let_def emit_all_run emit_all_collect emit_run collect_def
      split: sum.splits)

lemma consume_run:
  "consume emit p (r, run xs s) =
    (let (e, r', xs') = consume collect p (r, xs) in (e, r', run xs' s))"
  by (simp add: consume_def Let_def deliver_run emit_run) (simp add: collect_def)

lemma on_line_run:
  "on_line emit l (r, run xs s) =
    (let (e, r', xs') = on_line collect l (r, xs) in (e, r', run xs' s))"
  by (simp add: on_line_def Let_def consume_run)

lemma at_end_run:
  "at_end fin rest emit (r, run xs s) =
    (let (e, r', xs') = at_end fin rest collect (r, xs) in (e, r', run xs' s))"
  by (simp add: at_end_def on_line_run split: stream_end.splits prod.splits option.splits)

lemma read_loop_run:
  "read_loop emit fin rest ls (r, run xs s) =
    (let (e, r', xs') = read_loop collect fin rest ls (r, xs) in (e, r', run xs' s))"
proof (induction ls arbitrary: r xs)
  case Nil
  then show ?case by (simp add: read_loop.simps at_end_run)
next
  case (Cons l ls)
  then show ?case
    by (simp add: read_loop.simps on_line_run split: prod.splits option.splits)
qed

lemma parse_sse_run:
  "parse_sse emit body fin s =
    (let (e, evs) = parse_sse collect body fin [] in (e, run evs s))"
  using read_loop_run [of fin "snd (split_lines body)" "fst (split_lines body)" new_reader "[]" s]
  by (simp add: parse_sse_def Let_def split_beta run_simps)

end

interpretation collecting: total_sink collect "\<lambda>_. True"
  by unfold_locales (simp_all add: collect_def)

section \<open>The \<open>[DONE]\<close> event\<close>

definition not_done :: "Event list \<Rightarrow> bool" where
  "not_done evs \<longleftrightarrow> list_all (\<lambda>ev. ev_kind ev \<noteq> ''done'') evs"

lemma not_done_simps [simp]:
  "not_done []" "not_done (ev # evs) \<longleftrightarrow> ev_kind ev \<noteq> ''done'' \<and> not_done evs"
  "not_done (evs @ fvs) \<longleftrightarrow> not_done evs \<and> not_done fvs"
  by (simp_all add: not_done_def)

lemma choice_events_not_done: "choice_events ck cr chs = Inr evs \<Longrightarrow> not_done evs"
  by (induction chs arbitrary: evs) (auto simp: rbind_Inr_iff split: option.splits)

lemma parse_payload_not_done: "parse_payload p = Inr (evs, d) \<Longrightarrow> not_done evs"
  by (auto simp: parse_payload_def parse_envelope_def parse_inner_def chunk_events_def rbind_Inr_iff
      Let_def dest!: choice_events_not_done split: json_verdict.splits option.splits if_splits)

text \<open>What has been emitted when the reader is in state \<open>r\<close>.\<close>

definition emitted_inv :: "reader \<Rightarrow> Event list \<Rightarrow> bool" where
  "emitted_inv r evs \<longleftrightarrow>
    (if rd_done r then \<exists>xs. evs = xs @ [done_event] \<and> not_done xs else not_done evs)"

lemma done_event_kind [simp]: "ev_kind done_event = ''done''"
  by (simp add: done_event_def)

lemma deliver_emitted:
  assumes "deliver collect p (r, evs) = (e, r', evs')" and "emitted_inv r evs" and "\<not> rd_done r"
  shows "emitted_inv r' evs'"
  using assms parse_payload_not_done [of p]
  by (auto simp: deliver_def Let_def emitted_inv_def collecting.emit_all_collect collect_def
      split: sum.splits if_splits prod.splits)

lemma consume_emitted:
  assumes "consume collect p (r, evs) = (e, r', evs')" and "emitted_inv r evs" and "\<not> rd_done r"
  shows "emitted_inv r' evs'"
proof -
  have upd: "emitted_inv (r\<lparr>rd_incomplete := x\<rparr>) evs \<and> \<not> rd_done (r\<lparr>rd_incomplete := x\<rparr>)" for x
    using assms(2,3) by (simp add: emitted_inv_def)
  show ?thesis
    using assms deliver_emitted [of p r evs e r' evs']
      deliver_emitted [OF _ conjunct1 [OF upd] conjunct2 [OF upd]]
    by (auto simp: consume_def Let_def emitted_inv_def collect_def split: if_splits)
qed

lemma on_line_emitted:
  assumes "on_line collect l (r, evs) = (e, r', evs')" and "emitted_inv r evs" and "\<not> rd_done r"
  shows "emitted_inv r' evs'"
  using assms consume_emitted by (auto simp: on_line_def Let_def split: if_splits)

lemma at_end_emitted:
  assumes "at_end fin rest collect (r, evs) = (e, r', evs')" and "emitted_inv r evs"
    and "\<not> rd_done r"
  shows "emitted_inv r' evs' \<and> (e = None \<longrightarrow> rd_done r')"
  using assms on_line_emitted [of rest r evs]
  by (auto simp: at_end_def split: stream_end.splits prod.splits option.splits if_splits)

lemma read_loop_emitted:
  "read_loop collect fin rest ls (r, evs) = (e, r', evs') \<Longrightarrow> emitted_inv r evs \<Longrightarrow>
   emitted_inv r' evs' \<and> (e = None \<longrightarrow> rd_done r')"
proof (induction ls arbitrary: r evs)
  case Nil
  then show ?case
    by (auto simp: read_loop.simps split: if_splits dest: at_end_emitted)
next
  case (Cons l ls)
  show ?case
  proof (cases "rd_done r")
    case True
    with Cons.prems show ?thesis by (auto simp: read_loop.simps)
  next
    case False
    obtain e1 r1 evs1 where step: "on_line collect l (r, evs) = (e1, r1, evs1)"
      using prod_cases3 by blast
    with on_line_emitted Cons.prems(2) False have "emitted_inv r1 evs1" by blast
    with Cons.IH [of r1 evs1] Cons.prems(1) False step show ?thesis
      by (auto simp: read_loop.simps split: option.splits)
  qed
qed

section \<open>Frames and payloads\<close>

text \<open>A sequence of payloads, up to the first error.\<close>

fun consume_all :: "'s emitter \<Rightarrow> string list \<Rightarrow> reader \<times> 's \<Rightarrow> sse_error option \<times> reader \<times> 's" where
  "consume_all emit [] st = (None, st)"
| "consume_all emit (p # ps) st =
     (case consume emit p st of
        (Some e, st') \<Rightarrow> (Some e, st')
      | (None, st') \<Rightarrow> consume_all emit ps st')"

lemma consume_all_append:
  "consume_all emit (ps @ qs) st =
    (case consume_all emit ps st of
       (Some e, st') \<Rightarrow> (Some e, st')
     | (None, st') \<Rightarrow> consume_all emit qs st')"
  by (induction ps arbitrary: st) (auto split: prod.splits option.splits)

lemma consume_all_single [simp]: "consume_all emit [p] st = consume emit p st"
  by (auto split: prod.splits option.splits)

definition plain_payload :: "string \<Rightarrow> bool" where
  "plain_payload p \<longleftrightarrow> trim_space p \<noteq> [] \<and> trim_space p \<noteq> ''[DONE]''"

lemma trim_space_Nil [simp]: "trim_space [] = []"
  by (simp add: trim_space_def trim_left_space_def trim_right_space_def strip_seqs.simps
      space_seqs_def)

lemma plain_payload_nonempty: "plain_payload p \<Longrightarrow> p \<noteq> []"
  by (auto simp: plain_payload_def)

lemma parse_payload_JEnd: "json_parse p = JEnd \<Longrightarrow> parse_payload p = Inl (MalformedSSE True)"
  by (simp add: parse_payload_def)

text \<open>Reassembly keeps what it has, and after the first part it only appends.\<close>

lemma consume_first_part:
  assumes "json_parse p = JEnd" and "plain_payload p" and "int (length p) \<le> max_sse_event_bytes"
    and "rd_incomplete r = []"
  shows "consume emit p (r, s) = (None, r\<lparr>rd_incomplete := p\<rparr>, s)"
  using assms by (simp add: consume_def deliver_def parse_payload_JEnd plain_payload_def)

lemma consume_next_part:
  assumes "json_parse (rd_incomplete r @ p) = JEnd" and "plain_payload p"
    and "int (length (rd_incomplete r @ p)) \<le> max_sse_event_bytes" and "rd_incomplete r \<noteq> []"
  shows "consume emit p (r, s) = (None, r\<lparr>rd_incomplete := rd_incomplete r @ p\<rparr>, s)"
  using assms by (simp add: consume_def deliver_def parse_payload_JEnd plain_payload_def)

lemma consume_parts:
  assumes "rd_incomplete r \<noteq> []" and "\<forall>p \<in> set ps. plain_payload p"
    and "int (length (rd_incomplete r @ concat ps)) \<le> max_sse_event_bytes"
    and "\<forall>k < length ps. json_parse (rd_incomplete r @ concat (take (Suc k) ps)) = JEnd"
  shows "consume_all emit ps (r, s) =
    (None, r\<lparr>rd_incomplete := rd_incomplete r @ concat ps\<rparr>, s)"
  using assms
proof (induction ps arbitrary: r)
  case Nil
  then show ?case by simp
next
  case (Cons p ps)
  let ?r = "r\<lparr>rd_incomplete := rd_incomplete r @ p\<rparr>"
  from Cons.prems(4) have "json_parse (rd_incomplete r @ p) = JEnd" by force
  with Cons.prems have step: "consume emit p (r, s) = (None, ?r, s)"
    by (intro consume_next_part) auto
  have "\<forall>k < length ps. json_parse (rd_incomplete ?r @ concat (take (Suc k) ps)) = JEnd"
    using Cons.prems(4) by force
  with Cons.prems Cons.IH [of ?r] step show ?case by simp
qed

lemma deliver_irrelevant:
  assumes "parse_payload p = Inr x"
  shows "deliver emit p (r\<lparr>rd_incomplete := q\<rparr>, s) = deliver emit p (r, s)"
  using assms by (cases x) (simp add: deliver_def Let_def split: option.splits prod.splits)

text \<open>
  A frame of white space only is dropped, also in the middle of a payload that is
  being put together.  Blanks that a gateway sends as a frame of their own, in the middle
  of a JSON string, never reach the model's text.
\<close>

lemma sse_blank_frame_dropped:
  assumes "trim_space w = []"
  shows "consume_all emit (ps @ w # qs) st = consume_all emit (ps @ qs) st"
proof -
  have "consume emit w st' = (None, st')" for st'
    using assms by (cases st') (simp add: consume_def)
  then show ?thesis by (simp add: consume_all_append split: prod.splits option.splits)
qed

lemma sse_blank_frame_dropped_witness:
  "consume_all collect ([DQ # ''a''] @ '' '' # [[CHR ''b'', DQ]]) (new_reader, []) =
   consume_all collect ([DQ # ''a''] @ [[CHR ''b'', DQ]]) (new_reader, [])"
  by (rule sse_blank_frame_dropped) code_simp

lemma consume_without_blank:
  "consume_all emit (filter (\<lambda>p. trim_space p \<noteq> []) ps) st = consume_all emit ps st"
proof (induction ps arbitrary: st)
  case (Cons p ps)
  then show ?case
  proof (cases "trim_space p = []")
    case True
    with sse_blank_frame_dropped [OF True, of emit "[]" ps st] Cons show ?thesis by simp
  next
    case False
    with Cons show ?thesis by (auto split: prod.splits option.splits)
  qed
qed simp

text \<open>The reader that holds the first part of a payload and gets the last one does what it does with
  the whole payload, apart from what it holds after an error.\<close>

definition same_effect :: "sse_error option \<times> reader \<times> 's \<Rightarrow> sse_error option \<times> reader \<times> 's \<Rightarrow> bool" where
  "same_effect x y \<longleftrightarrow> fst x = fst y \<and> snd (snd x) = snd (snd y) \<and> (fst x = None \<longrightarrow> fst (snd x) = fst (snd y))"

lemma deliver_held:
  assumes "rd_incomplete r = []" and "q \<noteq> []"
  shows "same_effect (deliver emit q (r\<lparr>rd_incomplete := q\<rparr>, s)) (deliver emit q (r, s))"
proof (cases "parse_payload q")
  case (Inl e)
  with assms show ?thesis by (cases "is_incomplete_json e") (simp_all add: deliver_def same_effect_def)
next
  case (Inr x)
  show ?thesis unfolding deliver_irrelevant [OF Inr] by (simp add: same_effect_def)
qed

lemma consume_final_part:
  assumes "plain_payload p" and "int (length (rd_incomplete r @ p)) \<le> max_sse_event_bytes" and "rd_incomplete r \<noteq> []"
  shows "consume emit p (r, s) = deliver emit (rd_incomplete r @ p) (r\<lparr>rd_incomplete := rd_incomplete r @ p\<rparr>, s)"
  using assms by (simp add: consume_def plain_payload_def)

section \<open>Properties of the reader\<close>

text \<open>
  C14: JSON cut over several frames is put together again.  Let the frames that are not blank,
  none of them \<open>[DONE]\<close>, put together to a payload that is not \<open>[DONE]\<close> either, and let the scanner ask for more at the end
  of each frame but the last.  Then feeding them one frame at a time has the effect of the whole
  payload in one frame: the same events reach the callback, the same error is returned, also
  where the payload is malformed as a whole, and without an error the reader is left in the same
  state.  A frame of white space only adds nothing to the payload.
\<close>

theorem sse_reassembly:
  assumes "filter (\<lambda>p. trim_space p \<noteq> []) frames = parts @ [lastp]" and "parts \<noteq> []"
    and "q = concat parts @ lastp"
    and "\<forall>p \<in> set frames. trim_space p \<noteq> ''[DONE]''" and "trim_space q \<noteq> ''[DONE]''" and "trim_space q \<noteq> []"
    and "\<forall>k < length parts. json_parse (concat (take (Suc k) parts)) = JEnd"
    and "int (length q) \<le> max_sse_event_bytes" and "rd_incomplete r = []"
  shows "same_effect (consume_all emit frames (r, s)) (consume emit q (r, s))"
proof -
  have "set (parts @ [lastp]) \<subseteq> set frames"
    unfolding assms(1) [symmetric] by auto
  moreover have "\<forall>p \<in> set (parts @ [lastp]). trim_space p \<noteq> []"
    unfolding assms(1) [symmetric] by simp
  ultimately have plain: "plain_payload p" if "p \<in> set (parts @ [lastp])" for p
    using that assms(4) by (auto simp: plain_payload_def)
  obtain p ps where parts: "parts = p # ps" using assms(2) by (cases parts) auto
  let ?r = "r\<lparr>rd_incomplete := p\<rparr>"
  have len: "int (length p) \<le> max_sse_event_bytes" "int (length (p @ concat ps)) \<le> max_sse_event_bytes"
    using assms(3,8) parts by simp_all
  from assms(7) parts have "json_parse p = JEnd" by force
  then have one: "consume emit p (r, s) = (None, ?r, s)"
    using assms(9) plain parts len(1) by (intro consume_first_part) auto
  have "\<forall>k < length ps. json_parse (rd_incomplete ?r @ concat (take (Suc k) ps)) = JEnd"
    using assms(7) parts by force
  then have many: "consume_all emit ps (?r, s) = (None, r\<lparr>rd_incomplete := concat parts\<rparr>, s)"
    using len(2) parts plain plain_payload_nonempty by (subst consume_parts) auto
  have ne: "concat parts \<noteq> []" using plain [of p] parts plain_payload_nonempty by auto
  have "consume emit lastp (r\<lparr>rd_incomplete := concat parts\<rparr>, s) = deliver emit q (r\<lparr>rd_incomplete := q\<rparr>, s)"
    using ne assms(3,8) plain [of lastp] by (subst consume_final_part) simp_all
  then have "consume_all emit frames (r, s) = deliver emit q (r\<lparr>rd_incomplete := q\<rparr>, s)"
    using one many consume_without_blank [of emit frames "(r, s)"]
    by (simp add: assms(1) parts consume_all_append consume_all.simps(2) [of emit p "ps @ [lastp]"]
        del: consume_all.simps(2))
  moreover have "consume emit q (r, s) = deliver emit q (r, s)"
    using assms(5,6,8,9) by (simp add: consume_def)
  ultimately show ?thesis using deliver_held [OF assms(9), of q emit s] ne assms(3) by simp
qed

theorem sse_reassembly_witness:
  "same_effect (consume_all collect [''{'', '' '', DQ # ''usage'' @ [DQ], '':'', ''{} }''] (new_reader, []))
     (consume collect (''{'' @ DQ # ''usage'' @ DQ # '':{} }'') (new_reader, []))"
proof -
  have cuts: "json_parse ''{'' = JEnd" "json_parse (''{'' @ DQ # ''usage'' @ [DQ]) = JEnd"
    "json_parse (''{'' @ DQ # ''usage'' @ DQ # '':'') = JEnd"
    by code_simp+
  have frames: "filter (\<lambda>p. trim_space p \<noteq> []) [''{'', '' '', DQ # ''usage'' @ [DQ], '':'', ''{} }''] =
      [''{'', DQ # ''usage'' @ [DQ], '':''] @ [''{} }'']" by code_simp
  have plain: "list_all (\<lambda>p. trim_space p \<noteq> ''[DONE]'') [''{'', '' '', DQ # ''usage'' @ [DQ], '':'', ''{} }'']"
    "trim_space (''{'' @ DQ # ''usage'' @ DQ # '':{} }'') \<noteq> ''[DONE]''"
    "trim_space (''{'' @ DQ # ''usage'' @ DQ # '':{} }'') \<noteq> []"
    by code_simp+
  show ?thesis
    by (rule sse_reassembly [OF frames])
      (use cuts plain in \<open>simp_all add: less_Suc_eq all_conj_distrib new_reader_def
        max_sse_event_bytes_def numeral_eq_Suc\<close>)
qed

text \<open>
  C13: the reader reports a clean end exactly for a stream that was completed.  Whatever
  arrives, the events are some deltas and usage records followed by at most one
  \<open>done\<close>, which comes last; without an error there is a \<open>done\<close>, so a truncated stream
  never passes for a finished one.
\<close>

theorem sse_done_last:
  "\<exists>xs. not_done xs \<and>
     (snd (parse_sse collect body fin []) = xs @ [done_event] \<or>
      fst (parse_sse collect body fin []) \<noteq> None \<and> snd (parse_sse collect body fin []) = xs)"
proof -
  obtain ls rest where split: "split_lines body = (ls, rest)" by fastforce
  obtain e r evs where loop: "read_loop collect fin rest ls (new_reader, []) = (e, r, evs)"
    using prod_cases3 by blast
  have "emitted_inv new_reader []" by (simp add: emitted_inv_def new_reader_def)
  from read_loop_emitted [OF loop this] have "emitted_inv r evs" "e = None \<longrightarrow> rd_done r"
    by simp_all
  moreover have "parse_sse collect body fin [] = (e, evs)"
    by (simp add: parse_sse_def split loop)
  ultimately show ?thesis by (auto simp: emitted_inv_def split: if_splits)
qed

text \<open>The states in which the text stops inside a literal, an escape or a number that needs
  another byte.\<close>

definition mid_token :: "pstate \<Rightarrow> bool" where
  "mid_token q = (case q of
      InLit rest v \<Rightarrow> rest = [] \<or> hd rest \<noteq> CHR '' ''
    | InEsc key raw \<Rightarrow> True
    | InU key raw n \<Rightarrow> True
    | InNum n raw \<Rightarrow> \<not> num_final n
    | _ \<Rightarrow> False)"

lemma jeof_mid_token: "mid_token q \<Longrightarrow> jeof (st, q) = JBad"
proof -
  have "hex_val (CHR '' '') = None" by code_simp
  moreover have "num_next n (CHR '' '') = None" for n
    by (simp add: num_next_def is_digit_iff split: num_state.splits)
  ultimately show "mid_token q \<Longrightarrow> jeof (st, q) = JBad"
    by (auto simp: mid_token_def jeof_def split: pstate.splits list.splits)
qed

text \<open>
  C39: reassembly fails for a frame that is cut inside a token.  Where the text so far, the part
  that the reader holds and the new frame together, is well formed up to its end and stops inside
  \<open>true\<close>, \<open>false\<close> or \<open>null\<close>, inside an escape of a string, or in a number at a place where a digit
  must follow (after its sign, its point, its exponent mark or the exponent's sign), the reader stops with a
  malformed-JSON error instead of waiting for the rest, and nothing is emitted: \<open>encoding/json\<close>
  does not call such a text incomplete.
\<close>

theorem sse_cut_inside_token_fails:
  assumes "jrun ([], BeginVal False) (rd_incomplete r @ p) = Some (st, q)" and "mid_token q"
    and "plain_payload p" and "int (length (rd_incomplete r @ p)) \<le> max_sse_event_bytes"
  shows "\<exists>r'. consume emit p (r, s) = (Some (MalformedSSE False), r', s)"
proof -
  from assms(1) jeof_mid_token [OF assms(2)] have "json_parse (rd_incomplete r @ p) = JBad"
    by (simp add: json_parse_def)
  then have "parse_payload (rd_incomplete r @ p) = Inl (MalformedSSE False)" by (simp add: parse_payload_def)
  with assms(3,4) show ?thesis
    by (cases "rd_incomplete r = []") (simp_all add: consume_def deliver_def plain_payload_def)
qed

theorem sse_cut_inside_token_fails_witness:
  "(\<exists>r'. consume collect ''nul'' (new_reader\<lparr>rd_incomplete := ''[1,''\<rparr>, []) = (Some (MalformedSSE False), r', []))
   \<and> consume collect ''[1,'' (new_reader, []) = (None, new_reader\<lparr>rd_incomplete := ''[1,''\<rparr>, [])
   \<and> json_parse (''[1,'' @ ''nul'' @ ''l]'') = JOk (JArr [JNum ''1'', JNull])"
proof -
  have run: "jrun ([], BeginVal False) ''[1,nul'' = Some ([FArr [JNum ''1'']], InLit ''l'' JNull)"
    by code_simp
  have whole: "json_parse ''[1,null]'' = JOk (JArr [JNum ''1'', JNull])" by code_simp
  have first: "json_parse ''[1,'' = JEnd" by code_simp
  have plain: "plain_payload ''nul''" "plain_payload ''[1,''" by code_simp+
  have "consume collect ''[1,'' (new_reader, []) = (None, new_reader\<lparr>rd_incomplete := ''[1,''\<rparr>, [])"
    using first plain by (intro consume_first_part) (simp_all add: new_reader_def max_sse_event_bytes_def)
  with sse_cut_inside_token_fails [where r = "new_reader\<lparr>rd_incomplete := ''[1,''\<rparr>" and p = "''nul''" and s = "[]"
      and emit = collect] run whole plain show ?thesis
    by (simp add: mid_token_def max_sse_event_bytes_def)
qed

text \<open>What is held back stays within the limit.\<close>

definition reader_bounded :: "reader \<Rightarrow> bool" where
  "reader_bounded r \<longleftrightarrow> int (length (rd_incomplete r)) \<le> max_sse_event_bytes"

lemma deliver_bounded:
  assumes "reader_bounded r" and "int (length p) \<le> max_sse_event_bytes"
  shows "reader_bounded (fst (snd (deliver emit p (r, s))))"
  using assms
  by (auto simp: deliver_def Let_def reader_bounded_def max_sse_event_bytes_def
      split: sum.splits prod.splits option.splits)

lemma consume_bounded:
  assumes "reader_bounded r"
  shows "reader_bounded (fst (snd (consume emit p (r, s))))"
  using assms
  by (auto simp: consume_def Let_def reader_bounded_def [of "r\<lparr>rd_incomplete := x\<rparr>" for x]
      intro!: deliver_bounded split: prod.splits) (auto simp: reader_bounded_def)

lemma on_line_bounded:
  "reader_bounded r \<Longrightarrow> reader_bounded (fst (snd (on_line emit l (r, s))))"
  by (simp add: on_line_def Let_def consume_bounded)

lemma at_end_bounded:
  "reader_bounded r \<Longrightarrow> reader_bounded (fst (snd (at_end fin rest emit (r, s))))"
  using on_line_bounded [of r emit rest s]
  by (auto simp: at_end_def split: stream_end.splits prod.splits option.splits)

text \<open>
  Whatever the upstream sends, the reader never holds back more than 16 MiB of an
  unfinished payload.
\<close>

lemma sse_memory_bound:
  "int (length (rd_incomplete (fst (snd (read_loop emit fin rest ls (new_reader, s))))))
     \<le> 16 * 2 ^ 20"
proof -
  have "reader_bounded r \<Longrightarrow> reader_bounded (fst (snd (read_loop emit fin rest ls (r, s))))" for r
  proof (induction ls arbitrary: r s)
    case Nil
    then show ?case by (simp add: read_loop.simps at_end_bounded)
  next
    case (Cons l ls)
    obtain e r' s' where step: "on_line emit l (r, s) = (e, r', s')" using prod_cases3 by blast
    with on_line_bounded [OF Cons.prems, of emit l s] have "reader_bounded r'" by simp
    with Cons step show ?case by (simp add: read_loop.simps split: option.splits)
  qed
  from this [of new_reader] show ?thesis
    by (simp add: reader_bounded_def new_reader_def max_sse_event_bytes_def)
qed

end
