(* ===== verification/GoRegexp.thy ===== *)
theory GoRegexp
  imports GoBase
begin

text \<open>
  What the sources use of \<open>regexp\<close>: concatenation, alternation, greedy \<open>?\<close>, \<open>*\<close> and \<open>+\<close>,
  character classes, \<open>\b\<close> and one capturing group.  \<open>rx_match\<close> lists all ways an expression
  matches at a position, in the order a backtracking matcher tries them, so that the first
  one is the leftmost-first match of Go.  The classes of the sources that hold non-ASCII
  characters hold all of them, so matching by bytes and by characters is the same; the two
  characters outside ASCII that fold to letters under \<open>(?i)\<close> are spelled out.
\<close>

datatype rx =
    Cls "char \<Rightarrow> bool"
  | Sq rx rx
  | Alt rx rx
  | Opt rx
  | Star rx
  | WordB
  | Eps
  | Cap rx

text \<open>The text before the position, reversed; the text after it; the captured group.\<close>

type_synonym mst = "string \<times> string \<times> string option"

definition word_char :: "char \<Rightarrow> bool" where
  "word_char c \<longleftrightarrow> is_digit c \<or> (CHR ''a'' \<le> c \<and> c \<le> CHR ''z'') \<or> (CHR ''A'' \<le> c \<and> c \<le> CHR ''Z'')
     \<or> c = CHR ''_''"

definition at_word :: "string \<Rightarrow> bool" where
  "at_word s = (case s of [] \<Rightarrow> False | c # _ \<Rightarrow> word_char c)"

function rx_match :: "rx \<Rightarrow> mst \<Rightarrow> mst list" where
  "rx_match (Cls p) m =
     (case m of (pre, s, cap) \<Rightarrow>
        (case s of [] \<Rightarrow> [] | c # r \<Rightarrow> if p c then [(c # pre, r, cap)] else []))"
| "rx_match (Sq a b) m = concat (map (rx_match b) (rx_match a m))"
| "rx_match (Alt a b) m = rx_match a m @ rx_match b m"
| "rx_match (Opt a) m = rx_match a m @ [m]"
| "rx_match (Star a) m =
     concat (map (\<lambda>m'. if length (fst (snd m')) < length (fst (snd m))
                       then rx_match (Star a) m' else []) (rx_match a m)) @ [m]"
| "rx_match WordB m = (if at_word (fst m) \<noteq> at_word (fst (snd m)) then [m] else [])"
| "rx_match Eps m = [m]"
| "rx_match (Cap a) m =
     map (\<lambda>(pre, s, cap). (pre, s, Some (take (length (fst (snd m)) - length s) (fst (snd m)))))
       (rx_match a m)"
  by pat_completeness auto
termination
  by (relation "measures [\<lambda>(r, m). size r, \<lambda>(r, m). length (fst (snd m))]") auto

lemmas rx_match_Star = rx_match.simps(5)
declare rx_match.simps(5) [simp del]

text \<open>Literals, also without regard to case, and the usual abbreviations.\<close>

fun lit :: "string \<Rightarrow> rx" where
  "lit [] = Eps"
| "lit (c # s) = Sq (Cls (\<lambda>x. x = c)) (lit s)"

definition fold_case :: "char \<Rightarrow> char" where
  "fold_case c = (if CHR ''A'' \<le> c \<and> c \<le> CHR ''Z'' then char_of (of_char c + (32::nat)) else c)"

definition ci_char :: "char \<Rightarrow> rx" where
  "ci_char c =
    (let base = Cls (\<lambda>x. fold_case x = c)
     in if c = CHR ''s'' then Alt base (lit [CHR 0xC5, CHR 0xBF])
        else if c = CHR ''k'' then Alt base (lit [CHR 0xE2, CHR 0x84, CHR 0xAA]) else base)"

fun ci_lit :: "string \<Rightarrow> rx" where
  "ci_lit [] = Eps"
| "ci_lit (c # s) = Sq (ci_char c) (ci_lit s)"

definition plus :: "rx \<Rightarrow> rx" where
  "plus r = Sq r (Star r)"

fun alts :: "rx list \<Rightarrow> rx" where
  "alts [] = Cls (\<lambda>_. False)"
| "alts [r] = r"
| "alts (r # rs) = Alt r (alts rs)"

fun seqs :: "rx list \<Rightarrow> rx" where
  "seqs [] = Eps"
| "seqs (r # rs) = Sq r (seqs rs)"

definition rx_space :: "char \<Rightarrow> bool" where
  "rx_space c \<longleftrightarrow> c = TAB \<or> c = LF \<or> c = CHR 0x0C \<or> c = CR \<or> c = CHR '' ''"

abbreviation spaces :: rx where "spaces \<equiv> Star (Cls rx_space)"

section \<open>Searching and replacing\<close>

text \<open>The leftmost match: the text skipped, reversed, and the match.\<close>

fun rx_find :: "rx \<Rightarrow> string \<Rightarrow> string \<Rightarrow> (string \<times> mst) option" where
  "rx_find r pre s =
     (case rx_match r (pre, s, None) of
        m # _ \<Rightarrow> Some (pre, m)
      | [] \<Rightarrow> (case s of [] \<Rightarrow> None | c # s' \<Rightarrow> rx_find r (c # pre) s'))"

declare rx_find.simps [simp del]

definition rx_matches :: "rx \<Rightarrow> string \<Rightarrow> bool" where
  "rx_matches r s \<longleftrightarrow> rx_find r [] s \<noteq> None"

text \<open>\<open>FindStringSubmatch\<close>: the text of the capturing group.\<close>

definition rx_submatch :: "rx \<Rightarrow> string \<Rightarrow> string option" where
  "rx_submatch r s = (case rx_find r [] s of
      None \<Rightarrow> None
    | Some (_, _, _, cap) \<Rightarrow> cap)"

text \<open>\<open>ReplaceAllString\<close> with an expression that matches no empty text: the replacement
  may use the group.  Both texts, before and after, are kept for \<open>\b\<close>.\<close>

lemma rx_match_split:
  "(pre', s', cap') \<in> set (rx_match r (pre, s, cap)) \<Longrightarrow> \<exists>u. s = u @ s' \<and> pre' = rev u @ pre"
proof (induction r "(pre, s, cap)" arbitrary: pre s cap pre' s' cap' rule: rx_match.induct)
  case (2 a b pre s cap)
  then obtain pre1 s1 cap1 where one: "(pre1, s1, cap1) \<in> set (rx_match a (pre, s, cap))"
    and two: "(pre', s', cap') \<in> set (rx_match b (pre1, s1, cap1))" by auto
  from "2.hyps"(1) [OF one] "2.hyps"(2) [OF one two] show ?case by auto
next
  case (5 a pre s cap)
  show ?case
  proof (cases "(pre', s', cap') = (pre, s, cap)")
    case True
    then show ?thesis by simp
  next
    case False
    with "5.prems" obtain pre1 s1 cap1 where one: "(pre1, s1, cap1) \<in> set (rx_match a (pre, s, cap))"
      and less: "length s1 < length s"
      and two: "(pre', s', cap') \<in> set (rx_match (Star a) (pre1, s1, cap1))"
      by (auto simp: rx_match_Star [of a "(pre, s, cap)"] split: if_splits)
    from "5.hyps"(1) [OF one] "5.hyps"(2) [OF one _ two] less show ?thesis by auto
  qed
next
  case (1 p pre s cap)
  then show ?case by (auto split: list.splits if_splits)
next
  case (3 a b pre s cap)
  from "3.prems" have "(pre', s', cap') \<in> set (rx_match a (pre, s, cap)) \<or>
    (pre', s', cap') \<in> set (rx_match b (pre, s, cap))" by simp
  then show ?case using "3.hyps"(1) [of pre' s' cap'] "3.hyps"(2) [of pre' s' cap'] by blast
next
  case (4 a pre s cap)
  from "4.prems" have "(pre', s', cap') \<in> set (rx_match a (pre, s, cap)) \<or> (pre', s') = (pre, s)"
    by auto
  then show ?case using "4.hyps" [of pre' s' cap'] by auto
next
  case (6 pre s cap)
  then show ?case by (simp split: if_splits)
next
  case (7 pre s cap)
  then show ?case by simp
next
  case (8 a pre s cap)
  then obtain cap1 where "(pre', s', cap1) \<in> set (rx_match a (pre, s, cap))" by auto
  then show ?case by (rule "8.hyps")
qed

lemma rx_find_split:
  "rx_find r pre s = Some (pre1, pre', s', cap') \<Longrightarrow>
   \<exists>u v. s = u @ v @ s' \<and> pre1 = rev u @ pre \<and> pre' = rev v @ rev u @ pre"
proof (induction r pre s rule: rx_find.induct)
  case (1 r pre s)
  show ?case
  proof (cases "rx_match r (pre, s, None)")
    case Nil
    with "1.prems" obtain c t where s: "s = c # t" and rec: "rx_find r (c # pre) t = Some (pre1, pre', s', cap')"
      by (auto simp: rx_find.simps [of r pre s] split: list.splits)
    from "1.IH" [OF Nil s rec] obtain u v where "t = u @ v @ s'" "pre1 = rev u @ c # pre"
      "pre' = rev v @ rev u @ c # pre" by auto
    with s show ?thesis by (intro exI [of _ "c # u"] exI [of _ v]) simp
  next
    case (Cons m ms)
    with "1.prems" have m: "m = (pre', s', cap')" "pre1 = pre"
      by (auto simp: rx_find.simps [of r pre s])
    with Cons have "(pre', s', cap') \<in> set (rx_match r (pre, s, None))" by simp
    from rx_match_split [OF this] obtain v where "s = v @ s'" "pre' = rev v @ pre" by blast
    with m show ?thesis by (intro exI [of _ "[]"] exI [of _ v]) simp
  qed
qed

function rx_replace :: "rx \<Rightarrow> (string option \<Rightarrow> string) \<Rightarrow> string \<Rightarrow> string \<Rightarrow> string" where
  "rx_replace r f pre s = (case rx_find r pre s of
      None \<Rightarrow> s
    | Some (pre1, pre', s', cap) \<Rightarrow>
        if length s' < length s
        then take (length pre1 - length pre) s @ f cap @ rx_replace r f pre' s'
        else s)"
  by pat_completeness auto
termination
  by (relation "measure (\<lambda>(r, f, pre, s). length s)") auto

declare rx_replace.simps [simp del]

definition replace_all :: "rx \<Rightarrow> (string option \<Rightarrow> string) \<Rightarrow> string \<Rightarrow> string" where
  "replace_all r f s = rx_replace r f [] s"

section \<open>Lemmas\<close>

lemma rx_find_Nil_match:
  "rx_match r (pre, c # s, None) = [] \<Longrightarrow> rx_find r pre (c # s) = rx_find r (c # pre) s"
  by (simp add: rx_find.simps [of r pre "c # s"])

lemma rx_matches_iff:
  "rx_find r pre s \<noteq> None \<longleftrightarrow> (\<exists>u v. s = u @ v \<and> rx_match r (rev u @ pre, v, None) \<noteq> [])"
proof (induction r pre s rule: rx_find.induct)
  case (1 r pre s)
  show ?case
  proof (cases "rx_match r (pre, s, None)")
    case (Cons m ms)
    then have "rx_find r pre s \<noteq> None" by (simp add: rx_find.simps [of r pre s])
    moreover have "\<exists>u v. s = u @ v \<and> rx_match r (rev u @ pre, v, None) \<noteq> []"
      using Cons by (intro exI [of _ "[]"] exI [of _ s]) simp
    ultimately show ?thesis by blast
  next
    case Nil
    show ?thesis
    proof (cases s)
      case Nil
      with \<open>rx_match r (pre, s, None) = []\<close> show ?thesis
        by (simp add: rx_find.simps [of r pre "[]"])
    next
      case (Cons c t)
      have "(\<exists>u v. s = u @ v \<and> rx_match r (rev u @ pre, v, None) \<noteq> []) \<longleftrightarrow>
          (\<exists>u v. t = u @ v \<and> rx_match r (rev u @ c # pre, v, None) \<noteq> [])" (is "?A \<longleftrightarrow> ?B")
      proof
        assume ?A
        then obtain u v where uv: "s = u @ v" "rx_match r (rev u @ pre, v, None) \<noteq> []" by blast
        with Nil Cons obtain u' where "u = c # u'" by (cases u) auto
        with uv Cons show ?B by auto
      next
        assume ?B
        then obtain u v where "t = u @ v" "rx_match r (rev u @ c # pre, v, None) \<noteq> []" by blast
        with Cons show ?A by (intro exI [of _ "c # u"] exI [of _ v]) simp
      qed
      with "1.IH" [OF Nil Cons] Nil Cons show ?thesis
        by (simp add: rx_find_Nil_match)
    qed
  qed
qed

text \<open>A byte that every match must contain.\<close>

fun needs :: "(char \<Rightarrow> bool) \<Rightarrow> rx \<Rightarrow> bool" where
  "needs P (Cls q) = (\<forall>c. q c \<longrightarrow> P c)"
| "needs P (Sq a b) = (needs P a \<or> needs P b)"
| "needs P (Alt a b) = (needs P a \<and> needs P b)"
| "needs P (Cap a) = needs P a"
| "needs P _ = False"

lemma needs_match:
  "needs P r \<Longrightarrow> m' \<in> set (rx_match r m) \<Longrightarrow> \<exists>c \<in> set (fst (snd m)). P c"
proof (induction r arbitrary: m m')
  case (Cls q)
  then show ?case by (auto split: list.splits if_splits prod.splits)
next
  case (Sq a b)
  obtain pre s cap where m: "m = (pre, s, cap)" using prod_cases3 by blast
  from Sq.prems(2) obtain m1 where m1: "m1 \<in> set (rx_match a m)" "m' \<in> set (rx_match b m1)"
    by auto
  obtain pre1 s1 cap1 where m1e: "m1 = (pre1, s1, cap1)" using prod_cases3 by blast
  from rx_match_split [of pre1 s1 cap1 a pre s cap] m1 m m1e obtain u where "s = u @ s1" by auto
  with Sq.IH(1) [OF _ m1(1)] Sq.IH(2) [OF _ m1(2)] Sq.prems(1) m m1e show ?case by auto
qed auto

lemma needs_no_match:
  assumes "needs P r" and "\<forall>c \<in> set s. \<not> P c"
  shows "rx_find r pre s = None"
proof (rule ccontr)
  assume "rx_find r pre s \<noteq> None"
  then obtain u v m where "s = u @ v" "m \<in> set (rx_match r (rev u @ pre, v, None))"
    using rx_matches_iff [of r pre s] by (metis list.set_intros(1) neq_Nil_conv)
  with needs_match [OF assms(1), of m "(rev u @ pre, v, None)"] assms(2) show False by auto
qed

lemma replace_all_no_match: "rx_find r [] s = None \<Longrightarrow> replace_all r f s = s"
  by (simp add: replace_all_def rx_replace.simps)

text \<open>The first match of a concatenation and of a greedy run over a class.\<close>

lemma rx_match_Sq_first:
  assumes "rx_match a m = x # xs" and "rx_match b x = y # ys"
  shows "\<exists>zs. rx_match (Sq a b) m = y # zs"
  using assms by simp

lemma rx_match_Star_first:
  assumes "list_all p u" and "v = [] \<or> \<not> p (hd v)"
  shows "\<exists>ms. rx_match (Star (Cls p)) (pre, u @ v, cap) = (rev u @ pre, v, cap) # ms"
  using assms(1)
proof (induction u arbitrary: pre)
  case Nil
  with assms(2) show ?case by (cases v) (auto simp: rx_match_Star)
next
  case (Cons c u)
  then obtain ms where "rx_match (Star (Cls p)) (c # pre, u @ v, cap) = (rev u @ c # pre, v, cap) # ms"
    by auto
  with Cons.prems show ?case by (simp add: rx_match_Star [of "Cls p" "(pre, c # u @ v, cap)"])
qed

text \<open>Without \<open>\b\<close> the text before the position does not matter.\<close>

fun no_wordb :: "rx \<Rightarrow> bool" where
  "no_wordb (Cls p) = True"
| "no_wordb (Sq a b) = (no_wordb a \<and> no_wordb b)"
| "no_wordb (Alt a b) = (no_wordb a \<and> no_wordb b)"
| "no_wordb (Opt a) = no_wordb a"
| "no_wordb (Star a) = no_wordb a"
| "no_wordb WordB = False"
| "no_wordb Eps = True"
| "no_wordb (Cap a) = no_wordb a"

lemma rx_match_pre:
  assumes "no_wordb r"
  shows "map snd (rx_match r m) = map snd (rx_match r (pre, snd m))"
  using assms
proof (induction r m arbitrary: pre rule: rx_match.induct)
  case (1 p m)
  then show ?case by (auto split: prod.splits list.splits)
next
  case (2 a b m)
  have "map snd (concat (map (rx_match b) xs)) = map snd (concat (map (rx_match b) ys))"
    if "map snd xs = map snd ys" "set xs \<subseteq> set (rx_match a m)" for xs ys
    using that
  proof (induction xs arbitrary: ys)
    case (Cons x xs)
    then obtain y ys' where ys: "ys = y # ys'" "snd x = snd y" "map snd xs = map snd ys'" by auto
    have "map snd (rx_match b x) = map snd (rx_match b (fst y, snd x))"
      using "2.IH"(2) [of x] "2.prems" Cons.prems(2) by simp
    with ys Cons.IH [of ys'] Cons.prems(2) show ?case by simp
  qed simp
  with "2.IH"(1) [of pre] "2.prems" show ?case by simp
next
  case (5 a m)
  let ?f = "\<lambda>n m'. if length (fst (snd m')) < length (fst (snd n))
    then rx_match (Star a) m' else []"
  have "map snd (concat (map (?f m) xs)) = map snd (concat (map (?f (pre, snd m)) ys))"
    if "map snd xs = map snd ys" "set xs \<subseteq> set (rx_match a m)" for xs ys
    using that
  proof (induction xs arbitrary: ys)
    case (Cons x xs)
    then obtain y ys' where ys: "ys = y # ys'" "snd x = snd y" "map snd xs = map snd ys'" by auto
    have "map snd (?f m x) = map snd (?f (pre, snd m) y)"
    proof (cases "length (fst (snd x)) < length (fst (snd m))")
      case True
      then have "map snd (rx_match (Star a) x) = map snd (rx_match (Star a) (fst y, snd x))"
        using "5.IH"(2) [of x] "5.prems" Cons.prems(2) by simp
      with ys True show ?thesis by simp
    next
      case False
      with ys show ?thesis by simp
    qed
    with ys Cons.IH [of ys'] Cons.prems(2) show ?case by simp
  qed simp
  with "5.IH"(1) [of pre] "5.prems" show ?case
    by (simp add: rx_match_Star [of a m] rx_match_Star [of a "(pre, snd m)"])
next
  case (8 a m)
  have cap: "map snd (rx_match (Cap a) n) =
      map (\<lambda>(s, cap). (s, Some (take (length (fst (snd n)) - length s) (fst (snd n)))))
        (map snd (rx_match a n))" for n
    by (simp add: comp_def split_beta)
  from "8.IH" [of pre] "8.prems" have "map snd (rx_match a m) = map snd (rx_match a (pre, snd m))"
    by simp
  then show ?case by (simp only: cap snd_conv)
qed auto

lemma rx_find_pre:
  assumes "no_wordb r"
  shows "map_option (\<lambda>(p1, p2, s', cap). (length p1 - length pre, s', cap)) (rx_find r pre s) =
    map_option (\<lambda>(p1, p2, s', cap). (length p1 - length pre', s', cap)) (rx_find r pre' s)
    \<and> (\<forall>x. rx_find r pre s = Some x \<longrightarrow> length pre \<le> length (fst x))"
proof (induction s arbitrary: pre pre')
  case Nil
  from rx_match_pre [OF assms, of "(pre, [], None)" pre'] show ?case
    by (auto simp: rx_find.simps split: list.splits)
next
  case (Cons c s)
  from rx_match_pre [OF assms, of "(pre, c # s, None)" pre']
  have eq: "map snd (rx_match r (pre, c # s, None)) = map snd (rx_match r (pre', c # s, None))" by simp
  show ?case
  proof (cases "rx_match r (pre, c # s, None)")
    case Nil
    with eq have nil: "rx_match r (pre', c # s, None) = []" by simp
    have "length p1 - length pre = Suc (length p1 - length (c # pre))" if "length (c # pre) \<le> length p1"
      for p1 pre :: string using that by simp
    with Cons.IH [of "c # pre" "c # pre'"] Cons.IH [of "c # pre'" "c # pre"]
    show ?thesis
      by (simp add: rx_find_Nil_match [OF Nil] rx_find_Nil_match [OF nil])
        (fastforce simp: map_option_case split: option.splits)
  next
    case (Cons x xs)
    with eq obtain y ys where "rx_match r (pre', c # s, None) = y # ys" "snd y = snd x" by auto
    with Cons show ?thesis
      by (auto simp: rx_find.simps [of r pre "c # s"] rx_find.simps [of r pre' "c # s"] split: prod.splits)
  qed
qed

lemma rx_replace_pre:
  assumes "no_wordb r"
  shows "rx_replace r f pre s = rx_replace r f pre' s"
proof (induction "length s" arbitrary: pre pre' s rule: less_induct)
  case less
  show ?case
  proof (cases "rx_find r pre s")
    case None
    with rx_find_pre [OF assms, of pre s pre'] have "rx_find r pre' s = None" by simp
    with None show ?thesis by (simp add: rx_replace.simps)
  next
    case (Some x)
    obtain p1 p2 s' cap where x: "x = (p1, p2, s', cap)" using prod_cases4 by blast
    with Some rx_find_pre [OF assms, of pre s pre'] obtain q1 q2
      where y: "rx_find r pre' s = Some (q1, q2, s', cap)"
        and len: "length p1 - length pre = length q1 - length pre'"
      by (auto simp: map_option_case split: option.splits)
    show ?thesis
    proof (cases "length s' < length s")
      case True
      from less [OF True, of p2 q2] Some x y len True show ?thesis
        by (simp add: rx_replace.simps [of r f pre s] rx_replace.simps [of r f pre' s])
    next
      case False
      with Some x y show ?thesis by (simp add: rx_replace.simps)
    qed
  qed
qed

end
