(* ===== verification/Signals.thy ===== *)
theory Signals
  imports GoRegexp
begin

text \<open>
  What the proxy reads out of upstream error texts: the queue markers and the wait of
  \<open>internal/qoder/queue.go\<close>, the quota marker and \<open>HTTPError\<close> of
  \<open>internal/qoder/transport.go\<close>, the redaction of \<open>SanitizeSnippet\<close> in
  \<open>internal/qoder/auth.go\<close>, and the probe of the first event of a stream in
  \<open>internal/qoder/queueprobe.go\<close>.
\<close>

section \<open>Markers\<close>

text \<open>The group \<open>(?:\\+")?\<close>: backslashes and a quote, or nothing.\<close>

definition esc_quote :: rx where
  "esc_quote = Opt (Sq (plus (Cls (\<lambda>c. c = BSL))) (Cls (\<lambda>c. c = DQ)))"

definition queue_marker_re :: rx where
  "queue_marker_re = alts
    [seqs [esc_quote, lit ''code'', esc_quote, spaces, lit '':'', spaces, esc_quote, lit ''10605'',
           esc_quote],
     seqs [esc_quote, lit ''isQueued'', esc_quote, spaces, lit '':'', spaces, esc_quote, lit ''true''],
     seqs [esc_quote, lit ''queueType'', esc_quote]]"

definition queue_retry_after_re :: rx where
  "queue_retry_after_re = seqs
    [lit ''retryAfterSeconds'', esc_quote, spaces, lit '':'', spaces, esc_quote,
     Cap (plus (Cls is_digit))]"

definition is_queue_error :: "string \<Rightarrow> bool" where
  "is_queue_error message \<longleftrightarrow> message \<noteq> [] \<and> rx_matches queue_marker_re message"

definition queue_wait_seconds :: "string \<Rightarrow> duration" where
  "queue_wait_seconds message =
    (if \<not> is_queue_error message then 0
     else (case rx_submatch queue_retry_after_re message of
             None \<Rightarrow> 30 * second
           | Some ds \<Rightarrow>
             (case parse_int64 ds of
                Some n \<Rightarrow> if 0 < n then wrap64 (n * second) else 30 * second
              | None \<Rightarrow> 30 * second)))"

definition quota_marker_re :: rx where
  "quota_marker_re = alts
    [seqs [lit (DQ # ''code'' @ [DQ]), spaces, lit '':'', spaces, Opt (lit [DQ]), lit ''112'',
           Opt (lit [DQ])],
     lit (DQ # ''pricingUrl'' @ [DQ])]"

definition is_quota_error :: "string \<Rightarrow> bool" where
  "is_quota_error message \<longleftrightarrow> rx_matches quota_marker_re message"

record HTTPError =
  he_status :: int
  he_message :: string
  he_retry_after :: duration

definition http_error_text :: "HTTPError \<Rightarrow> string" where
  "http_error_text e = ''Qoder upstream HTTP '' @ show_int (he_status e) @ '': '' @ he_message e"

section \<open>Redaction\<close>

definition bearer_re :: rx where
  "bearer_re = seqs
    [ci_lit ''bearer'', plus (Cls rx_space),
     plus (Cls (\<lambda>c. \<not> rx_space c \<and> c \<noteq> DQ \<and> c \<noteq> CHR 0x27 \<and> c \<noteq> CHR '','' \<and> c \<noteq> CHR ''}''))]"

definition token_char :: "char \<Rightarrow> bool" where
  "token_char c \<longleftrightarrow> word_char c \<or> c = CHR ''.'' \<or> c = CHR ''-''"

definition token_re :: rx where
  "token_re = seqs
    [WordB, alts [lit ''pt'', lit ''jt'', lit ''jrt'', lit ''dt'', lit ''drt''], lit ''-'',
     plus (Cls token_char)]"

definition secret_key_re :: rx where
  "secret_key_re = seqs
    [Cap (seqs
       [Opt (lit [DQ]),
        alts [ci_lit ''authorization'', ci_lit ''security_oauth_token'', ci_lit ''access_token'',
              ci_lit ''refresh_token'', ci_lit ''personal_token'', ci_lit ''cosy-key''],
        Opt (lit [DQ]), spaces, Cls (\<lambda>c. c = CHR '':'' \<or> c = CHR ''=''), spaces]),
     Opt (lit [DQ]),
     plus (Cls (\<lambda>c. c \<noteq> DQ \<and> c \<noteq> CHR '','' \<and> c \<noteq> CHR ''}'' \<and> \<not> rx_space c)),
     Opt (lit [DQ])]"

definition ellipsis :: string where
  "ellipsis = [CHR 0xE2, CHR 0x80, CHR 0xA6]"

definition redact :: "string \<Rightarrow> string" where
  "redact s =
    (let s1 = replace_all bearer_re (\<lambda>_. ''Bearer <redacted>'') s;
         s2 = replace_all token_re (\<lambda>_. ''<redacted-token>'') s1
     in replace_all secret_key_re
          (\<lambda>cap. (case cap of None \<Rightarrow> [] | Some g \<Rightarrow> g) @ ''<redacted>'') s2)"

definition sanitize_snippet :: "string \<Rightarrow> nat \<Rightarrow> string" where
  "sanitize_snippet b limit =
    (let s = redact b
     in trim_space (if length s > limit then take limit s @ ellipsis else s))"

section \<open>The probe\<close>

text \<open>An upstream response: the bytes its body delivers, and whether the body ends with the
  end of file (\<open>None\<close>) or with a read error.\<close>

record UpstreamResponse =
  up_status :: int
  up_body :: string
  up_error :: "string option"

definition queue_probe_bytes :: nat where
  "queue_probe_bytes = 4096"

fun cut_lines :: "string \<Rightarrow> string list" where
  "cut_lines [] = []"
| "cut_lines (c # s) =
     (if c = LF then [c] # cut_lines s
      else (case cut_lines s of [] \<Rightarrow> [[c]] | l # ls \<Rightarrow> (c # l) # ls))"

text \<open>The loop that reads up to the first empty line or past the limit.\<close>

fun peek_loop :: "string list \<Rightarrow> string \<Rightarrow> string" where
  "peek_loop [] head = head"
| "peek_loop (l # ls) head =
     (let head = head @ l
      in if length head > queue_probe_bytes then head
         else if l = [LF] then head
         else peek_loop ls head)"

text \<open>
  The result is the error for a queue envelope, the response that the caller goes on with,
  and the bytes read from the upstream before the probe returns: \<open>io.ReadAll\<close> reads the
  body to its end and drops its error.
\<close>

definition probe_queue_envelope ::
    "UpstreamResponse \<Rightarrow> HTTPError option \<times> UpstreamResponse \<times> nat" where
  "probe_queue_envelope up =
    (let peeked = peek_loop (cut_lines (up_body up)) [];
         rest = drop (length peeked) (up_body up);
         up' = up\<lparr>up_body := peeked @ rest, up_error := None\<rparr>
     in (if is_queue_error peeked
         then Some \<lparr>he_status = 403, he_message = sanitize_snippet peeked 256, he_retry_after = 0\<rparr>
         else None,
         up', length peeked + length rest))"

text \<open>\<open>peekReader\<close>, which the probe was meant to hand on and does not use: the buffer first, then
  the source, whose \<open>Read\<close> gives some bytes and the error, if any.\<close>

type_synonym 'w source = "nat \<Rightarrow> 'w \<Rightarrow> (string \<times> string option) \<times> 'w"

record peekReader =
  pk_buf :: string
  pk_done :: bool

definition new_peek_reader :: peekReader where
  "new_peek_reader = \<lparr>pk_buf = [], pk_done = False\<rparr>"

definition peek_read :: "'w source \<Rightarrow> nat \<Rightarrow> peekReader \<Rightarrow> 'w \<Rightarrow> (string \<times> string option) \<times> peekReader \<times> 'w" where
  "peek_read src n p w =
    (if pk_buf p \<noteq> [] then ((take n (pk_buf p), None), p\<lparr>pk_buf := drop n (pk_buf p)\<rparr>, w)
     else if pk_done p then (([], Some ''EOF''), p, w)
     else (let (r, w) = src n w in (r, p, w)))"

text \<open>Reads of the reader: the bytes of the buffer come first and none is lost.\<close>

fun peek_reads :: "'w source \<Rightarrow> nat list \<Rightarrow> peekReader \<Rightarrow> 'w \<Rightarrow> string \<times> peekReader \<times> 'w" where
  "peek_reads src [] p w = ([], p, w)"
| "peek_reads src (n # ns) p w =
    (let ((s, _), p, w) = peek_read src n p w; (t, p, w) = peek_reads src ns p w in (s @ t, p, w))"

lemma peek_reads_buffer:
  "sum_list ns \<le> length (pk_buf p) \<Longrightarrow> pk_buf p \<noteq> [] \<Longrightarrow> list_all ((<) 0) ns \<Longrightarrow>
   peek_reads src ns p w = (take (sum_list ns) (pk_buf p), p\<lparr>pk_buf := drop (sum_list ns) (pk_buf p)\<rparr>, w)"
proof (induction ns arbitrary: p)
  case Nil
  then show ?case by simp
next
  case (Cons n ns)
  let ?p = "p\<lparr>pk_buf := drop n (pk_buf p)\<rparr>"
  have "peek_reads src ns ?p w = (take (sum_list ns) (pk_buf ?p), ?p\<lparr>pk_buf := drop (sum_list ns) (pk_buf ?p)\<rparr>, w)"
  proof (cases "ns = []")
    case False
    then obtain m ms where "ns = m # ms" by (cases ns) auto
    with Cons.prems have "0 < sum_list ns" by simp
    with Cons.prems show ?thesis by (intro Cons.IH) auto
  qed simp
  with Cons.prems show ?case
    by (simp add: peek_read_def take_add drop_drop add.commute)
qed

lemma peek_read_after: "pk_buf p = [] \<Longrightarrow> \<not> pk_done p \<Longrightarrow> peek_read src n p w = (fst (src n w), p, snd (src n w))"
  by (simp add: peek_read_def split: prod.splits)

section \<open>Messages without a backslash\<close>

text \<open>Two expressions that match alike where the text has no backslash.\<close>

definition same_unescaped :: "rx \<Rightarrow> rx \<Rightarrow> bool" where
  "same_unescaped a b \<longleftrightarrow>
    (\<forall>pre s cap. BSL \<notin> set s \<longrightarrow> rx_match a (pre, s, cap) = rx_match b (pre, s, cap))"

lemma same_unescaped_refl: "same_unescaped a a"
  by (simp add: same_unescaped_def)

lemma same_unescaped_esc_quote: "same_unescaped esc_quote Eps"
  by (auto simp: same_unescaped_def esc_quote_def plus_def split: list.splits)

lemma same_unescaped_Sq:
  assumes "same_unescaped a a'" and "same_unescaped b b'"
  shows "same_unescaped (Sq a b) (Sq a' b')"
  unfolding same_unescaped_def
proof (intro allI impI)
  fix pre s cap
  assume bs: "BSL \<notin> set s"
  have "rx_match b m = rx_match b' m" if "m \<in> set (rx_match a (pre, s, cap))" for m
  proof -
    obtain pre1 s1 cap1 where m: "m = (pre1, s1, cap1)" using prod_cases3 by blast
    with rx_match_split that obtain u where "s = u @ s1" by blast
    with bs assms(2) m show ?thesis by (simp add: same_unescaped_def)
  qed
  then have "map (rx_match b) (rx_match a (pre, s, cap)) = map (rx_match b') (rx_match a (pre, s, cap))"
    by (intro map_cong refl)
  moreover have "rx_match a' (pre, s, cap) = rx_match a (pre, s, cap)"
    using assms(1) bs by (simp add: same_unescaped_def)
  ultimately show "rx_match (Sq a b) (pre, s, cap) = rx_match (Sq a' b') (pre, s, cap)"
    by (simp only: rx_match.simps)
qed

lemma same_unescaped_Alt:
  "same_unescaped a a' \<Longrightarrow> same_unescaped b b' \<Longrightarrow> same_unescaped (Alt a b) (Alt a' b')"
  by (simp add: same_unescaped_def)

lemma same_unescaped_matches:
  assumes "same_unescaped a b" and "BSL \<notin> set s"
  shows "rx_matches a s = rx_matches b s"
proof -
  have "rx_find a [] s \<noteq> None \<longleftrightarrow> rx_find b [] s \<noteq> None"
    unfolding rx_matches_iff using assms by (metis UnCI same_unescaped_def set_append)
  then show ?thesis by (simp add: rx_matches_def)
qed

text \<open>The marker with no place for a quote.\<close>

definition bare_marker_re :: rx where
  "bare_marker_re = alts
    [seqs [Eps, lit ''code'', Eps, spaces, lit '':'', spaces, Eps, lit ''10605'', Eps],
     seqs [Eps, lit ''isQueued'', Eps, spaces, lit '':'', spaces, Eps, lit ''true''],
     seqs [Eps, lit ''queueType'', Eps]]"

lemma same_unescaped_marker: "same_unescaped queue_marker_re bare_marker_re"
  unfolding queue_marker_re_def bare_marker_re_def alts.simps seqs.simps
  by (intro same_unescaped_Alt same_unescaped_Sq same_unescaped_esc_quote same_unescaped_refl)

section \<open>Properties of the signals\<close>

text \<open>
  In a message without backslashes the optional quote groups of the queue marker
  match nothing.  Such a message counts as a queue signal exactly when it holds
  \<open>queueType\<close> or an unquoted pair such as \<open>code:10605\<close>; the JSON body
  \<open>{"code":"10605"}\<close> is not recognised, although the comment promises both forms.
\<close>

lemma queue_marker_unescaped:
  assumes "BSL \<notin> set message"
  shows "is_queue_error message \<longleftrightarrow> message \<noteq> [] \<and> rx_matches bare_marker_re message"
  using same_unescaped_matches [OF same_unescaped_marker assms] by (simp add: is_queue_error_def)

lemma queue_marker_unescaped_witness:
  "\<not> is_queue_error (''{'' @ [DQ] @ ''code'' @ [DQ] @ '':'' @ [DQ] @ ''10605'' @ [DQ] @ ''}'')"
proof -
  let ?m = "''{'' @ [DQ] @ ''code'' @ [DQ] @ '':'' @ [DQ] @ ''10605'' @ [DQ] @ ''}''"
  have "\<not> rx_matches bare_marker_re ?m" by code_simp
  moreover have "BSL \<notin> set ?m" by simp
  ultimately show ?thesis using queue_marker_unescaped [of ?m] by blast
qed

text \<open>
  The wait parsed from a queue signal is positive, and at least one second, as long
  as the advertised number of seconds is at most 9223372036; beyond that the product with
  \<open>time.Second\<close> leaves the 64-bit range.
\<close>

lemma queue_wait_positive:
  assumes "is_queue_error message"
    and "\<And>ds n. rx_submatch queue_retry_after_re message = Some ds \<Longrightarrow> parse_int64 ds = Some n \<Longrightarrow>
      n \<le> 9223372036"
  shows "second \<le> queue_wait_seconds message"
proof (cases "rx_submatch queue_retry_after_re message")
  case None
  with assms(1) show ?thesis by (simp add: queue_wait_seconds_def)
next
  case (Some ds)
  show ?thesis
  proof (cases "parse_int64 ds")
    case None
    with assms(1) Some show ?thesis by (simp add: queue_wait_seconds_def)
  next
    case n: (Some n)
    from assms(2) [OF Some n] have "n \<le> 9223372036" .
    then have "0 < n \<Longrightarrow> wrap64 (n * second) = n * second" by (intro wrap64_id) auto
    with assms(1) Some n show ?thesis by (auto simp: queue_wait_seconds_def)
  qed
qed

lemma queue_wait_positive_witness:
  "second \<le> queue_wait_seconds ''queueType retryAfterSeconds:45''"
proof -
  have sub: "rx_submatch queue_retry_after_re ''queueType retryAfterSeconds:45'' = Some ''45''"
    by code_simp
  have "parse_int64 ''45'' = Some 45" by code_simp
  moreover have "is_queue_error ''queueType retryAfterSeconds:45''" by code_simp
  ultimately show ?thesis
    using sub by (intro queue_wait_positive) auto
qed

text \<open>
  The wait is not always positive.  A queue signal that advertises 9223372037
  seconds gives a negative duration, which the caller takes for the absence of a queue.
\<close>

lemma queue_wait_overflow:
  "is_queue_error ''queueType retryAfterSeconds:9223372037''
   \<and> queue_wait_seconds ''queueType retryAfterSeconds:9223372037'' < 0"
  by code_simp

lemma concat_cut_lines: "concat (cut_lines s) = s"
  by (induction s rule: cut_lines.induct) (auto split: list.splits)

lemma peek_loop_prefix: "\<exists>ks. peek_loop ls head = head @ concat ks \<and> prefix ks ls"
proof (induction ls head rule: peek_loop.induct)
  case (1 head)
  then show ?case by simp
next
  case (2 l ls head)
  show ?case
  proof (cases "length (head @ l) > queue_probe_bytes \<or> l = [LF]")
    case True
    then have "peek_loop (l # ls) head = head @ concat [l]" by (auto simp: Let_def)
    then show ?thesis by (intro exI [of _ "[l]"]) simp
  next
    case False
    then have "peek_loop (l # ls) head = peek_loop ls (head @ l)" by (simp add: Let_def)
    moreover obtain ks where "peek_loop ls (head @ l) = (head @ l) @ concat ks" "prefix ks ls"
      using "2.IH" [of "head @ l"] False by auto
    ultimately show ?thesis by (intro exI [of _ "l # ks"]) simp
  qed
qed

lemma peeked_prefix: "prefix (peek_loop (cut_lines s) []) s"
proof -
  obtain ks ls where "peek_loop (cut_lines s) [] = concat ks" "cut_lines s = ks @ ls"
    using peek_loop_prefix [of "cut_lines s" "[]"] by (auto simp: prefix_def)
  moreover from this have "s = concat ks @ concat ls"
    by (metis concat_append concat_cut_lines)
  ultimately show ?thesis by simp
qed

text \<open>
  C36: the probe loses no byte of the stream, and it reads all of it.  The response that
  is handed on has the same body; but before the probe returns, the upstream's whole body
  has been read, whatever the limit of 4096 bytes, and a read error of the upstream has
  become a plain end of file.
\<close>

theorem probe_replays_after_reading_all:
  "case probe_queue_envelope up of (err, up', n) \<Rightarrow>
     up_body up' = up_body up \<and> up_status up' = up_status up \<and>
     n = length (up_body up) \<and> up_error up' = None \<and>
     (err \<noteq> None \<longleftrightarrow> is_queue_error (peek_loop (cut_lines (up_body up)) []))"
proof -
  let ?p = "peek_loop (cut_lines (up_body up)) []"
  obtain rest where body: "up_body up = ?p @ rest" using peeked_prefix [of "up_body up"] by (auto simp: prefix_def)
  then have "?p @ drop (length ?p) (up_body up) = up_body up"
    by (metis append_eq_conv_conj)
  moreover from this have "length ?p + length (drop (length ?p) (up_body up)) = length (up_body up)"
    by (metis length_append)
  ultimately show ?thesis by (simp add: probe_queue_envelope_def Let_def)
qed

text \<open>The long queue envelope: the marker stands past the 256 bytes that are kept.\<close>

definition padded_queue_line :: "nat \<Rightarrow> string" where
  "padded_queue_line n = ''data: '' @ replicate n (CHR ''x'') @ ''queueType'' @ [LF]"

lemma cut_lines_single: "LF \<notin> set l \<Longrightarrow> cut_lines (l @ [LF]) = [l @ [LF]]"
  by (induction l) auto

lemma peek_padded: "peek_loop (cut_lines (padded_queue_line n)) [] = padded_queue_line n"
  using cut_lines_single [of "''data: '' @ replicate n (CHR ''x'') @ ''queueType''"]
  by (simp add: padded_queue_line_def Let_def del: cut_lines.simps append_Cons)

lemma padded_is_queue_error: "is_queue_error (padded_queue_line n)"
proof -
  have "rx_match queue_marker_re (pre, ''queueType'' @ [LF], None) \<noteq> []" for pre
    by (simp add: queue_marker_re_def esc_quote_def plus_def)
  then have "rx_find queue_marker_re [] (padded_queue_line n) \<noteq> None"
    unfolding rx_matches_iff padded_queue_line_def
    by (intro exI [of _ "''data: '' @ replicate n (CHR ''x'')"] exI [of _ "''queueType'' @ [LF]"])
      simp
  then show ?thesis by (simp add: is_queue_error_def rx_matches_def padded_queue_line_def)
qed

lemma redact_padded: "redact (padded_queue_line n) = padded_queue_line n"
proof -
  have b: "needs (\<lambda>c. fold_case c = CHR ''b'') bearer_re"
    by (simp add: bearer_re_def ci_char_def)
  have t: "needs (\<lambda>c. c = CHR ''-'') token_re"
    by (simp add: token_re_def)
  have k: "needs (\<lambda>c. fold_case c = CHR ''z'' \<or> fold_case c = CHR ''_'' \<or> fold_case c = CHR ''-'')
      secret_key_re"
    by (simp add: secret_key_re_def ci_char_def Let_def)
  have chars: "set (padded_queue_line n) \<subseteq> set (''data: x'' @ ''queueType'' @ [LF])"
    by (auto simp: padded_queue_line_def)
  have all: "list_all (\<lambda>c. fold_case c \<noteq> CHR ''b'' \<and> c \<noteq> CHR ''-'' \<and> fold_case c \<noteq> CHR ''z''
      \<and> fold_case c \<noteq> CHR ''_'' \<and> fold_case c \<noteq> CHR ''-'') (''data: x'' @ ''queueType'' @ [LF])"
    by code_simp
  have no: "\<forall>c \<in> set (padded_queue_line n). fold_case c \<noteq> CHR ''b'' \<and> c \<noteq> CHR ''-'' \<and>
      fold_case c \<noteq> CHR ''z'' \<and> fold_case c \<noteq> CHR ''_'' \<and> fold_case c \<noteq> CHR ''-''"
    using chars all unfolding list_all_iff by blast
  show ?thesis
    using needs_no_match [OF b, of "padded_queue_line n" "[]"]
      needs_no_match [OF t, of "padded_queue_line n" "[]"]
      needs_no_match [OF k, of "padded_queue_line n" "[]"] no
    by (simp add: redact_def Let_def replace_all_no_match)
qed

lemma strip_seqs_None: "strip_seq ps s = None \<Longrightarrow> strip_seqs ps s = s"
  by (simp add: strip_seqs.simps [of ps s])

lemma sanitize_padded:
  assumes "250 \<le> n"
  shows "sanitize_snippet (padded_queue_line n) 256 = ''data: '' @ replicate 250 (CHR ''x'') @ ellipsis"
proof -
  let ?s = "''data: '' @ replicate 250 (CHR ''x'') @ ellipsis"
  have "take 256 (padded_queue_line n) @ ellipsis = ?s"
    using assms by (simp add: padded_queue_line_def min_def)
  moreover have "256 < length (padded_queue_line n)"
    using assms by (simp add: padded_queue_line_def)
  moreover have "trim_space ?s = ?s"
  proof -
    have "strip_seq space_seqs ?s = None" by (simp add: space_seqs_def)
    moreover have "strip_seq (map rev space_seqs) (rev ?s) = None"
      by (simp add: space_seqs_def ellipsis_def)
    ultimately show ?thesis
      by (simp add: trim_space_def trim_left_space_def trim_right_space_def strip_seqs_None)
  qed
  ultimately show ?thesis by (simp add: sanitize_snippet_def redact_padded)
qed

text \<open>
  The probe can recognise a queue envelope and lose the signal.  The error it
  returns keeps 256 bytes of the text; a marker further on is cut off, the caller computes
  a wait of zero, and what was a request to wait is treated as a plain 403.
\<close>

lemma probe_loses_late_marker:
  assumes "250 \<le> n"
  shows "\<exists>e. fst (probe_queue_envelope \<lparr>up_status = 200, up_body = padded_queue_line n,
      up_error = None\<rparr>) = Some e \<and> he_status e = 403 \<and> queue_wait_seconds (http_error_text e) = 0"
proof -
  let ?e = "\<lparr>he_status = 403, he_message = sanitize_snippet (padded_queue_line n) 256,
    he_retry_after = 0\<rparr>"
  let ?t = "''Qoder upstream HTTP 403: data: '' @ replicate 250 (CHR ''x'') @ ellipsis"
  have "show_int 403 = ''403''" by code_simp
  then have text_eq: "http_error_text ?e = ?t"
    using sanitize_padded [OF assms] by (simp add: http_error_text_def)
  have "needs (\<lambda>c. c = CHR ''1'' \<or> c = CHR ''i'' \<or> c = CHR ''y'') queue_marker_re"
    by (simp add: queue_marker_re_def)
  moreover have "\<forall>c \<in> set ?t. \<not> (c = CHR ''1'' \<or> c = CHR ''i'' \<or> c = CHR ''y'')"
    by (auto simp: ellipsis_def)
  ultimately have "rx_find queue_marker_re [] ?t = None" by (rule needs_no_match)
  then have "queue_wait_seconds (http_error_text ?e) = 0"
    by (simp only: text_eq queue_wait_seconds_def is_queue_error_def rx_matches_def) simp
  moreover have "fst (probe_queue_envelope \<lparr>up_status = 200, up_body = padded_queue_line n,
      up_error = None\<rparr>) = Some ?e"
    by (simp add: probe_queue_envelope_def Let_def peek_padded padded_is_queue_error)
  ultimately show ?thesis by (intro exI [of _ ?e]) simp
qed

lemma probe_loses_late_marker_witness:
  "\<exists>e. fst (probe_queue_envelope \<lparr>up_status = 200, up_body = padded_queue_line 300,
      up_error = None\<rparr>) = Some e \<and> he_status e = 403 \<and> queue_wait_seconds (http_error_text e) = 0"
  by (rule probe_loses_late_marker) simp

section \<open>What redaction hides\<close>

definition bearer_value_char :: "char \<Rightarrow> bool" where
  "bearer_value_char c \<longleftrightarrow>
    \<not> rx_space c \<and> c \<noteq> DQ \<and> c \<noteq> CHR 0x27 \<and> c \<noteq> CHR '','' \<and> c \<noteq> CHR ''}''"

lemma bearer_value_class:
  "(\<lambda>c. \<not> rx_space c \<and> c \<noteq> DQ \<and> c \<noteq> CHR 0x27 \<and> c \<noteq> CHR '','' \<and> c \<noteq> CHR ''}'') = bearer_value_char"
  by (rule ext) (simp add: bearer_value_char_def)

text \<open>The word in any case, and a text without it.\<close>

definition bearer_word :: "string \<Rightarrow> bool" where
  "bearer_word w \<longleftrightarrow> map fold_case w = ''bearer''"

fun no_bearer :: "string \<Rightarrow> bool" where
  "no_bearer [] = True"
| "no_bearer (c # s) = (\<not> bearer_word (take 6 (c # s)) \<and> no_bearer s)"

lemma bearer_word_cases:
  assumes "bearer_word w"
  obtains a b c d e f where "w = [a, b, c, d, e, f]" and "fold_case a = CHR ''b''" and "fold_case b = CHR ''e''"
    and "fold_case c = CHR ''a''" and "fold_case d = CHR ''r''" and "fold_case e = CHR ''e''" and "fold_case f = CHR ''r''"
  using assms by (auto simp: bearer_word_def map_eq_Cons_conv)

lemma ci_bearer_match:
  "bearer_word w \<Longrightarrow> rx_match (ci_lit ''bearer'') (pre, w @ s, cap) = [(rev w @ pre, s, cap)]"
  by (erule bearer_word_cases) (simp add: ci_char_def)

lemma ci_bearer_only:
  "rx_match (ci_lit ''bearer'') (pre, s, cap) \<noteq> [] \<Longrightarrow> bearer_word (take 6 s)"
  by (auto simp: ci_char_def bearer_word_def numeral_eq_Suc split: list.splits if_splits)

text \<open>The word does not begin inside a text without it that it follows.\<close>

lemma no_overlap:
  assumes "v \<noteq> []" and "\<not> bearer_word (take 6 v)" and "bearer_word w"
  shows "\<not> bearer_word (take 6 (v @ w @ s))"
proof (cases "6 \<le> length v")
  case True
  with assms(2) show ?thesis by simp
next
  case False
  obtain a b c d e f where w: "w = [a, b, c, d, e, f]" "fold_case a = CHR ''b''" "fold_case b = CHR ''e''"
    "fold_case c = CHR ''a''" "fold_case d = CHR ''r''" "fold_case e = CHR ''e''" "fold_case f = CHR ''r''"
    using assms(3) by (rule bearer_word_cases)
  from False have "length v < 6" by simp
  with assms(1) w show ?thesis
    by (cases v; cases "tl v"; cases "tl (tl v)"; cases "tl (tl (tl v))"; cases "tl (tl (tl (tl v)))";
        cases "tl (tl (tl (tl (tl v))))") (auto simp: bearer_word_def numeral_eq_Suc)
qed

lemma bearer_re_skip:
  "\<not> bearer_word (take 6 s) \<Longrightarrow> rx_match bearer_re (pre, s, cap) = []"
proof -
  assume "\<not> bearer_word (take 6 s)"
  with ci_bearer_only have "rx_match (ci_lit ''bearer'') (pre, s, cap) = []" by blast
  then show ?thesis by (simp add: bearer_re_def del: ci_lit.simps)
qed

text \<open>Where a token ends.\<close>

definition token_end :: "string \<Rightarrow> bool" where
  "token_end s \<longleftrightarrow> s = [] \<or> \<not> bearer_value_char (hd s)"

lemma bearer_re_first:
  assumes "bearer_word w" and "gap \<noteq> []" and "list_all rx_space gap"
    and "tok \<noteq> []" and "list_all bearer_value_char tok" and "token_end post"
  shows "\<exists>ms. rx_match bearer_re (pre, w @ gap @ tok @ post, None) =
    (rev (w @ gap @ tok) @ pre, post, None) # ms"
proof -
  obtain t ts where tok: "tok = t # ts" using assms(4) by (cases tok) auto
  with assms(5) have t: "bearer_value_char t" and ts: "list_all bearer_value_char ts" by auto
  obtain g gs where gap: "gap = g # gs" using assms(2) by (cases gap) auto
  with assms(3) have g: "rx_space g" and gs: "list_all rx_space gs" by auto
  let ?p = "rev gap @ rev w @ pre"
  have nsp: "\<not> rx_space t" using t by (simp add: bearer_value_char_def)
  have gap_first: "\<exists>ms. rx_match (plus (Cls rx_space)) (rev w @ pre, gap @ tok @ post, None) =
      (?p, tok @ post, None) # ms"
    using rx_match_Star_first [of rx_space gs "tok @ post" "g # rev w @ pre" None] gs nsp tok g gap
    by (auto simp: plus_def)
  have "\<exists>ms. rx_match (plus (Cls bearer_value_char)) (?p, tok @ post, None) = (rev tok @ ?p, post, None) # ms"
    using rx_match_Star_first [of bearer_value_char ts post "t # ?p" None] t ts tok assms(6)
    by (auto simp: plus_def token_end_def)
  then obtain m3 where m3: "rx_match (Sq (plus (Cls bearer_value_char)) Eps) (?p, tok @ post, None) =
      (rev tok @ ?p, post, None) # m3" by auto
  from gap_first rx_match_Sq_first [OF _ m3] obtain m2 where
    m2: "rx_match (Sq (plus (Cls rx_space)) (Sq (plus (Cls bearer_value_char)) Eps))
      (rev w @ pre, gap @ tok @ post, None) = (rev tok @ ?p, post, None) # m2"
    by blast
  from rx_match_Sq_first [OF ci_bearer_match [OF assms(1)] m2] show ?thesis
    by (simp add: bearer_re_def bearer_value_class)
qed

lemma bearer_find:
  assumes "bearer_word w" and "gap \<noteq> []" and "list_all rx_space gap"
    and "tok \<noteq> []" and "list_all bearer_value_char tok" and "token_end post"
    and "no_bearer pre"
  shows "rx_find bearer_re acc (pre @ w @ gap @ tok @ post) =
    Some (rev pre @ acc, rev (w @ gap @ tok) @ rev pre @ acc, post, None)"
  using assms(7)
proof (induction pre arbitrary: acc)
  case Nil
  from bearer_re_first [OF assms(1-6), of acc] show ?case
    by (auto simp: rx_find.simps [of bearer_re acc])
next
  case (Cons c pre)
  from no_overlap [of "c # pre" w "gap @ tok @ post"] Cons.prems assms(1)
  have "rx_match bearer_re (acc, c # pre @ w @ gap @ tok @ post, None) = []"
    by (intro bearer_re_skip) simp
  from rx_find_Nil_match [OF this] Cons show ?case by simp
qed

lemma bearer_replaced:
  assumes "bearer_word w" and "gap \<noteq> []" and "list_all rx_space gap"
    and "tok \<noteq> []" and "list_all bearer_value_char tok" and "token_end post"
    and "no_bearer pre"
  shows "rx_replace bearer_re f [] (pre @ w @ gap @ tok @ post) =
    pre @ f None @ rx_replace bearer_re f [] post"
proof -
  have "no_wordb bearer_re" by (simp add: bearer_re_def plus_def ci_char_def)
  note pre_irrelevant = rx_replace_pre [OF this]
  have find: "rx_find bearer_re [] (pre @ w @ gap @ tok @ post) =
      Some (rev pre, rev (w @ gap @ tok) @ rev pre, post, None)"
    using bearer_find [OF assms, of "[]"] by simp
  show ?thesis using assms(4)
    by (subst rx_replace.simps, unfold find)
      (simp add: pre_irrelevant [of f "rev tok @ _"])
qed

text \<open>A text with bearer tokens: before each of them some text without the word, the word, and white
  space; and any text after the last of them.\<close>

fun with_tokens :: "(string \<times> string \<times> string) list \<Rightarrow> string list \<Rightarrow> string \<Rightarrow> string" where
  "with_tokens ((pre, w, gap) # ps) (tok # toks) rest = pre @ w @ gap @ tok @ with_tokens ps toks rest"
| "with_tokens _ _ rest = rest"

definition bearer_place :: "string \<times> string \<times> string \<Rightarrow> bool" where
  "bearer_place = (\<lambda>(pre, w, gap). no_bearer pre \<and> bearer_word w \<and> gap \<noteq> [] \<and> list_all rx_space gap)"

definition bearer_token :: "string \<Rightarrow> bool" where
  "bearer_token tok \<longleftrightarrow> tok \<noteq> [] \<and> list_all bearer_value_char tok"

text \<open>Every token is ended by what comes next.\<close>

fun tokens_end :: "(string \<times> string \<times> string) list \<Rightarrow> string \<Rightarrow> bool" where
  "tokens_end [] rest = True"
| "tokens_end [_] rest = token_end rest"
| "tokens_end (_ # (pre, w, gap) # ps) rest = (pre \<noteq> [] \<and> token_end pre \<and> tokens_end ((pre, w, gap) # ps) rest)"

lemma tokens_end_Cons: "tokens_end (p # ps) rest \<Longrightarrow> tokens_end ps rest"
  by (cases ps) auto

lemma token_end_next:
  "tokens_end (p # ps) rest \<Longrightarrow> length toks = length ps \<Longrightarrow> token_end (with_tokens ps toks rest)"
  by (cases ps; cases toks) (auto simp: token_end_def neq_Nil_conv)

lemma tokens_replaced:
  assumes "list_all bearer_place ps" and "tokens_end ps rest"
    and "length toks = length ps" and "list_all bearer_token toks"
  shows "rx_replace bearer_re f [] (with_tokens ps toks rest) =
    concat (map (\<lambda>(pre, _). pre @ f None) ps) @ rx_replace bearer_re f [] rest"
  using assms
proof (induction ps toks rest rule: with_tokens.induct)
  case (1 pre w gap ps tok toks rest)
  have "token_end (with_tokens ps toks rest)" using 1 by (intro token_end_next) auto
  then have "rx_replace bearer_re f [] (with_tokens ((pre, w, gap) # ps) (tok # toks) rest) =
      pre @ f None @ rx_replace bearer_re f [] (with_tokens ps toks rest)"
    using 1 bearer_replaced [of w gap tok "with_tokens ps toks rest" pre f]
    by (simp add: bearer_place_def bearer_token_def)
  with 1 tokens_end_Cons [of "(pre, w, gap)" ps rest] show ?case by simp
qed auto

text \<open>
  C35: bearer tokens do not influence what is logged or returned.  Take an error text with any
  number of bearer tokens: each comes after the word \<open>bearer\<close> in any case and white space, and is ended by
  white space, a quote, a comma, a closing brace or the end of the text; between them, and before
  the first, the word does not occur otherwise.  Whatever other tokens stand in their places, the
  redacted snippets are the same text, so nothing of a token is in it.
\<close>

theorem bearer_token_redacted:
  assumes "list_all bearer_place ps" and "tokens_end ps rest"
    and "length toks1 = length ps" and "list_all bearer_token toks1"
    and "length toks2 = length ps" and "list_all bearer_token toks2"
  shows "sanitize_snippet (with_tokens ps toks1 rest) n = sanitize_snippet (with_tokens ps toks2 rest) n"
  unfolding sanitize_snippet_def redact_def Let_def replace_all_def [of bearer_re]
    tokens_replaced [OF assms(1,2,3,4)] tokens_replaced [OF assms(1,2,5,6)] by (rule refl)

theorem bearer_token_redacted_witness:
  "sanitize_snippet (''bad {'' @ ''Bearer'' @ '' '' @ ''dt-supersecret'' @ ''} and '' @ ''BEARER'' @ '' '' @ ''abc'') 256 =
   sanitize_snippet (''bad {'' @ ''Bearer'' @ '' '' @ ''x'' @ ''} and '' @ ''BEARER'' @ '' '' @ ''y'') 256"
proof -
  let ?ps = "[(''bad {'', ''Bearer'', '' ''), (''} and '', ''BEARER'', '' '')]"
  have "list_all bearer_place ?ps" "tokens_end ?ps []"
    "list_all bearer_token [''dt-supersecret'', ''abc'']" "list_all bearer_token [''x'', ''y'']" by code_simp+
  from bearer_token_redacted [OF this(1,2) _ this(3) _ this(4), of 256] show ?thesis by simp
qed

text \<open>The condition on the text between the tokens is needed: of two words in a row the second is
  taken for the token, and what comes after it stays.\<close>

lemma doubled_bearer_leaks: "redact ''Bearer Bearer tok'' = ''Bearer <redacted> tok''"
  by code_simp

end
