(* ===== verification/Encoding.thy ===== *)
theory Encoding
  imports GoBase
begin

text \<open>
  The body encoding of \<open>src/internal/qoder/encoding.go\<close>: base64, a swap of the first and the
  last third, and a substitution of the alphabet.  \<open>encoding/base64\<close>'s \<open>StdEncoding\<close> is
  modelled on the bytes of its input: the decoder skips line breaks, wants complete padded
  groups of four, and does not look at the unused bits of the last group.
\<close>

section \<open>base64\<close>

definition standard_alphabet :: string where
  "standard_alphabet = ''ABCDEFGHIJKLMNOPQRSTUVWXYZabcdefghijklmnopqrstuvwxyz0123456789+/''"

definition sextet_char :: "nat \<Rightarrow> char" where
  "sextet_char n = standard_alphabet ! n"

definition sextet_of :: "char \<Rightarrow> nat option" where
  "sextet_of c = index_byte standard_alphabet c"

abbreviation byte_val :: "char \<Rightarrow> nat" where "byte_val \<equiv> of_char"
abbreviation byte_of :: "nat \<Rightarrow> char" where "byte_of \<equiv> char_of"
abbreviation pad_char :: char where "pad_char \<equiv> CHR ''=''"

fun b64_encode :: "string \<Rightarrow> string" where
  "b64_encode [] = []"
| "b64_encode [a] =
     [sextet_char (byte_val a div 4), sextet_char (byte_val a mod 4 * 16), pad_char, pad_char]"
| "b64_encode [a, b] =
     [sextet_char (byte_val a div 4), sextet_char (byte_val a mod 4 * 16 + byte_val b div 16),
      sextet_char (byte_val b mod 16 * 4), pad_char]"
| "b64_encode (a # b # c # s) =
     sextet_char (byte_val a div 4) # sextet_char (byte_val a mod 4 * 16 + byte_val b div 16)
     # sextet_char (byte_val b mod 16 * 4 + byte_val c div 64) # sextet_char (byte_val c mod 64)
     # b64_encode s"

fun b64_groups :: "string \<Rightarrow> string option" where
  "b64_groups [] = Some []"
| "b64_groups (x # y # z # w # s) =
     (case (sextet_of x, sextet_of y) of
        (Some p, Some q) \<Rightarrow>
          (let a = byte_of (p * 4 + q div 16) in
           if z = pad_char then (if w = pad_char \<and> s = [] then Some [a] else None)
           else (case sextet_of z of
               None \<Rightarrow> None
             | Some r \<Rightarrow>
               (let b = byte_of (q mod 16 * 16 + r div 4) in
                if w = pad_char then (if s = [] then Some [a, b] else None)
                else (case sextet_of w of
                    None \<Rightarrow> None
                  | Some t \<Rightarrow> map_option (\<lambda>bs. a # b # byte_of (r mod 4 * 64 + t) # bs) (b64_groups s)))))
      | _ \<Rightarrow> None)"
| "b64_groups _ = None"

definition b64_decode :: "string \<Rightarrow> string option" where
  "b64_decode s = b64_groups (filter (\<lambda>c. c \<noteq> CR \<and> c \<noteq> LF) s)"

section \<open>The tables and the body encoding\<close>

definition custom_alphabet :: string where
  "custom_alphabet = ''_doRTgHZBKcGVjlvpC,@aFSx#DPuNJme&i*MzLOEn)sUrthbf%Y^w.(kIQyXqWA!''"

definition build_pairs :: "string \<Rightarrow> string \<Rightarrow> (char \<times> char) list" where
  "build_pairs src dst = zip src dst"

text \<open>\<open>strings.Replacer\<close> for one-byte pairs: every byte is replaced on its own, the first pair
  that names it wins, and other bytes stay.\<close>

definition replace_byte :: "(char \<times> char) list \<Rightarrow> char \<Rightarrow> char" where
  "replace_byte pairs c = (case map_of pairs c of None \<Rightarrow> c | Some d \<Rightarrow> d)"

definition encode_table :: "(char \<times> char) list" where
  "encode_table = build_pairs (standard_alphabet @ ''='') (custom_alphabet @ ''$'')"

definition decode_table :: "(char \<times> char) list" where
  "decode_table = build_pairs (custom_alphabet @ ''$'') (standard_alphabet @ ''='')"

definition swap_thirds :: "string \<Rightarrow> string" where
  "swap_thirds s =
    (let a = length s div 3
     in drop (length s - a) s @ drop a (take (length s - a) s) @ take a s)"

definition encode_body :: "string \<Rightarrow> string" where
  "encode_body plain =
    (if plain = [] then [] else map (replace_byte encode_table) (swap_thirds (b64_encode plain)))"

datatype encoding_error = BodyTooShort | CorruptBase64

definition decode_body :: "string \<Rightarrow> encoding_error + string" where
  "decode_body encoded =
    (if encoded = [] then Inr []
     else (let mapped = map (replace_byte decode_table) encoded in
           if length mapped div 3 = 0 then Inl BodyTooShort
           else (case b64_decode (swap_thirds mapped) of
               None \<Rightarrow> Inl CorruptBase64
             | Some bs \<Rightarrow> Inr bs)))"

section \<open>A substitution that can be undone\<close>

locale substitution =
  fixes enc :: "char \<Rightarrow> char" and dec :: "char \<Rightarrow> char" and alphabet :: "char set"
  assumes undo: "c \<in> alphabet \<Longrightarrow> dec (enc c) = c"
begin

lemma undo_all: "set s \<subseteq> alphabet \<Longrightarrow> map dec (map enc s) = s"
  by (induction s) (auto simp: undo)

lemma inj: "inj_on enc alphabet"
  by (rule inj_on_inverseI [of _ dec]) (rule undo)

end

lemma table_undo_check:
  "list_all (\<lambda>c. replace_byte decode_table (replace_byte encode_table c) = c) (standard_alphabet @ ''='')"
  by code_simp

interpretation body_table: substitution "replace_byte encode_table" "replace_byte decode_table"
  "set (standard_alphabet @ ''='')"
  using table_undo_check by unfold_locales (auto simp: list_all_iff)

section \<open>base64 round trip\<close>

lemma sextet_char_check:
  "list_all (\<lambda>n. sextet_of (sextet_char n) = Some n \<and> sextet_char n \<noteq> pad_char \<and>
     sextet_char n \<noteq> CR \<and> sextet_char n \<noteq> LF \<and> List.member standard_alphabet (sextet_char n)) [0..<64]"
  by code_simp

lemma sextet_char:
  assumes "n < 64"
  shows "sextet_of (sextet_char n) = Some n" and "sextet_char n \<noteq> pad_char"
    and "sextet_char n \<noteq> CR" and "sextet_char n \<noteq> LF" and "sextet_char n \<in> set standard_alphabet"
  using sextet_char_check assms by (auto simp: list_all_iff)

lemma byte_val_less [simp]: "byte_val c < (256 :: nat)"
  using nat_of_char_less_256 [of c] by simp

lemma byte_parts [simp]:
  "byte_val c div 4 < (64 :: nat)" "byte_val c div 16 < (16 :: nat)" "byte_val c div 64 < (4 :: nat)"
  using byte_val_less [of c] by linarith+

lemma merge_first [simp]: "byte_of (byte_val a div 4 * 4 + (byte_val a mod 4 * 16 + byte_val b div 16) div 16) = a"
  by simp

lemma group_bounds:
  "byte_val a mod 4 * 16 + byte_val b div 16 < (64 :: nat)"
  "byte_val a mod 16 * 4 + byte_val b div 64 < (64 :: nat)"
  "byte_val a mod 4 * 16 < (64 :: nat)" "byte_val a mod 16 * 4 < (64 :: nat)"
  using byte_parts [of b] mod_less_divisor [of 4 "byte_val a :: nat"]
    mod_less_divisor [of 16 "byte_val a :: nat"] by linarith+

lemma group_merge:
  fixes x y z :: nat
  assumes "y < 256" and "z < 256"
  shows "x div 4 * 4 + (x mod 4 * 16 + y div 16) div 16 = x"
    and "(x mod 4 * 16 + y div 16) mod 16 * 16 + (y mod 16 * 4 + z div 64) div 4 = y"
    and "(y mod 16 * 4 + z div 64) mod 4 * 64 + z mod 64 = z"
proof -
  have y: "y div 16 < 16" and z: "z div 64 < 4" using assms by linarith+
  show "x div 4 * 4 + (x mod 4 * 16 + y div 16) div 16 = x" using y by simp
  have "(x mod 4 * 16 + y div 16) mod 16 = y div 16" using y by simp
  moreover have "(y mod 16 * 4 + z div 64) div 4 = y mod 16" using z by simp
  ultimately show "(x mod 4 * 16 + y div 16) mod 16 * 16 + (y mod 16 * 4 + z div 64) div 4 = y"
    by simp
  have "(y mod 16 * 4 + z div 64) mod 4 = z div 64" using z by simp
  then show "(y mod 16 * 4 + z div 64) mod 4 * 64 + z mod 64 = z" by simp
qed

lemma b64_groups_encode: "b64_groups (b64_encode s) = Some s"
proof (induction s rule: b64_encode.induct)
  case 1
  then show ?case by simp
next
  case (2 a)
  then show ?case using group_merge(1) [where y = 0 and z = 0 and x = "byte_val a"]
    by (simp add: sextet_char group_bounds Let_def)
next
  case (3 a b)
  then show ?case
    using group_merge(1,2) [where y = "byte_val b" and z = 0 and x = "byte_val a"]
    by (simp add: sextet_char group_bounds Let_def)
next
  case (4 a b c s)
  then show ?case
    using group_merge(1,2) [where y = "byte_val b" and z = "byte_val c" and x = "byte_val a"]
      group_merge(3) [where y = "byte_val b" and z = "byte_val c"]
    by (simp add: sextet_char group_bounds Let_def)
qed

lemma b64_encode_set: "set (b64_encode s) \<subseteq> set (standard_alphabet @ ''='')"
  by (induction s rule: b64_encode.induct) (auto simp: sextet_char group_bounds)

lemma b64_encode_no_break: "filter (\<lambda>c. c \<noteq> CR \<and> c \<noteq> LF) (b64_encode s) = b64_encode s"
  by (induction s rule: b64_encode.induct) (auto simp: sextet_char group_bounds)

lemma b64_decode_encode: "b64_decode (b64_encode s) = Some s"
  by (simp only: b64_decode_def b64_encode_no_break b64_groups_encode)

lemma length_b64_encode: "length (b64_encode s) = (length s + 2) div 3 * 4"
proof (induction s rule: b64_encode.induct)
  case (4 a b c s)
  have "(length (a # b # c # s) + 2) div 3 = Suc ((length s + 2) div 3)" by simp
  with 4 show ?case by (simp only: b64_encode.simps list.size) simp
qed simp_all

section \<open>The swap\<close>

lemma length_swap_thirds [simp]: "length (swap_thirds s) = length s"
  by (simp add: swap_thirds_def Let_def)

lemma swap_thirds_twice: "swap_thirds (swap_thirds s) = s"
proof -
  define a where "a = length s div 3"
  define u where "u = take a s"
  define v where "v = drop a (take (length s - a) s)"
  define w where "w = drop (length s - a) s"
  have len: "a \<le> length s - a" by (simp add: a_def)
  have parts: "length u = a" "length w = a" using len by (auto simp: u_def w_def)
  have s: "s = u @ v @ w"
  proof -
    have "u = take a (take (length s - a) s)" using len by (simp add: u_def)
    then have "u @ v = take (length s - a) s" unfolding v_def by (metis append_take_drop_id)
    then show ?thesis by (simp add: w_def flip: append_assoc)
  qed
  have swap: "swap_thirds s = w @ v @ u" by (simp add: swap_thirds_def Let_def u_def v_def w_def a_def)
  have "swap_thirds (w @ v @ u) = u @ v @ w"
  proof -
    have l: "length (w @ v @ u) = length s" using s parts by (metis add.commute add.left_commute length_append)
    have "length s - a = length (w @ v)" using s parts by (metis add_diff_cancel_right' append_assoc l length_append)
    then show ?thesis unfolding swap_thirds_def Let_def l a_def [symmetric] using parts by simp
  qed
  with swap s show ?thesis by simp
qed

lemma set_swap_thirds: "set (swap_thirds s) \<subseteq> set s"
  by (auto simp: swap_thirds_def Let_def dest: in_set_takeD in_set_dropD)

lemma body_decodes: "decode_body (encode_body plain) = Inr plain"
proof (cases "plain = []")
  case True
  then show ?thesis by (simp add: encode_body_def decode_body_def)
next
  case False
  let ?t = "swap_thirds (b64_encode plain)"
  have len: "length (b64_encode plain) \<ge> 4"
    using False by (cases plain) (auto simp: length_b64_encode)
  have undone: "map (replace_byte decode_table) (map (replace_byte encode_table) ?t) = ?t"
    using set_swap_thirds b64_encode_set by (intro body_table.undo_all) blast
  have "?t \<noteq> []" using len by (metis length_swap_thirds list.size(3) not_numeral_le_zero)
  then show ?thesis
    using False len
    by (simp add: encode_body_def decode_body_def Let_def undone [unfolded map_map comp_def]
        swap_thirds_twice b64_decode_encode comp_def)
qed

text \<open>
  C34: decoding inverts encoding, for every body.  So two bodies are never sent as the same
  text, and neither the swap of the thirds nor the substitution loses a byte.
\<close>

theorem decode_encode_body: "decode_body (encode_body plain) = Inr plain"
  by (rule body_decodes)

text \<open>
  An encoded body has four characters for every three bytes begun, all from the custom
  alphabet and its padding character \<open>$\<close>: no quote, no backslash, no line break, and
  no character of the standard alphabet that the custom one does not have.
\<close>

lemma encode_body_alphabet:
  "set (encode_body plain) \<subseteq> set (custom_alphabet @ ''$'')
   \<and> length (encode_body plain) = (length plain + 2) div 3 * 4"
proof -
  have "list_all (\<lambda>c. List.member (custom_alphabet @ ''$'') (replace_byte encode_table c))
      (standard_alphabet @ ''='')" by code_simp
  then have "replace_byte encode_table c \<in> set (custom_alphabet @ ''$'')"
    if "c \<in> set (standard_alphabet @ ''='')" for c
    using that by (auto simp: list_all_iff)
  moreover have "set (swap_thirds (b64_encode plain)) \<subseteq> set (standard_alphabet @ ''='')"
    using set_swap_thirds b64_encode_set by blast
  ultimately show ?thesis by (auto simp: encode_body_def length_b64_encode)
qed

end
