(* ===== verification/Sha256.thy ===== *)
theory Sha256
  imports GoBase "HOL-Library.Word"
begin

text \<open>
  \<open>crypto/sha256.Sum256\<close> (FIPS 180-4) on bytes, over 32-bit words.  The program uses it
  for account and session identifiers, for the comparison of API keys and to spread the
  sessions over the accounts.
\<close>

unbundle bit_operations_syntax

text \<open>The eight words of 32 bits in a row of the table.\<close>

definition row_words :: "int \<Rightarrow> 32 word list" where
  "row_words n = map (\<lambda>i. of_int (n div 2 ^ (32 * i))) [7, 6, 5, 4, 3, 2, 1, 0]"

definition round_constants :: "32 word list" where
  "round_constants = concat (map row_words
    [0x428a2f9871374491b5c0fbcfe9b5dba53956c25b59f111f1923f82a4ab1c5ed5,
     0xd807aa9812835b01243185be550c7dc372be5d7480deb1fe9bdc06a7c19bf174,
     0xe49b69c1efbe47860fc19dc6240ca1cc2de92c6f4a7484aa5cb0a9dc76f988da,
     0x983e5152a831c66db00327c8bf597fc7c6e00bf3d5a7914706ca635114292967,
     0x27b70a852e1b21384d2c6dfc53380d13650a7354766a0abb81c2c92e92722c85,
     0xa2bfe8a1a81a664bc24b8b70c76c51a3d192e819d6990624f40e3585106aa070,
     0x19a4c1161e376c082748774c34b0bcb5391c0cb34ed8aa4a5b9cca4f682e6ff3,
     0x748f82ee78a5636f84c878148cc7020890befffaa4506cebbef9a3f7c67178f2])"

definition initial_hash :: "32 word list" where
  "initial_hash = row_words
     0x6a09e667bb67ae853c6ef372a54ff53a510e527f9b05688c1f83d9ab5be0cd19"

definition ror :: "nat \<Rightarrow> 32 word \<Rightarrow> 32 word" where
  "ror n w = drop_bit n w OR push_bit (32 - n) w"

definition schedule_word :: "32 word list \<Rightarrow> 32 word" where
  "schedule_word w =
    (let x = w ! 1; y = w ! 14;
         s0 = ror 7 x XOR ror 18 x XOR drop_bit 3 x;
         s1 = ror 17 y XOR ror 19 y XOR drop_bit 10 y
     in w ! 0 + s0 + w ! 9 + s1)"

text \<open>The window holds the last sixteen words of the message schedule.\<close>

fun sha_rounds :: "32 word list \<Rightarrow> 32 word list \<Rightarrow> 32 word list \<Rightarrow> 32 word list" where
  "sha_rounds [] w hs = hs"
| "sha_rounds (k # ks) w hs = (case hs of
      [a, b, c, d, e, f, g, h] \<Rightarrow>
        (let s1 = ror 6 e XOR ror 11 e XOR ror 25 e;
             ch = (e AND f) XOR (NOT e AND g);
             t1 = h + s1 + ch + k + w ! 0;
             s0 = ror 2 a XOR ror 13 a XOR ror 22 a;
             maj = (a AND b) XOR (a AND c) XOR (b AND c)
         in sha_rounds ks (tl w @ [schedule_word w]) [t1 + s0 + maj, a, b, c, d + t1, e, f, g])
    | _ \<Rightarrow> hs)"

definition word_of_bytes :: "string \<Rightarrow> 32 word" where
  "word_of_bytes bs = fold (\<lambda>c w. push_bit 8 w OR of_nat (of_char c)) bs 0"

definition bytes_of_word :: "32 word \<Rightarrow> string" where
  "bytes_of_word w = map (\<lambda>i. char_of (uint (drop_bit i w))) [24, 16, 8, 0]"

fun chunks_of :: "nat \<Rightarrow> 'a list \<Rightarrow> 'a list list" where
  "chunks_of n xs = (if n = 0 \<or> xs = [] then [] else take n xs # chunks_of n (drop n xs))"

declare chunks_of.simps [simp del]

definition sha_block :: "32 word list \<Rightarrow> string \<Rightarrow> 32 word list" where
  "sha_block hs b = map2 (+) hs (sha_rounds round_constants (map word_of_bytes (chunks_of 4 b)) hs)"

definition sha_pad :: "string \<Rightarrow> string" where
  "sha_pad s =
    (let zeros = (119 - length s mod 64) mod 64; bits = 8 * int (length s)
     in s @ CHR 0x80 # replicate zeros (CHR 0x00) @
        map (\<lambda>i. char_of (bits div 2 ^ (8 * i))) (rev [0..<8]))"

definition sha256 :: "string \<Rightarrow> string" where
  "sha256 s = concat (map bytes_of_word (fold (\<lambda>b hs. sha_block hs b) (chunks_of 64 (sha_pad s)) initial_hash))"

lemma length_sha_rounds [simp]: "length (sha_rounds ks w hs) = length hs"
  by (induction ks w hs rule: sha_rounds.induct) (auto simp: Let_def split: list.splits)

lemma length_sha_block [simp]: "length (sha_block hs b) = length hs"
  by (simp add: sha_block_def)

lemma length_bytes_of_word [simp]: "length (bytes_of_word w) = 4"
  by (simp add: bytes_of_word_def)

lemma length_fold_blocks [simp]: "length (fold (\<lambda>b hs. sha_block hs b) bs hs) = length hs"
  by (induction bs arbitrary: hs) simp_all

lemma length_sha256 [simp]: "length (sha256 s) = 32"
proof -
  have "length (concat (map bytes_of_word ws)) = 4 * length ws" for ws
    by (induction ws) simp_all
  then show ?thesis by (simp add: sha256_def initial_hash_def row_words_def)
qed

end
