(* ===== verification/JsonPrint.thy ===== *)
theory JsonPrint
  imports GoJson
begin

text \<open>
  \<open>json.Marshal\<close> and \<open>json.MarshalIndent\<close> with two blanks, as the sources use them:
  string literals are escaped rune by rune (also for HTML), an invalid byte becomes the
  replacement rune, and an object's members stand in the order of the value.  The
  round trip through the scanner is proved for values whose strings are valid UTF-8, whose
  numbers are number literals and whose nesting is at most 10000.
\<close>

section \<open>String literals\<close>

definition escape_ascii :: "char \<Rightarrow> string" where
  "escape_ascii c =
    (if c = DQ \<or> c = BSL then [BSL, c]
     else if c = CHR 0x08 then [BSL, CHR ''b'']
     else if c = CHR 0x0C then [BSL, CHR ''f'']
     else if c = LF then [BSL, CHR ''n'']
     else if c = CR then [BSL, CHR ''r'']
     else if c = TAB then [BSL, CHR ''t'']
     else if of_char c < (0x20 :: nat) \<or> c = CHR ''<'' \<or> c = CHR ''>'' \<or> c = CHR ''&''
     then [BSL, CHR ''u'', CHR ''0'', CHR ''0''] @ hex_byte c
     else [c])"

definition line_sep :: string where
  "line_sep = [CHR 0xE2, CHR 0x80, CHR 0xA8]"

definition para_sep :: string where
  "para_sep = [CHR 0xE2, CHR 0x80, CHR 0xA9]"

definition escape_rune :: "string \<Rightarrow> string" where
  "escape_rune r =
    (if r = line_sep then [BSL] @ ''u2028''
     else if r = para_sep then [BSL] @ ''u2029''
     else case r of [c] \<Rightarrow> escape_ascii c | _ \<Rightarrow> r)"

function json_quote :: "string \<Rightarrow> string" where
  "json_quote s = (case s of
      [] \<Rightarrow> []
    | c # r \<Rightarrow>
      (case utf8_len s of
         None \<Rightarrow> [BSL] @ ''ufffd'' @ json_quote r
       | Some n \<Rightarrow> escape_rune (take n s) @ json_quote (drop n s)))"
  by pat_completeness auto
termination
  by (relation "measure length") (auto dest!: utf8_len_pos)

declare json_quote.simps [simp del]

function valid_utf8 :: "string \<Rightarrow> bool" where
  "valid_utf8 s = (s = [] \<or> (case utf8_len s of None \<Rightarrow> False | Some n \<Rightarrow> valid_utf8 (drop n s)))"
  by pat_completeness auto
termination
  by (relation "measure length") (auto dest!: utf8_len_pos)

declare valid_utf8.simps [simp del]

section \<open>Values\<close>

definition line_break :: "bool \<Rightarrow> nat \<Rightarrow> string" where
  "line_break ind d = (if ind then LF # replicate (2 * d) (CHR '' '') else [])"

fun json_text :: "bool \<Rightarrow> nat \<Rightarrow> json \<Rightarrow> string"
  and json_elems :: "bool \<Rightarrow> nat \<Rightarrow> json list \<Rightarrow> string"
  and json_members :: "bool \<Rightarrow> nat \<Rightarrow> (string \<times> json) list \<Rightarrow> string" where
  "json_text ind d JNull = ''null''"
| "json_text ind d (JBool b) = (if b then ''true'' else ''false'')"
| "json_text ind d (JNum n) = n"
| "json_text ind d (JStr s) = DQ # json_quote s @ [DQ]"
| "json_text ind d (JArr js) =
     (if js = [] then ''[]'' else ''['' @ json_elems ind (Suc d) js @ line_break ind d @ '']'')"
| "json_text ind d (JObj kvs) =
     (if kvs = [] then ''{}'' else ''{'' @ json_members ind (Suc d) kvs @ line_break ind d @ ''}'')"
| "json_elems ind d [] = []"
| "json_elems ind d (j # js) =
     line_break ind d @ json_text ind d j @ (if js = [] then [] else '','' @ json_elems ind d js)"
| "json_members ind d [] = []"
| "json_members ind d ((k, j) # kvs) =
     line_break ind d @ DQ # json_quote k @ DQ # (if ind then '': '' else '':'') @ json_text ind d j @
     (if kvs = [] then [] else '','' @ json_members ind d kvs)"

definition json_marshal :: "json \<Rightarrow> string" where
  "json_marshal j = json_text False 0 j"

definition json_marshal_indent :: "json \<Rightarrow> string" where
  "json_marshal_indent j = json_text True 0 j"

section \<open>Literals survive\<close>

lemma utf8_len_take:
  assumes "utf8_len s = Some n"
  shows "utf8_len (take n s @ t) = Some n"
proof -
  obtain a s1 where s: "s = a # s1" using assms by (cases s) (auto simp: utf8_len_def)
  show ?thesis
  proof (cases "in_range 0 0x7F a")
    case True
    with assms s have "n = 1" by (simp add: utf8_len_def)
    with True s show ?thesis by (simp add: utf8_len_def)
  next
    case na: False
    then obtain b s2 where s1: "s1 = b # s2" using assms s by (cases s1) (auto simp: utf8_len_def)
    show ?thesis
    proof (cases "in_range 0xC2 0xDF a")
      case True
      with assms s s1 na show ?thesis by (simp add: utf8_len_def split: if_split_asm)
    next
      case nb: False
      then obtain c s3 where s2: "s2 = c # s3"
        using assms s s1 na by (cases s2) (auto simp: utf8_len_def)
      show ?thesis
      proof (cases "in_range 0xE0 0xEF a")
        case True
        with assms s s1 s2 na nb have "n = 3" by (simp add: utf8_len_def split: if_split_asm)
        with True assms s s1 s2 na nb show ?thesis by (simp add: utf8_len_def)
      next
        case nc: False
        then obtain d s4 where s3: "s3 = d # s4"
          using assms s s1 s2 na nb by (cases s3) (auto simp: utf8_len_def)
        with assms s s1 s2 na nb nc have "n = 4" by (simp add: utf8_len_def split: if_split_asm)
        with assms s s1 s2 s3 na nb nc show ?thesis by (simp add: utf8_len_def eval_nat_numeral)
      qed
    qed
  qed
qed

lemma hex_val_digit: "n < 16 \<Longrightarrow> hex_val (hex_digit n) = Some n"
proof -
  have "list_all (\<lambda>n. hex_val (hex_digit n) = Some n) [0..<16]" by code_simp
  then show "n < 16 \<Longrightarrow> hex_val (hex_digit n) = Some n" by (simp add: list_all_iff)
qed

lemma hex_digit_mod: "hex_digit n = hex_digit (n mod 16)"
  by (simp add: hex_digit_def)

lemma take_u4_byte: "take_u4 (CHR ''0'' # CHR ''0'' # hex_byte c @ t) = Some (of_char c, t)"
proof -
  have z: "hex_val (CHR ''0'') = Some 0" by code_simp
  have c: "of_char c < (256 :: nat)" using nat_of_char_less_256 [of c] by simp
  then have "hex_val (hex_digit (of_char c div 16)) = Some (of_char c div 16)"
    by (intro hex_val_digit) linarith
  moreover have "hex_val (hex_digit (of_char c)) = Some (of_char c mod 16)"
    using hex_val_digit [of "of_char c mod 16"] hex_digit_mod [of "of_char c"] by simp
  ultimately show ?thesis using z by (simp add: take_u4_def hex_byte_def)
qed

lemma utf8_encode_ascii: "of_char c < (0x80 :: nat) \<Longrightarrow> utf8_encode (of_char c) = [c]"
  by (simp add: utf8_encode_def)

lemma unquote_u4:
  "take_u4 r1 = Some (u, r2) \<Longrightarrow> \<not> is_surrogate u \<Longrightarrow>
   unquote (BSL # CHR ''u'' # r1) = utf8_encode u @ unquote r2"
  by (subst unquote.simps) simp

lemma unquote_esc: "e \<noteq> CHR ''u'' \<Longrightarrow> unquote (BSL # e # r) = escape_char e # unquote r"
  by (subst unquote.simps) simp

lemma utf8_len_ascii: "of_char c < (0x80 :: nat) \<Longrightarrow> utf8_len (c # s) = Some 1"
  by (simp add: utf8_len_def in_range_def)

lemma unquote_plain:
  "c \<noteq> BSL \<Longrightarrow> utf8_len (c # r) = Some n \<Longrightarrow> unquote (c # r) = take n (c # r) @ unquote (drop n (c # r))"
  by (subst unquote.simps) simp

lemma unquote_escape_ascii:
  assumes "of_char c < (0x80 :: nat)"
  shows "unquote (escape_ascii c @ t) = c # unquote t"
proof -
  have u: "unquote (BSL # CHR ''u'' # CHR ''0'' # CHR ''0'' # hex_byte c @ t) = c # unquote t"
    using unquote_u4 [OF take_u4_byte [of c t]] assms utf8_encode_ascii [OF assms]
    by (simp add: is_surrogate_def)
  have "c \<noteq> BSL \<Longrightarrow> unquote (c # t) = c # unquote t"
    using unquote_plain [of c t 1] utf8_len_ascii [OF assms, of t] by simp
  with u show ?thesis
    by (simp add: escape_ascii_def unquote_esc escape_char_def)
qed

lemma utf8_len_high:
  assumes "utf8_len s = Some n" and "n \<noteq> 1"
  shows "\<forall>c \<in> set (take n s). (0x80 :: nat) \<le> of_char c"
proof -
  obtain a s1 where s: "s = a # s1" using assms by (cases s) (auto simp: utf8_len_def)
  have na: "\<not> in_range 0 0x7F a" using assms s by (auto simp: utf8_len_def)
  then have a: "(0x80 :: nat) \<le> of_char a" by (simp add: in_range_def)
  obtain b s2 where s1: "s1 = b # s2" using assms s na by (cases s1) (auto simp: utf8_len_def)
  show ?thesis
  proof (cases "in_range 0xC2 0xDF a")
    case True
    with assms s s1 na a show ?thesis
      by (auto simp: utf8_len_def in_range_def eval_nat_numeral split: if_split_asm)
  next
    case nb: False
    then obtain c s3 where s2: "s2 = c # s3"
      using assms s s1 na by (cases s2) (auto simp: utf8_len_def)
    show ?thesis
    proof (cases "in_range 0xE0 0xEF a")
      case True
      with assms s s1 s2 na nb have "n = 3" and c: "cont_byte c"
        and "if a = CHR 0xE0 then in_range 0xA0 0xBF b
          else if a = CHR 0xED then in_range 0x80 0x9F b else cont_byte b"
        by (simp_all add: utf8_len_def split: if_split_asm)
      then have "(0x80 :: nat) \<le> of_char b" by (auto simp: in_range_def split: if_split_asm)
      with c a \<open>n = 3\<close> s s1 s2 show ?thesis by (simp add: in_range_def)
    next
      case nc: False
      then obtain d s4 where s3: "s3 = d # s4"
        using assms s s1 s2 na nb by (cases s3) (auto simp: utf8_len_def)
      with assms s s1 s2 na nb nc have "n = 4" and cd: "cont_byte c" "cont_byte d"
        and "if a = CHR 0xF0 then in_range 0x90 0xBF b
          else if a = CHR 0xF4 then in_range 0x80 0x8F b else cont_byte b"
        by (simp_all add: utf8_len_def split: if_split_asm)
      then have "(0x80 :: nat) \<le> of_char b" by (auto simp: in_range_def split: if_split_asm)
      with cd a \<open>n = 4\<close> s s1 s2 s3 show ?thesis by (simp add: in_range_def)
    qed
  qed
qed

lemma utf8_len_one: "utf8_len s = Some 1 \<Longrightarrow> \<exists>c r. s = c # r \<and> of_char c < (0x80 :: nat)"
  by (auto simp: utf8_len_def in_range_def split: list.splits if_splits)

lemma seps_len: "utf8_len (line_sep @ t) = Some 3" "utf8_len (para_sep @ t) = Some 3"
  by (simp_all add: utf8_len_def line_sep_def para_sep_def in_range_def)

lemma unquote_seps:
  "unquote (BSL # ''u2028'' @ t) = line_sep @ unquote t"
  "unquote (BSL # ''u2029'' @ t) = para_sep @ unquote t"
proof -
  have "hex_val (CHR ''2'') = Some 2" "hex_val (CHR ''0'') = Some 0" "hex_val (CHR ''8'') = Some 8"
    "hex_val (CHR ''9'') = Some 9" by code_simp+
  then have d: "take_u4 (''2028'' @ t) = Some (0x2028, t)" "take_u4 (''2029'' @ t) = Some (0x2029, t)"
    by (simp_all add: take_u4_def)
  have "utf8_encode 0x2028 = line_sep" "utf8_encode 0x2029 = para_sep"
    by (simp_all add: utf8_encode_def line_sep_def para_sep_def char_of_def bit_0)
  with unquote_u4 [OF d(1)] unquote_u4 [OF d(2)] show
    "unquote (BSL # ''u2028'' @ t) = line_sep @ unquote t"
    "unquote (BSL # ''u2029'' @ t) = para_sep @ unquote t"
    by (simp_all add: is_surrogate_def)
qed

lemma escape_rune_long:
  "length u \<noteq> 1 \<Longrightarrow> u \<noteq> line_sep \<Longrightarrow> u \<noteq> para_sep \<Longrightarrow> escape_rune u = u"
  by (auto simp: escape_rune_def split: list.splits)

lemma escape_rune_one: "escape_rune [c] = escape_ascii c"
  by (simp add: escape_rune_def line_sep_def para_sep_def)

lemma unquote_escape_rune:
  assumes "utf8_len s = Some n"
  shows "unquote (escape_rune (take n s) @ t) = take n s @ unquote t"
proof (cases "n = 1")
  case True
  with assms utf8_len_one obtain c r where "s = c # r" "of_char c < (0x80 :: nat)" by blast
  with True show ?thesis by (simp add: escape_rune_one unquote_escape_ascii)
next
  case n: False
  let ?u = "take n s"
  have len: "length ?u = n" using utf8_len_pos [OF assms] by simp
  show ?thesis
  proof (cases "?u = line_sep \<or> ?u = para_sep")
    case True
    then show ?thesis using unquote_seps [of t] by (auto simp: escape_rune_def line_sep_def para_sep_def)
  next
    case False
    with n len have e: "escape_rune ?u = ?u" by (intro escape_rune_long) auto
    from len utf8_len_pos [OF assms] obtain c r where u: "?u = c # r" by (cases ?u) auto
    have "c \<noteq> BSL" using utf8_len_high [OF assms n] u by auto
    moreover have "utf8_len (c # r @ t) = Some n" using utf8_len_take [OF assms, of t] u by simp
    ultimately have "unquote (c # r @ t) = take n (c # r @ t) @ unquote (drop n (c # r @ t))"
      by (rule unquote_plain)
    moreover have "take n (c # r @ t) = c # r" "drop n (c # r @ t) = t"
      using len u by (auto simp flip: append_Cons)
    ultimately show ?thesis using e u by simp
  qed
qed

lemma json_quote_bad:
  "utf8_len (c # r) = None \<Longrightarrow> json_quote (c # r) = (BSL # ''ufffd'') @ json_quote r"
  by (subst json_quote.simps) simp

lemma json_quote_rune:
  "utf8_len s = Some n \<Longrightarrow> json_quote s = escape_rune (take n s) @ json_quote (drop n s)"
  using utf8_len_pos [of s n] by (subst json_quote.simps) (auto split: list.splits)

lemma unquote_quote: "valid_utf8 s \<Longrightarrow> unquote (json_quote s) = s"
proof (induction s rule: json_quote.induct)
  case (1 s)
  show ?case
  proof (cases s)
    case Nil
    then show ?thesis by (simp add: json_quote.simps)
  next
    case (Cons c r)
    from 1(3) have "s = [] \<or> (case utf8_len s of None \<Rightarrow> False | Some n \<Rightarrow> valid_utf8 (drop n s))"
      by (subst (asm) valid_utf8.simps)
    with Cons obtain n where n: "utf8_len s = Some n" and v: "valid_utf8 (drop n s)"
      by (auto split: option.splits)
    with 1(2) Cons have "unquote (json_quote (drop n s)) = drop n s" by simp
    with unquote_escape_rune [OF n] show ?thesis by (simp add: json_quote_rune [OF n])
  qed
qed

section \<open>The scanner reads what was printed\<close>

lemma jrun_plain:
  "\<forall>c \<in> set u. c \<noteq> DQ \<and> c \<noteq> BSL \<and> (0x20 :: nat) \<le> of_char c \<Longrightarrow>
   jrun (st, InStr key raw) u = Some (st, InStr key (rev u @ raw))"
  by (induction u arbitrary: raw) (auto simp: in_range_def)

lemma jrun_hex_byte:
  "jrun (st, InStr key raw) ([BSL, CHR ''u'', CHR ''0'', CHR ''0''] @ hex_byte c) =
    Some (st, InStr key (rev ([BSL, CHR ''u'', CHR ''0'', CHR ''0''] @ hex_byte c) @ raw))"
proof -
  have z: "hex_val (CHR ''0'') = Some 0" by code_simp
  have "hex_val (hex_digit n) \<noteq> None" for n
    using hex_val_digit [of "n mod 16"] hex_digit_mod [of n] by simp
  with z show ?thesis by (simp add: hex_byte_def)
qed

lemma jrun_escape_ascii:
  assumes "of_char c < (0x80 :: nat)"
  shows "jrun (st, InStr key raw) (escape_ascii c) = Some (st, InStr key (rev (escape_ascii c) @ raw))"
proof (cases "c = DQ \<or> c = BSL \<or> c = CHR 0x08 \<or> c = CHR 0x0C \<or> c = LF \<or> c = CR \<or> c = TAB")
  case True
  then show ?thesis by (auto simp: escape_ascii_def)
next
  case False
  show ?thesis
  proof (cases "of_char c < (0x20 :: nat) \<or> c = CHR ''<'' \<or> c = CHR ''>'' \<or> c = CHR ''&''")
    case True
    with False have "escape_ascii c = [BSL, CHR ''u'', CHR ''0'', CHR ''0''] @ hex_byte c"
      by (simp add: escape_ascii_def)
    then show ?thesis by (simp only: jrun_hex_byte)
  next
    case plain: False
    with False have "escape_ascii c = [c]" by (simp add: escape_ascii_def)
    with False plain show ?thesis by (simp add: in_range_def)
  qed
qed

lemma jrun_u2028:
  "jrun (st, InStr key raw) (BSL # ''u2028'') = Some (st, InStr key (rev (BSL # ''u2028'') @ raw))"
  "jrun (st, InStr key raw) (BSL # ''u2029'') = Some (st, InStr key (rev (BSL # ''u2029'') @ raw))"
  "jrun (st, InStr key raw) (BSL # ''ufffd'') = Some (st, InStr key (rev (BSL # ''ufffd'') @ raw))"
proof -
  have "hex_val (CHR ''2'') = Some 2" "hex_val (CHR ''0'') = Some 0" "hex_val (CHR ''8'') = Some 8"
    "hex_val (CHR ''9'') = Some 9" "hex_val (CHR ''f'') = Some 15" "hex_val (CHR ''d'') = Some 13"
    by code_simp+
  then show
    "jrun (st, InStr key raw) (BSL # ''u2028'') = Some (st, InStr key (rev (BSL # ''u2028'') @ raw))"
    "jrun (st, InStr key raw) (BSL # ''u2029'') = Some (st, InStr key (rev (BSL # ''u2029'') @ raw))"
    "jrun (st, InStr key raw) (BSL # ''ufffd'') = Some (st, InStr key (rev (BSL # ''ufffd'') @ raw))"
    by simp_all
qed

lemma jrun_escape_rune:
  assumes "utf8_len s = Some n"
  shows "jrun (st, InStr key raw) (escape_rune (take n s)) =
    Some (st, InStr key (rev (escape_rune (take n s)) @ raw))"
proof (cases "n = 1")
  case True
  with assms utf8_len_one obtain c r where "s = c # r" "of_char c < (0x80 :: nat)" by blast
  with True show ?thesis by (simp add: escape_rune_one jrun_escape_ascii)
next
  case n: False
  show ?thesis
  proof (cases "take n s = line_sep \<or> take n s = para_sep")
    case True
    then show ?thesis using jrun_u2028 [of st key raw] by (auto simp: escape_rune_def line_sep_def para_sep_def)
  next
    case False
    have "length (take n s) = n" using utf8_len_pos [OF assms] by simp
    with n False have e: "escape_rune (take n s) = take n s" by (intro escape_rune_long) auto
    show ?thesis unfolding e using utf8_len_high [OF assms n] by (intro jrun_plain) fastforce
  qed
qed

lemma jrun_quote:
  "jrun (st, InStr key raw) (json_quote s) = Some (st, InStr key (rev (json_quote s) @ raw))"
proof (induction s arbitrary: raw rule: json_quote.induct)
  case (1 s)
  show ?case
  proof (cases s)
    case Nil
    then show ?thesis by (simp add: json_quote.simps)
  next
    case (Cons c r)
    show ?thesis
    proof (cases "utf8_len s")
      case None
      with Cons have q: "json_quote s = (BSL # ''ufffd'') @ json_quote r"
        using json_quote_bad by simp
      show ?thesis unfolding q jrun_append jrun_u2028 using 1(1) [OF Cons None] by simp
    next
      case (Some n)
      with Cons have q: "json_quote s = escape_rune (take n s) @ json_quote (drop n s)"
        using json_quote_rune by simp
      show ?thesis unfolding q jrun_append jrun_escape_rune [OF Some]
        using 1(2) [OF Cons Some] by simp
    qed
  qed
qed

lemma jrun_string:
  assumes "valid_utf8 s"
  shows "jrun (st, InStr False []) (json_quote s @ DQ # t) = jrun (finish_val st (JStr s)) t"
    and "jrun (FObj kvs k # st, InStr True []) (json_quote s @ DQ # t) = jrun (FObj kvs s # st, AfterKey) t"
  by (simp_all add: jrun_append jrun_quote end_string_def unquote_quote [OF assms])

text \<open>Values that can be printed and read back, with \<open>d\<close> frames already open.\<close>

fun num_run :: "num_state \<Rightarrow> string \<Rightarrow> num_state option" where
  "num_run n [] = Some n"
| "num_run n (c # s) = (case num_next n c of None \<Rightarrow> None | Some m \<Rightarrow> num_run m s)"

definition num_start :: "char \<Rightarrow> num_state option" where
  "num_start c = (if c = CHR ''-'' then Some NNeg else if c = CHR ''0'' then Some NZero
     else if is_19 c then Some NInt else None)"

definition is_number :: "string \<Rightarrow> bool" where
  "is_number s = (case s of [] \<Rightarrow> False | c # r \<Rightarrow>
     (case num_start c of None \<Rightarrow> False | Some n \<Rightarrow>
       (case num_run n r of None \<Rightarrow> False | Some m \<Rightarrow> num_final m)))"

fun json_ok :: "nat \<Rightarrow> json \<Rightarrow> bool"
  and elems_ok :: "nat \<Rightarrow> json list \<Rightarrow> bool"
  and members_ok :: "nat \<Rightarrow> (string \<times> json) list \<Rightarrow> bool" where
  "json_ok d JNull = True"
| "json_ok d (JBool b) = True"
| "json_ok d (JNum n) = is_number n"
| "json_ok d (JStr s) = valid_utf8 s"
| "json_ok d (JArr js) = (int d < 10000 \<and> elems_ok (Suc d) js)"
| "json_ok d (JObj kvs) = (int d < 10000 \<and> members_ok (Suc d) kvs)"
| "elems_ok d [] = True"
| "elems_ok d (j # js) = (json_ok d j \<and> elems_ok d js)"
| "members_ok d [] = True"
| "members_ok d ((k, j) # kvs) = (valid_utf8 k \<and> json_ok d j \<and> members_ok d kvs)"

definition delim :: "char \<Rightarrow> bool" where
  "delim c \<longleftrightarrow> c = CHR '','' \<or> c = CHR '']'' \<or> c = CHR ''}'' \<or> json_ws c"

lemma delim_num: "delim c \<Longrightarrow> num_next n c = None"
proof -
  have "list_all (\<lambda>c. list_all (\<lambda>n. num_next n c = None)
      [NNeg, NZero, NInt, NDot, NFrac, NExp, NExpSign, NExpInt])
      [CHR '','', CHR '']'', CHR ''}'', CHR '' '', TAB, LF, CR]" by code_simp
  then show "delim c \<Longrightarrow> num_next n c = None"
    by (cases n) (auto simp: delim_def json_ws_def)
qed

lemma jstep_finish: "jstep (finish_val st v) c = end_step (finish_val st v) c"
  by (cases "(st, v)" rule: finish_val.cases) auto

lemma jrun_number:
  assumes "num_run n r = Some m" and "num_final m" and "t \<noteq> []" and "delim (hd t)"
  shows "jrun (st, InNum n raw) (r @ t) = jrun (finish_val st (JNum (rev raw @ r))) t"
  using assms(1)
proof (induction r arbitrary: n raw)
  case Nil
  with assms show ?case
    by (cases t) (auto simp: delim_num jstep_finish split: option.splits)
next
  case (Cons c r)
  then show ?case by (auto split: option.splits)
qed

lemma num_start_step:
  "num_start c = Some n \<Longrightarrow> jstep (st, BeginVal e) c = Some (st, InNum n [c])"
proof -
  have nd: "list_all (\<lambda>c. \<not> is_digit c) [CHR ''{'', CHR ''['', DQ, CHR ''-'', CHR '' '', TAB, LF, CR, CHR '']'']"
    by code_simp
  assume *: "num_start c = Some n"
  then consider "c = CHR ''-''" "n = NNeg" | "c = CHR ''0''" "n = NZero"
    | "c \<noteq> CHR ''-''" "c \<noteq> CHR ''0''" "is_19 c" "n = NInt"
    by (auto simp: num_start_def split: if_splits)
  then show "jstep (st, BeginVal e) c = Some (st, InNum n [c])"
  proof cases
    case 3
    then have "is_digit c" by (simp add: is_19_def)
    with nd have "\<not> json_ws c \<and> c \<noteq> CHR '']'' \<and> c \<noteq> CHR ''{'' \<and> c \<noteq> CHR ''['' \<and> c \<noteq> DQ"
      by (auto simp: json_ws_def)
    with 3 show ?thesis by (simp add: begin_val_def)
  qed (simp_all add: begin_val_def json_ws_def)
qed

lemma jrun_is_number:
  assumes "is_number s" and "t \<noteq> []" and "delim (hd t)"
  shows "jrun (st, BeginVal e) (s @ t) = jrun (finish_val st (JNum s)) t"
proof -
  from assms(1) obtain c r n m where "s = c # r" "num_start c = Some n" "num_run n r = Some m" "num_final m"
    by (auto simp: is_number_def split: list.splits option.splits)
  with num_start_step [of c n st e] jrun_number [of n r m t st "[c]"] assms(2,3) show ?thesis by simp
qed

lemma jrun_blanks:
  assumes "p = EndVal \<and> st \<noteq> [] \<or> p = BeginVal e \<or> p = BeginKey e"
  shows "jrun (st, p) (line_break ind d @ u) = jrun (st, p) u"
proof -
  have step: "jstep (st, p) c = Some (st, p)" if "json_ws c" for c
  proof (cases "p = EndVal")
    case True
    with assms that show ?thesis by (cases st; cases "hd st") auto
  next
    case False
    with assms that show ?thesis by auto
  qed
  have "jrun (st, p) (replicate n (CHR '' '') @ u) = jrun (st, p) u" for n
    by (induction n) (simp_all add: step json_ws_def)
  with step show ?thesis by (simp add: line_break_def json_ws_def)
qed

lemma delim_end: "delim (hd (line_break ind d @ CHR '']'' # t))" "delim (hd (line_break ind d @ CHR ''}'' # t))"
  by (simp_all add: line_break_def delim_def json_ws_def)

lemma jrun_literals:
  "jrun (st, BeginVal e) (''null'' @ t) = jrun (finish_val st JNull) t"
  "jrun (st, BeginVal e) (''true'' @ t) = jrun (finish_val st (JBool True)) t"
  "jrun (st, BeginVal e) (''false'' @ t) = jrun (finish_val st (JBool False)) t"
  by (simp_all add: json_ws_def begin_val_def is_19_def is_digit_def)

lemma json_text_head:
  "json_ok n j \<Longrightarrow> json_text ind d j \<noteq> [] \<and> hd (json_text ind d j) \<noteq> CHR '']''"
  by (cases j) (auto simp: is_number_def num_start_def is_19_def is_digit_def split: list.splits if_splits)

lemma open_step:
  "int (length st) < 10000 \<Longrightarrow> jstep (st, BeginVal e) (CHR ''['') = Some (FArr [] # st, BeginVal True)"
  "int (length st) < 10000 \<Longrightarrow> jstep (st, BeginVal e) (CHR ''{'') = Some (FObj [] [] # st, BeginKey True)"
  "jstep (st, BeginVal e) DQ = Some (st, InStr False [])"
  by (simp_all add: json_ws_def begin_val_def push_frame_def)

lemma json_text_run:
  "json_ok (length st) j \<Longrightarrow> t \<noteq> [] \<Longrightarrow> delim (hd t) \<Longrightarrow>
     jrun (st, BeginVal e) (json_text ind d j @ t) = jrun (finish_val st j) t"
  "elems_ok (Suc (length st)) js \<Longrightarrow> js \<noteq> [] \<Longrightarrow>
     jrun (FArr vs # st, BeginVal e) (json_elems ind d js @ line_break ind d' @ CHR '']'' # t) =
     jrun (finish_val st (JArr (rev vs @ js))) t"
  "members_ok (Suc (length st)) kvs \<Longrightarrow> kvs \<noteq> [] \<Longrightarrow>
     jrun (FObj ms k0 # st, BeginKey e) (json_members ind d kvs @ line_break ind d' @ CHR ''}'' # t) =
     jrun (finish_val st (JObj (rev ms @ kvs))) t"
proof (induction ind d j and ind d js and ind d kvs arbitrary: st t e and st t e vs d' and st t e ms k0 d'
    rule: json_text_json_elems_json_members.induct)
  case (1 ind d)
  then show ?case by (simp only: json_text.simps jrun_literals)
next
  case (2 ind d b)
  then show ?case by (simp only: json_text.simps jrun_literals split: if_split) simp
next
  case (3 ind d n)
  then show ?case by (simp add: jrun_is_number)
next
  case (4 ind d s)
  then show ?case by (simp only: json_text.simps append_Cons jrun.simps open_step)
      (simp add: jrun_string)
next
  case (5 ind d js)
  then show ?case
    by (cases "js = []") (simp_all add: open_step del: jstep.simps, simp add: json_ws_def)
next
  case (6 ind d kvs)
  then show ?case
    by (cases "kvs = []") (simp_all add: open_step del: jstep.simps, simp add: json_ws_def)
next
  case (7 ind d)
  then show ?case by simp
next
  case (8 ind d j js)
  show ?case
  proof (cases "js = []")
    case True
    with 8 show ?thesis
      by (simp add: jrun_blanks delim_end) (simp add: json_ws_def)
  next
    case False
    with 8 show ?thesis
      by (simp add: jrun_blanks delim_def json_ws_def)
  qed
next
  case (9 ind d)
  then show ?case by simp
next
  case (10 ind d k j kvs)
  show ?case
  proof (cases "kvs = []")
    case True
    with 10 show ?thesis
      by (cases ind) (simp_all add: jrun_blanks delim_end jrun_string, simp_all add: json_ws_def)
  next
    case False
    with 10 show ?thesis
      by (cases ind) (simp_all add: jrun_blanks jrun_string delim_def json_ws_def)
  qed
qed

lemma json_parse_text:
  assumes "json_ok 0 j"
  shows "json_parse (json_text ind 0 j) = JOk j" and "json_parse (json_text ind 0 j @ [LF]) = JOk j"
proof -
  have run: "jrun ([], BeginVal False) (json_text ind 0 j @ [c]) = Some ([], EndTop j)" if "json_ws c" for c
    using json_text_run(1) [of "[]" j "[c]" False ind 0] assms that by (simp add: delim_def)
  have "json_ws (CHR '' '')" "json_ws LF" by (simp_all add: json_ws_def)
  from run [OF this(1)] obtain k where "jrun ([], BeginVal False) (json_text ind 0 j) = Some k"
    and "jstep k (CHR '' '') = Some ([], EndTop j)"
    by (auto simp: jrun_append split: option.splits)
  then show "json_parse (json_text ind 0 j) = JOk j" by (simp add: json_parse_def jeof_def)
  from run [OF \<open>json_ws LF\<close>] show "json_parse (json_text ind 0 j @ [LF]) = JOk j"
    by (simp add: json_parse_def jeof_def json_ws_def)
qed

lemma show_nat_head: "n \<noteq> 0 \<Longrightarrow> \<exists>c r. show_nat n = c # r \<and> c \<noteq> CHR ''0''"
proof (induction n rule: show_nat.induct)
  case (1 n)
  show ?case
  proof (cases "n < 10")
    case True
    have "digit_char n \<noteq> CHR ''0''"
    proof
      assume "digit_char n = CHR ''0''"
      then have "48 + n mod 10 = of_char (CHR ''0'')" by (metis of_char_digit_char)
      with True 1(2) show False by simp
    qed
    with True show ?thesis by (subst show_nat.simps) simp
  next
    case False
    then have "n div 10 \<noteq> 0" by linarith
    with 1 False obtain c r where "show_nat (n div 10) = c # r" "c \<noteq> CHR ''0''" by blast
    with False show ?thesis by (subst show_nat.simps) simp
  qed
qed

lemma num_run_digits: "list_all is_digit s \<Longrightarrow> num_run NInt s = Some NInt"
  by (induction s) (simp_all add: num_next_def)

lemma digit_starts:
  assumes "is_digit c" and "c \<noteq> CHR ''0''"
  shows "num_start c = Some NInt" and "num_next NNeg c = Some NInt"
proof -
  have "c \<noteq> CHR ''-''" using assms(1) by (auto simp: is_digit_def)
  with assms show "num_start c = Some NInt" by (simp add: num_start_def is_19_def)
  from assms show "num_next NNeg c = Some NInt" by (simp add: num_next_def)
qed

lemma is_number_show_int [simp]: "is_number (show_int n)"
proof (cases "n = 0")
  case True
  have "is_number (show_int 0)" by code_simp
  with True show ?thesis by simp
next
  case False
  have neg: "num_start (CHR ''-'') = Some NNeg" by (simp add: num_start_def)
  define m where "m = nat \<bar>n\<bar>"
  with False have "m \<noteq> 0" by simp
  then obtain c r where m: "show_nat m = c # r" "c \<noteq> CHR ''0''" using show_nat_head by blast
  then have "is_digit c" "list_all is_digit r" using show_nat_digits [of m] by simp_all
  with m digit_starts neg num_run_digits show ?thesis
    by (auto simp: show_int_def m_def is_number_def num_final_def)
qed

text \<open>The printed text of a value that satisfies \<open>json_ok\<close>, also with the line feed the
  credentials file has at its end, parses to that value.\<close>

lemma json_parse_marshal:
  "json_ok 0 j \<Longrightarrow> json_parse (json_marshal j) = JOk j"
  "json_ok 0 j \<Longrightarrow> json_parse (json_marshal_indent j @ [LF]) = JOk j"
  by (simp_all add: json_marshal_def json_marshal_indent_def json_parse_text)

end
