(* ===== verification/Credential.thy ===== *)
theory Credential
  imports Sha256 JsonPrint
begin

text \<open>
  \<open>internal/credential/store.go\<close>: the accounts, their validation and the credentials
  file.  The file system is a map from paths to files; every system call a store operation
  makes can fail, and a failing write leaves some of its bytes.  The bytes of the file are
  those of \<open>json.MarshalIndent\<close>.  Load, Upsert and Replace run under the store's mutex, so
  each is one step.
\<close>

section \<open>Accounts\<close>

record Account =
  acc_id :: string
  acc_region :: string
  acc_token_kind :: string
  acc_access_token :: string
  acc_refresh_token :: string
  acc_expires_at_ms :: int
  acc_user_id :: string
  acc_name :: string
  acc_email :: string
  acc_machine_id :: string
  acc_transport :: string

definition zero_account :: Account where
  "zero_account = \<lparr>acc_id = [], acc_region = [], acc_token_kind = [], acc_access_token = [],
     acc_refresh_token = [], acc_expires_at_ms = 0, acc_user_id = [], acc_name = [], acc_email = [],
     acc_machine_id = [], acc_transport = []\<rparr>"

definition anonymous_id :: "Account \<Rightarrow> string" where
  "anonymous_id a = take 12 (hex_encode (sha256
     (acc_region a @ [CHR 0x00] @ acc_user_id a @ [CHR 0x00] @ acc_id a)))"

datatype store_error =
    MissingFields
  | BadRegion
  | BadTokenKind
  | TooPermissive
  | ParseFailed
  | BadVersion int
  | BadAccount nat store_error
  | SysFailed string

definition validate_account :: "Account \<Rightarrow> store_error option" where
  "validate_account a =
    (if acc_id a = [] \<or> acc_user_id a = [] \<or> acc_access_token a = [] \<or> acc_machine_id a = []
     then Some MissingFields
     else if acc_region a \<noteq> ''global'' \<and> acc_region a \<noteq> ''cn'' then Some BadRegion
     else if acc_token_kind a \<noteq> ''job'' \<and> acc_token_kind a \<noteq> ''device'' then Some BadTokenKind
     else None)"

section \<open>The file's text\<close>

definition json_of_account :: "Account \<Rightarrow> json" where
  "json_of_account a = JObj
    ([(''id'', JStr (acc_id a)), (''region'', JStr (acc_region a)),
      (''token_kind'', JStr (acc_token_kind a)), (''access_token'', JStr (acc_access_token a))] @
     (if acc_refresh_token a = [] then [] else [(''refresh_token'', JStr (acc_refresh_token a))]) @
     [(''expires_at_ms'', jint (acc_expires_at_ms a)), (''user_id'', JStr (acc_user_id a))] @
     (if acc_name a = [] then [] else [(''name'', JStr (acc_name a))]) @
     (if acc_email a = [] then [] else [(''email'', JStr (acc_email a))]) @
     [(''machine_id'', JStr (acc_machine_id a))] @
     (if acc_transport a = [] then [] else [(''transport'', JStr (acc_transport a))]))"

definition account_field :: "string \<Rightarrow> Account dec" where
  "account_field k j r =
    (if key_is ''id'' k then map_option (\<lambda>x. r\<lparr>acc_id := x\<rparr>) (dec_string j (acc_id r))
     else if key_is ''region'' k then map_option (\<lambda>x. r\<lparr>acc_region := x\<rparr>) (dec_string j (acc_region r))
     else if key_is ''token_kind'' k then
       map_option (\<lambda>x. r\<lparr>acc_token_kind := x\<rparr>) (dec_string j (acc_token_kind r))
     else if key_is ''access_token'' k then
       map_option (\<lambda>x. r\<lparr>acc_access_token := x\<rparr>) (dec_string j (acc_access_token r))
     else if key_is ''refresh_token'' k then
       map_option (\<lambda>x. r\<lparr>acc_refresh_token := x\<rparr>) (dec_string j (acc_refresh_token r))
     else if key_is ''expires_at_ms'' k then
       map_option (\<lambda>x. r\<lparr>acc_expires_at_ms := x\<rparr>) (dec_int j (acc_expires_at_ms r))
     else if key_is ''user_id'' k then map_option (\<lambda>x. r\<lparr>acc_user_id := x\<rparr>) (dec_string j (acc_user_id r))
     else if key_is ''name'' k then map_option (\<lambda>x. r\<lparr>acc_name := x\<rparr>) (dec_string j (acc_name r))
     else if key_is ''email'' k then map_option (\<lambda>x. r\<lparr>acc_email := x\<rparr>) (dec_string j (acc_email r))
     else if key_is ''machine_id'' k then
       map_option (\<lambda>x. r\<lparr>acc_machine_id := x\<rparr>) (dec_string j (acc_machine_id r))
     else if key_is ''transport'' k then
       map_option (\<lambda>x. r\<lparr>acc_transport := x\<rparr>) (dec_string j (acc_transport r))
     else Some r)"

definition dec_account :: "Account dec" where
  "dec_account = dec_struct account_field"

record fileShape =
  fs_version :: int
  fs_accounts :: "Account list"

definition json_of_file :: "fileShape \<Rightarrow> json" where
  "json_of_file f = JObj
    [(''version'', jint (fs_version f)), (''accounts'', JArr (map json_of_account (fs_accounts f)))]"

definition dec_file :: "fileShape dec" where
  "dec_file = dec_struct (\<lambda>k j r.
     if key_is ''version'' k then map_option (\<lambda>x. r\<lparr>fs_version := x\<rparr>) (dec_int j (fs_version r))
     else if key_is ''accounts'' k then
       map_option (\<lambda>x. r\<lparr>fs_accounts := x\<rparr>) (dec_list dec_account zero_account j (fs_accounts r))
     else Some r)"

section \<open>The file system\<close>

record FileNode =
  f_perm :: nat
  f_data :: string

type_synonym files = "string \<Rightarrow> FileNode option"

datatype syscall =
    SysStat | SysRead | SysMkdirAll | SysCreateTemp | SysChmodTemp | SysWrite | SysSync | SysClose
  | SysRename | SysChmod | SysRemove

text \<open>The environment of one operation: which of its calls fail, the name \<open>CreateTemp\<close>
  chooses, and how much a failing write leaves behind.\<close>

record io_env =
  io_fails :: "syscall \<Rightarrow> bool"
  io_tmp :: string
  io_partial :: nat
  io_windows :: bool

record Store =
  st_path :: string

fun first_invalid :: "nat \<Rightarrow> Account list \<Rightarrow> store_error option" where
  "first_invalid i [] = None"
| "first_invalid i (a # as) = (case validate_account a of
      Some e \<Rightarrow> Some (BadAccount i e)
    | None \<Rightarrow> first_invalid (Suc i) as)"

definition load_locked :: "io_env \<Rightarrow> Store \<Rightarrow> files \<Rightarrow> store_error + Account list" where
  "load_locked env s fs =
    (if io_fails env SysStat then Inl (SysFailed ''stat'')
     else (case fs (st_path s) of
         None \<Rightarrow> Inr []
       | Some f \<Rightarrow>
         if \<not> io_windows env \<and> f_perm f mod 64 \<noteq> 0 then Inl TooPermissive
         else if io_fails env SysRead then Inl (SysFailed ''read'')
         else (case json_parse (f_data f) of
             JOk j \<Rightarrow>
               (case dec_file j \<lparr>fs_version = 0, fs_accounts = []\<rparr> of
                  None \<Rightarrow> Inl ParseFailed
                | Some shape \<Rightarrow>
                  if fs_version shape \<noteq> 1 then Inl (BadVersion (fs_version shape))
                  else (case first_invalid 0 (fs_accounts shape) of
                      Some e \<Rightarrow> Inl e
                    | None \<Rightarrow> Inr (fs_accounts shape)))
           | _ \<Rightarrow> Inl ParseFailed)))"

definition file_text :: "Account list \<Rightarrow> string" where
  "file_text accounts = json_marshal_indent (json_of_file \<lparr>fs_version = 1, fs_accounts = accounts\<rparr>) @ [LF]"

definition remove_file :: "io_env \<Rightarrow> string \<Rightarrow> files \<Rightarrow> files" where
  "remove_file env p fs = (if io_fails env SysRemove then fs else fs(p := None))"

text \<open>Permission bits are written out: 0600 is 384.\<close>

definition write_locked :: "io_env \<Rightarrow> Store \<Rightarrow> Account list \<Rightarrow> files \<Rightarrow> store_error option \<times> files" where
  "write_locked env s accounts fs =
    (let tmp = io_tmp env; b = file_text accounts;
         part = fs(tmp \<mapsto> \<lparr>f_perm = 384, f_data = take (io_partial env) b\<rparr>);
         full = fs(tmp \<mapsto> \<lparr>f_perm = 384, f_data = b\<rparr>);
         moved = full(st_path s \<mapsto> \<lparr>f_perm = 384, f_data = b\<rparr>, tmp := None)
     in if io_fails env SysMkdirAll then (Some (SysFailed ''mkdir''), fs)
        else if io_fails env SysCreateTemp then (Some (SysFailed ''create''), fs)
        else if io_fails env SysChmodTemp then
          (Some (SysFailed ''chmod''), remove_file env tmp (fs(tmp \<mapsto> \<lparr>f_perm = 384, f_data = []\<rparr>)))
        else if io_fails env SysWrite then (Some (SysFailed ''write''), remove_file env tmp part)
        else if io_fails env SysSync then (Some (SysFailed ''sync''), remove_file env tmp full)
        else if io_fails env SysClose then (Some (SysFailed ''close''), remove_file env tmp full)
        else if io_fails env SysRename then (Some (SysFailed ''rename''), remove_file env tmp full)
        else if io_fails env SysChmod then (Some (SysFailed ''chmod''), remove_file env tmp moved)
        else (None, moved))"

section \<open>The operations\<close>

definition same_account :: "Account \<Rightarrow> Account \<Rightarrow> bool" where
  "same_account x a \<longleftrightarrow>
    acc_id x = acc_id a \<or> (acc_region x = acc_region a \<and> acc_user_id x = acc_user_id a)"

fun upsert_list :: "Account \<Rightarrow> Account list \<Rightarrow> Account list" where
  "upsert_list a [] = [a]"
| "upsert_list a (x # xs) = (if same_account x a then a # xs else x # upsert_list a xs)"

definition upsert :: "io_env \<Rightarrow> Store \<Rightarrow> Account \<Rightarrow> files \<Rightarrow> store_error option \<times> files" where
  "upsert env s account fs = (case validate_account account of
      Some e \<Rightarrow> (Some e, fs)
    | None \<Rightarrow>
      (case load_locked env s fs of
         Inl e \<Rightarrow> (Some e, fs)
       | Inr accounts \<Rightarrow> write_locked env s (upsert_list account accounts) fs))"

fun any_invalid :: "Account list \<Rightarrow> store_error option" where
  "any_invalid [] = None"
| "any_invalid (a # as) = (case validate_account a of Some e \<Rightarrow> Some e | None \<Rightarrow> any_invalid as)"

definition replace_accounts :: "io_env \<Rightarrow> Store \<Rightarrow> Account list \<Rightarrow> files \<Rightarrow> store_error option \<times> files" where
  "replace_accounts env s accounts fs = (case any_invalid accounts of
      Some e \<Rightarrow> (Some e, fs)
    | None \<Rightarrow> write_locked env s accounts fs)"

section \<open>The file is read back\<close>

definition account_fields :: "string list" where
  "account_fields = [''id'', ''region'', ''token_kind'', ''access_token'', ''refresh_token'',
     ''expires_at_ms'', ''user_id'', ''name'', ''email'', ''machine_id'', ''transport'']"

lemma account_keys:
  "list_all (\<lambda>a. list_all (\<lambda>b. key_is a b \<longleftrightarrow> a = b) account_fields) account_fields"
proof -
  have "list_all plain_name account_fields" by code_simp
  then show ?thesis by (simp add: list_all_iff key_is_plain)
qed

lemmas account_key_facts = account_keys [unfolded account_fields_def, simplified]

lemma dec_members_append:
  "dec_members h (xs @ ys) r = (case dec_members h xs r of None \<Rightarrow> None | Some r' \<Rightarrow> dec_members h ys r')"
  by (induction xs arbitrary: r) (auto split: option.splits)

lemma account_field_simps [simp]:
  "account_field ''id'' (JStr x) r = Some (r\<lparr>acc_id := x\<rparr>)"
  "account_field ''region'' (JStr x) r = Some (r\<lparr>acc_region := x\<rparr>)"
  "account_field ''token_kind'' (JStr x) r = Some (r\<lparr>acc_token_kind := x\<rparr>)"
  "account_field ''access_token'' (JStr x) r = Some (r\<lparr>acc_access_token := x\<rparr>)"
  "account_field ''refresh_token'' (JStr x) r = Some (r\<lparr>acc_refresh_token := x\<rparr>)"
  "in64 n \<Longrightarrow> account_field ''expires_at_ms'' (jint n) r = Some (r\<lparr>acc_expires_at_ms := n\<rparr>)"
  "account_field ''user_id'' (JStr x) r = Some (r\<lparr>acc_user_id := x\<rparr>)"
  "account_field ''name'' (JStr x) r = Some (r\<lparr>acc_name := x\<rparr>)"
  "account_field ''email'' (JStr x) r = Some (r\<lparr>acc_email := x\<rparr>)"
  "account_field ''machine_id'' (JStr x) r = Some (r\<lparr>acc_machine_id := x\<rparr>)"
  "account_field ''transport'' (JStr x) r = Some (r\<lparr>acc_transport := x\<rparr>)"
  by (simp_all add: account_field_def account_key_facts)

lemma optional_fields:
  "acc_refresh_token r = [] \<Longrightarrow>
    dec_members account_field (if v = [] then [] else [(''refresh_token'', JStr v)]) r = Some (r\<lparr>acc_refresh_token := v\<rparr>)"
  "acc_name r = [] \<Longrightarrow>
    dec_members account_field (if v = [] then [] else [(''name'', JStr v)]) r = Some (r\<lparr>acc_name := v\<rparr>)"
  "acc_email r = [] \<Longrightarrow>
    dec_members account_field (if v = [] then [] else [(''email'', JStr v)]) r = Some (r\<lparr>acc_email := v\<rparr>)"
  "acc_transport r = [] \<Longrightarrow>
    dec_members account_field (if v = [] then [] else [(''transport'', JStr v)]) r = Some (r\<lparr>acc_transport := v\<rparr>)"
  by auto

lemma dec_account_json:
  "in64 (acc_expires_at_ms a) \<Longrightarrow> dec_account (json_of_account a) zero_account = Some a"
  by (cases a) (simp add: json_of_account_def dec_account_def dec_struct_def dec_members_append
      optional_fields zero_account_def del: append.simps)

lemma file_keys: "list_all (\<lambda>a. list_all (\<lambda>b. key_is a b \<longleftrightarrow> a = b) [''version'', ''accounts'']) [''version'', ''accounts'']"
proof -
  have "list_all plain_name [''version'', ''accounts'']" by code_simp
  then show ?thesis by (auto simp: list_all_iff key_is_plain)
qed

lemma dec_all_accounts:
  "list_all (\<lambda>a. in64 (acc_expires_at_ms a)) as \<Longrightarrow>
   dec_all dec_account zero_account (map json_of_account as) = Some as"
  by (induction as) (simp_all add: dec_account_json)

lemma dec_file_json:
  assumes "in64 (fs_version f)" and "list_all (\<lambda>a. in64 (acc_expires_at_ms a)) (fs_accounts f)"
  shows "dec_file (json_of_file f) \<lparr>fs_version = 0, fs_accounts = []\<rparr> = Some f"
  using assms file_keys
  by (cases f) (simp add: json_of_file_def dec_file_def dec_struct_def dec_list_def dec_all_accounts)

definition text_account :: "Account \<Rightarrow> bool" where
  "text_account a \<longleftrightarrow> in64 (acc_expires_at_ms a) \<and> list_all valid_utf8
     [acc_id a, acc_region a, acc_token_kind a, acc_access_token a, acc_refresh_token a, acc_user_id a,
      acc_name a, acc_email a, acc_machine_id a, acc_transport a]"

lemma valid_field: "list_all valid_utf8 account_fields" "valid_utf8 ''version''" "valid_utf8 ''accounts''"
  by code_simp+

lemma members_ok_append: "members_ok d (xs @ ys) \<longleftrightarrow> members_ok d xs \<and> members_ok d ys"
  by (induction xs) auto

lemma json_ok_jint [simp]: "json_ok d (jint n)"
  by (simp add: jint_def)

lemma json_ok_account: "text_account a \<Longrightarrow> int d < 10000 \<Longrightarrow> json_ok d (json_of_account a)"
  using valid_field(1)
  by (simp add: json_of_account_def text_account_def members_ok_append account_fields_def)

lemma json_ok_file:
  assumes "list_all text_account as"
  shows "json_ok 0 (json_of_file \<lparr>fs_version = v, fs_accounts = as\<rparr>)"
proof -
  from assms have "elems_ok 2 (map json_of_account as)"
    by (induction as) (simp_all add: json_ok_account)
  then show ?thesis using valid_field(2,3)
    by (simp add: json_of_file_def eval_nat_numeral)
qed

lemma first_invalid_None: "first_invalid i as = None \<longleftrightarrow> any_invalid as = None"
  by (induction as arbitrary: i) (auto split: option.splits)

lemma any_invalid_None: "any_invalid as = None \<longleftrightarrow> (\<forall>a \<in> set as. validate_account a = None)"
  by (induction as) (auto split: option.splits)

lemma load_file_text:
  assumes "fs (st_path s) = Some \<lparr>f_perm = 384, f_data = file_text as\<rparr>"
    and "list_all text_account as" and "any_invalid as = None"
    and "\<not> io_fails env SysStat" and "\<not> io_fails env SysRead"
  shows "load_locked env s fs = Inr as"
proof -
  have "list_all (\<lambda>a. in64 (acc_expires_at_ms a)) as"
    using assms(2) by (auto simp: list_all_iff text_account_def)
  then have "dec_file (json_of_file \<lparr>fs_version = 1, fs_accounts = as\<rparr>) \<lparr>fs_version = 0, fs_accounts = []\<rparr>
      = Some \<lparr>fs_version = 1, fs_accounts = as\<rparr>"
    by (intro dec_file_json) (simp_all add: in64_def)
  moreover have "first_invalid 0 as = None" using assms(3) by (simp only: first_invalid_None)
  ultimately show ?thesis using assms
    by (simp add: load_locked_def file_text_def json_parse_marshal json_ok_file)
qed

lemma load_valid: "load_locked env s fs = Inr as \<Longrightarrow> any_invalid as = None"
  by (auto simp: load_locked_def first_invalid_None split: if_splits option.splits json_verdict.splits)

lemma write_locked_ok:
  assumes "write_locked env s as fs = (None, fs')" and "io_tmp env \<noteq> st_path s"
  shows "fs' (st_path s) = Some \<lparr>f_perm = 384, f_data = file_text as\<rparr>"
  using assms by (auto simp: write_locked_def Let_def split: if_splits)

lemma upsert_list_set: "set (upsert_list a xs) \<subseteq> insert a (set xs)"
  by (induction xs) auto

section \<open>Properties\<close>

lemma write_locked_path:
  "io_tmp env \<noteq> st_path s \<Longrightarrow> snd (write_locked env s as fs) (st_path s) = fs (st_path s) \<or>
   snd (write_locked env s as fs) (st_path s) = Some \<lparr>f_perm = 384, f_data = file_text as\<rparr>"
  by (auto simp: write_locked_def Let_def remove_file_def)

lemma write_locked_other:
  "p \<noteq> st_path s \<Longrightarrow> p \<noteq> io_tmp env \<Longrightarrow> snd (write_locked env s as fs) p = fs p"
  by (auto simp: write_locked_def Let_def remove_file_def)

lemma load_depends: "fs (st_path s) = fs' (st_path s) \<Longrightarrow> load_locked env s fs = load_locked env s fs'"
  by (simp add: load_locked_def)

text \<open>
  C17: replacing the file is all or nothing.  Whatever system call fails, and however much of
  the text a failing write leaves behind, the next load finds the accounts that were there
  before or the new ones, never a mixture and never a damaged file.  No other file changes
  apart from the temporary one.
\<close>

theorem replace_all_or_nothing:
  assumes "io_tmp env \<noteq> st_path s" and "list_all text_account as"
    and "\<not> io_fails env' SysStat" and "\<not> io_fails env' SysRead"
  shows "load_locked env' s (snd (replace_accounts env s as fs)) \<in> {load_locked env' s fs, Inr as}
    \<and> (\<forall>p. p \<in> {st_path s, io_tmp env} \<or> snd (replace_accounts env s as fs) p = fs p)"
proof (cases "any_invalid as")
  case (Some e)
  then show ?thesis by (simp add: replace_accounts_def)
next
  case None
  let ?fs = "snd (write_locked env s as fs)"
  have "load_locked env' s ?fs \<in> {load_locked env' s fs, Inr as}"
    using write_locked_path [OF assms(1), of as fs] load_depends [of ?fs s fs env']
      load_file_text [of ?fs s as env'] assms None by auto
  moreover have "\<forall>p. p \<in> {st_path s, io_tmp env} \<or> ?fs p = fs p"
    by (metis insert_iff write_locked_other)
  ultimately show ?thesis using None by (simp add: replace_accounts_def)
qed

text \<open>An account, a store and environments for the concrete instances.\<close>

definition sample_account :: "string \<Rightarrow> string \<Rightarrow> Account" where
  "sample_account ident user = zero_account\<lparr>acc_id := ident, acc_region := ''global'', acc_token_kind := ''job'',
     acc_access_token := ''jt-1'', acc_expires_at_ms := 1700000000000, acc_user_id := user, acc_machine_id := ''m''\<rparr>"

definition env_failing :: "syscall list \<Rightarrow> io_env" where
  "env_failing cs = \<lparr>io_fails = (\<lambda>c. c \<in> set cs), io_tmp = ''.credentials-1.tmp'', io_partial = 20, io_windows = False\<rparr>"

lemma sample_text: "list_all text_account [sample_account ''global-u'' ''u'']"
proof -
  have "list_all valid_utf8 [''global-u'', ''u'', ''global'', ''job'', ''jt-1'', ''m'', '''']" by code_simp
  then show ?thesis by (simp add: text_account_def sample_account_def zero_account_def in64_def)
qed

lemma sample_valid: "any_invalid [sample_account ''global-u'' ''u''] = None"
  by (simp add: validate_account_def sample_account_def)

theorem replace_all_or_nothing_witness:
  "load_locked (env_failing []) \<lparr>st_path = ''c.json''\<rparr>
     (snd (replace_accounts (env_failing [SysWrite, SysRemove]) \<lparr>st_path = ''c.json''\<rparr>
        [sample_account ''global-u'' ''u''] Map.empty))
   \<in> {Inr [], Inr [sample_account ''global-u'' ''u'']}"
  using replace_all_or_nothing [of "env_failing [SysWrite, SysRemove]" "\<lparr>st_path = ''c.json''\<rparr>"
      "[sample_account ''global-u'' ''u'']" "env_failing []" Map.empty] sample_text
  by (simp add: env_failing_def load_locked_def)

text \<open>
  What was written is read.  After a replacement that reports no error, loading gives
  back exactly the accounts that were stored, in their order, with every field.
\<close>

lemma replace_then_load:
  assumes "replace_accounts env s as fs = (None, fs')" and "io_tmp env \<noteq> st_path s"
    and "list_all text_account as" and "\<not> io_fails env' SysStat" and "\<not> io_fails env' SysRead"
  shows "load_locked env' s fs' = Inr as"
proof -
  from assms(1) have valid: "any_invalid as = None" and "write_locked env s as fs = (None, fs')"
    by (auto simp: replace_accounts_def split: option.splits)
  with write_locked_ok assms(2) have "fs' (st_path s) = Some \<lparr>f_perm = 384, f_data = file_text as\<rparr>"
    by blast
  then show ?thesis using assms(3-5) valid by (intro load_file_text)
qed

lemma replace_then_load_witness:
  "load_locked (env_failing []) \<lparr>st_path = ''c.json''\<rparr>
     (snd (replace_accounts (env_failing []) \<lparr>st_path = ''c.json''\<rparr> [sample_account ''global-u'' ''u''] Map.empty))
   = Inr [sample_account ''global-u'' ''u'']"
proof -
  have "fst (replace_accounts (env_failing []) \<lparr>st_path = ''c.json''\<rparr>
      [sample_account ''global-u'' ''u''] Map.empty) = None"
    using sample_valid by (simp add: replace_accounts_def write_locked_def Let_def env_failing_def)
  then have "replace_accounts (env_failing []) \<lparr>st_path = ''c.json''\<rparr> [sample_account ''global-u'' ''u''] Map.empty =
    (None, snd (replace_accounts (env_failing []) \<lparr>st_path = ''c.json''\<rparr> [sample_account ''global-u'' ''u''] Map.empty))"
    by (metis prod.collapse)
  from replace_then_load [OF this _ sample_text, of "env_failing []"] show ?thesis
    by (simp add: env_failing_def)
qed

lemma upsert_loads:
  assumes "upsert env s a fs = (None, fs')" and "load_locked env s fs = Inr as"
    and "io_tmp env \<noteq> st_path s" and "list_all text_account (a # as)"
    and "\<not> io_fails env' SysStat" and "\<not> io_fails env' SysRead"
  shows "load_locked env' s fs' = Inr (upsert_list a as)"
proof -
  from assms(1,2) have a: "validate_account a = None"
    and w: "write_locked env s (upsert_list a as) fs = (None, fs')"
    by (auto simp: upsert_def split: option.splits)
  have sub: "set (upsert_list a as) \<subseteq> insert a (set as)" by (rule upsert_list_set)
  have "any_invalid (upsert_list a as) = None"
    using a load_valid [OF assms(2)] sub by (auto simp: any_invalid_None)
  moreover have "list_all text_account (upsert_list a as)"
    using assms(4) sub by (auto simp: list_all_iff)
  ultimately show ?thesis
    using write_locked_ok [OF w assms(3)] assms(5,6) by (intro load_file_text)
qed

text \<open>
  An upsert that reports no error has the effect of the list operation on the stored
  accounts: the first account with the same identity is replaced in its place, otherwise the
  account is added at the end, and all others stay as they were.
\<close>

lemma upsert_then_load:
  assumes "upsert env s a fs = (None, fs')" and "load_locked env s fs = Inr as"
    and "io_tmp env \<noteq> st_path s" and "list_all text_account (a # as)"
    and "\<not> io_fails env' SysStat" and "\<not> io_fails env' SysRead"
  shows "load_locked env' s fs' = Inr (upsert_list a as)"
  using assms by (rule upsert_loads)

lemma upsert_then_load_witness:
  "load_locked (env_failing []) \<lparr>st_path = ''c.json''\<rparr>
     (snd (upsert (env_failing []) \<lparr>st_path = ''c.json''\<rparr> (sample_account ''global-u'' ''u'') Map.empty))
   = Inr [sample_account ''global-u'' ''u'']"
proof -
  let ?s = "\<lparr>st_path = ''c.json''\<rparr>" and ?a = "sample_account ''global-u'' ''u''"
  have load: "load_locked (env_failing []) ?s Map.empty = Inr []"
    by (simp add: load_locked_def env_failing_def)
  moreover have "validate_account ?a = None" using sample_valid by (simp split: option.splits)
  ultimately have "fst (upsert (env_failing []) ?s ?a Map.empty) = None"
    by (simp add: upsert_def write_locked_def Let_def env_failing_def)
  then have "upsert (env_failing []) ?s ?a Map.empty = (None, snd (upsert (env_failing []) ?s ?a Map.empty))"
    by (metis prod.collapse)
  from upsert_then_load [OF this load, of "env_failing []"] sample_text show ?thesis
    by (simp add: env_failing_def)
qed

text \<open>Accounts as the authentication client names them.\<close>

definition canonical :: "Account \<Rightarrow> bool" where
  "canonical a \<longleftrightarrow> acc_region a \<in> {''global'', ''cn''} \<and> acc_id a = acc_region a @ ''-'' @ acc_user_id a"

lemma canonical_same: "canonical x \<Longrightarrow> canonical a \<Longrightarrow> same_account x a \<longleftrightarrow> acc_id x = acc_id a"
  by (auto simp: canonical_def same_account_def)

text \<open>
  Identities stay unique.  For accounts whose id is made of the region and the user, as
  the authentication client makes them, an upsert keeps the ids of the stored accounts
  distinct, and the stored account with the new one's id is the new one.
\<close>

lemma upsert_keeps_ids_distinct:
  assumes "distinct (map acc_id as)" and "list_all canonical (a # as)"
  shows "distinct (map acc_id (upsert_list a as)) \<and> set (map acc_id (upsert_list a as)) = insert (acc_id a) (set (map acc_id as))
    \<and> list_all canonical (upsert_list a as) \<and> a \<in> set (upsert_list a as)"
  using assms
proof (induction as)
  case Nil
  then show ?case by simp
next
  case (Cons x xs)
  then show ?case by (auto simp: canonical_same)
qed

lemma upsert_keeps_ids_distinct_witness:
  "distinct (map acc_id (upsert_list (sample_account ''global-u'' ''u'') [sample_account ''global-v'' ''v'', sample_account ''global-u'' ''u'']))"
  using upsert_keeps_ids_distinct [of "[sample_account ''global-v'' ''v'', sample_account ''global-u'' ''u'']"
      "sample_account ''global-u'' ''u''"]
  by (simp add: sample_account_def canonical_def)

text \<open>
  In general they do not.  The file may hold accounts with other ids, since validation
  only asks for a non-empty one; when the new account shares its region and user with one
  entry and its id with a later one, the first is replaced and two entries have one id.
\<close>

lemma upsert_can_duplicate_id:
  "\<exists>a as. any_invalid (a # as) = None \<and> distinct (map acc_id as) \<and> \<not> distinct (map acc_id (upsert_list a as))"
  by (rule exI [of _ "sample_account ''second'' ''u''"],
      rule exI [of _ "[sample_account ''first'' ''u'', sample_account ''second'' ''v'']"])
    (simp add: validate_account_def sample_account_def same_account_def)

text \<open>
  Loading trusts nothing.  Outside Windows the accounts come from a file that only its
  owner can read or from no file at all, and every one of them passed the validation.
\<close>

lemma load_checks:
  assumes "load_locked env s fs = Inr as" and "\<not> io_windows env"
  shows "(\<forall>a \<in> set as. acc_id a \<noteq> [] \<and> acc_user_id a \<noteq> [] \<and> acc_access_token a \<noteq> [] \<and> acc_machine_id a \<noteq> []
      \<and> acc_region a \<in> {''global'', ''cn''} \<and> acc_token_kind a \<in> {''job'', ''device''})
    \<and> (case fs (st_path s) of None \<Rightarrow> as = [] | Some f \<Rightarrow> f_perm f mod 64 = 0)"
proof
  from load_valid [OF assms(1)] have "\<forall>a \<in> set as. validate_account a = None"
    by (simp add: any_invalid_None)
  then show "\<forall>a \<in> set as. acc_id a \<noteq> [] \<and> acc_user_id a \<noteq> [] \<and> acc_access_token a \<noteq> [] \<and> acc_machine_id a \<noteq> []
      \<and> acc_region a \<in> {''global'', ''cn''} \<and> acc_token_kind a \<in> {''job'', ''device''}"
    by (auto simp: validate_account_def split: if_splits)
  from assms show "case fs (st_path s) of None \<Rightarrow> as = [] | Some f \<Rightarrow> f_perm f mod 64 = 0"
    by (auto simp: load_locked_def split: if_splits option.splits)
qed

lemma load_checks_witness:
  "acc_machine_id (sample_account ''global-u'' ''u'') \<noteq> []"
proof -
  let ?fs = "[''c.json'' \<mapsto> \<lparr>f_perm = 384, f_data = file_text [sample_account ''global-u'' ''u'']\<rparr>]"
  have "load_locked (env_failing []) \<lparr>st_path = ''c.json''\<rparr> ?fs = Inr [sample_account ''global-u'' ''u'']"
    using sample_text sample_valid by (intro load_file_text) (simp_all add: env_failing_def)
  from load_checks [OF this] show ?thesis by (simp add: env_failing_def)
qed

end
