(* ===== verification/Pool.thy ===== *)
theory Pool
  imports Credential "HOL-Library.List_Lexorder" "HOL-Library.Char_ord"
begin

text \<open>
  \<open>internal/pool/pool.go\<close>: the accounts in use, each with its state, and their selection.
  An entry is named by its position in the pool, as the code names it by its pointer.  An
  operation that locks an entry is one step; it reads the clock once, \<open>now\<close> in nanoseconds.
  The world \<open>'w\<close> is whatever the refresher talks to.
\<close>

section \<open>Entries\<close>

datatype EntryState = Healthy | Cooldown | Disabled | AuthError

fun state_name :: "EntryState \<Rightarrow> string" where
  "state_name Healthy = ''healthy''"
| "state_name Cooldown = ''cooldown''"
| "state_name Disabled = ''disabled''"
| "state_name AuthError = ''auth_error''"

record Entry =
  en_account :: Account
  en_state :: EntryState
  en_cooldown_until :: instant
  en_disabled_until :: instant
  en_transport :: string
  en_last_error :: string

definition disabled_recovery :: duration where
  "disabled_recovery = 5 * minute"

definition snapshot :: "int \<Rightarrow> Entry \<Rightarrow> Entry" where
  "snapshot now e =
    (if en_state e = Cooldown \<and> now_after now (en_cooldown_until e) then e\<lparr>en_state := Healthy\<rparr>
     else if en_state e = Disabled \<and> en_disabled_until e \<noteq> None \<and> now_after now (en_disabled_until e)
     then e\<lparr>en_state := Healthy, en_disabled_until := None\<rparr>
     else e)"

definition set_transport :: "string \<Rightarrow> Entry \<Rightarrow> Entry" where
  "set_transport name e = e\<lparr>en_transport := name\<rparr>"

section \<open>The pool\<close>

record Pool =
  pl_entries :: "Entry list"
  pl_rr :: int
  pl_refresh_before :: duration

definition new_entry :: "Account \<Rightarrow> Entry" where
  "new_entry a = \<lparr>en_account = a, en_state = Healthy, en_cooldown_until = None, en_disabled_until = None,
     en_transport = acc_transport a, en_last_error = []\<rparr>"

definition new_pool :: "Account list \<Rightarrow> Pool" where
  "new_pool accounts =
    \<lparr>pl_entries = sort_key (\<lambda>e. acc_id (en_account e)) (map new_entry accounts), pl_rr = 0,
     pl_refresh_before = 5 * minute\<rparr>"

abbreviation on_entries :: "(Entry list \<Rightarrow> Entry list) \<Rightarrow> Pool \<Rightarrow> Pool" where
  "on_entries f p \<equiv> p\<lparr>pl_entries := f (pl_entries p)\<rparr>"

definition on_entry :: "nat \<Rightarrow> (Entry \<Rightarrow> Entry) \<Rightarrow> Pool \<Rightarrow> Pool" where
  "on_entry i f p = (if i < length (pl_entries p)
     then p\<lparr>pl_entries := (pl_entries p)[i := f (pl_entries p ! i)]\<rparr> else p)"

definition pool_count :: "Pool \<Rightarrow> nat" where
  "pool_count p = length (pl_entries p)"

definition snapshot_all :: "int \<Rightarrow> Pool \<Rightarrow> Pool" where
  "snapshot_all now = on_entries (map (snapshot now))"

definition available :: "int \<Rightarrow> Pool \<Rightarrow> nat \<times> Pool" where
  "available now p =
    (let p = snapshot_all now p
     in (length (filter (\<lambda>e. en_state e = Healthy) (pl_entries p)), p))"

datatype select_error = NoHealthyAccount | IndexPanic

definition candidates :: "string set \<Rightarrow> Pool \<Rightarrow> nat list" where
  "candidates excluded p =
    filter (\<lambda>i. en_state (pl_entries p ! i) = Healthy \<and> acc_id (en_account (pl_entries p ! i)) \<notin> excluded)
      [0..<length (pl_entries p)]"

text \<open>\<open>int(p.rr.Add(1) - 1) % len(candidates)\<close>: the counter is unsigned and the index of a
  negative remainder panics.\<close>

definition select :: "int \<Rightarrow> string \<Rightarrow> string set \<Rightarrow> Pool \<Rightarrow> (select_error + nat) \<times> Pool" where
  "select now session excluded p =
    (let p = snapshot_all now p; cs = candidates excluded p in
     if cs = [] then (Inl NoHealthyAccount, p)
     else if session \<noteq> [] then
       (Inr (cs ! (of_char (sha256 session ! 0) mod length cs)), p)
     else
       (let idx = go_mod (wrap64 (pl_rr p)) (int (length cs));
            p = p\<lparr>pl_rr := (pl_rr p + 1) mod 2 ^ 64\<rparr>
        in if idx < 0 then (Inl IndexPanic, p) else (Inr (cs ! nat idx), p)))"

definition mark_auth_error :: "nat \<Rightarrow> Pool \<Rightarrow> Pool" where
  "mark_auth_error i = on_entry i (\<lambda>e. e\<lparr>en_state := AuthError, en_last_error := ''authentication rejected''\<rparr>)"

definition mark_disabled :: "int \<Rightarrow> nat \<Rightarrow> string \<Rightarrow> Pool \<Rightarrow> Pool" where
  "mark_disabled now i reason = on_entry i (\<lambda>e. e\<lparr>en_state := Disabled,
     en_disabled_until := Some (now + disabled_recovery), en_last_error := reason\<rparr>)"

definition mark_cooldown :: "int \<Rightarrow> nat \<Rightarrow> duration \<Rightarrow> Pool \<Rightarrow> Pool" where
  "mark_cooldown now i d =
    (let d = (if d \<le> 0 then minute else d)
     in on_entry i (\<lambda>e. e\<lparr>en_state := Cooldown, en_cooldown_until := Some (now + d),
          en_last_error := ''rate limited''\<rparr>))"

definition recover_entry :: "string \<Rightarrow> Entry \<Rightarrow> Entry" where
  "recover_entry ident e = (if acc_id (en_account e) = ident
     then e\<lparr>en_state := Healthy, en_cooldown_until := None, en_last_error := []\<rparr> else e)"

definition recover :: "string \<Rightarrow> Pool \<Rightarrow> Pool" where
  "recover ident = on_entries (map (recover_entry ident))"

record Status =
  stat_id :: string
  stat_region :: string
  stat_state :: string
  stat_transport :: string
  stat_last_error :: string
  stat_cooldown_until :: instant

definition status_of :: "Entry \<Rightarrow> Status" where
  "status_of e = \<lparr>stat_id = anonymous_id (en_account e), stat_region = acc_region (en_account e),
     stat_state = state_name (en_state e), stat_transport = en_transport e,
     stat_last_error = en_last_error e, stat_cooldown_until = en_cooldown_until e\<rparr>"

definition statuses :: "int \<Rightarrow> Pool \<Rightarrow> Status list \<times> Pool" where
  "statuses now p = (let p = snapshot_all now p in (map status_of (pl_entries p), p))"

text \<open>\<open>AdminEntries\<close>: what its callback is given, in order.\<close>

definition admin_entries :: "int \<Rightarrow> Pool \<Rightarrow> (Account \<times> EntryState) list \<times> Pool" where
  "admin_entries now p =
    (let p = snapshot_all now p in (map (\<lambda>e. (en_account e, en_state e)) (pl_entries p), p))"

section \<open>Refreshing\<close>

text \<open>\<open>pool.Refresher\<close>: its answer, and the world afterwards.  \<open>EnsureFresh\<close> ignores the account
  that comes with an error.\<close>

type_synonym ('e, 'w) refresher = "Account \<Rightarrow> 'w \<Rightarrow> ('e + Account) \<times> 'w"

datatype 'e fresh_error = NoRefresher | RefreshFailed 'e | PersistFailed store_error

definition pool_accounts :: "Pool \<Rightarrow> Account list" where
  "pool_accounts p = map en_account (pl_entries p)"

text \<open>Both results of \<open>EnsureFresh\<close>: the account and the error.\<close>

definition ensure_fresh ::
  "('e, 'w) refresher option \<Rightarrow> Store option \<Rightarrow> io_env \<Rightarrow> int \<Rightarrow> nat \<Rightarrow> bool \<Rightarrow> Pool \<Rightarrow> files \<Rightarrow> 'w \<Rightarrow>
   (Account \<times> 'e fresh_error option) \<times> Pool \<times> files \<times> 'w" where
  "ensure_fresh refresher store env now i force p fs w =
    (let a = en_account (pl_entries p ! i); now_ms = now div millisecond in
     if \<not> force \<and> acc_expires_at_ms a > now_ms + pl_refresh_before p div millisecond
     then ((a, None), p, fs, w)
     else (case refresher of
         None \<Rightarrow> ((a, Some NoRefresher), p, fs, w)
       | Some refresh \<Rightarrow>
         (case refresh a w of
            (Inl e, w') \<Rightarrow>
              ((a, Some (RefreshFailed e)), on_entry i (\<lambda>x. x\<lparr>en_last_error := ''token refresh failed''\<rparr>) p, fs, w')
          | (Inr b, w') \<Rightarrow>
              (let p' = on_entry i (\<lambda>x. x\<lparr>en_account := b, en_state := Healthy, en_last_error := []\<rparr>) p in
               case store of
                 None \<Rightarrow> ((b, None), p', fs, w')
               | Some s \<Rightarrow>
                   (case replace_accounts env s (pool_accounts p') fs of
                      (None, fs') \<Rightarrow> ((b, None), p', fs', w')
                    | (Some e, fs') \<Rightarrow> ((b, Some (PersistFailed e)), p', fs', w'))))))"

section \<open>What the operations keep\<close>

named_theorems pool_defs

declare snapshot_all_def [pool_defs] on_entry_def [pool_defs] recover_def [pool_defs]
  mark_auth_error_def [pool_defs] mark_disabled_def [pool_defs] mark_cooldown_def [pool_defs]

lemma snapshot_account [simp]: "en_account (snapshot now e) = en_account e"
  by (simp add: snapshot_def)

lemma snapshot_idem [simp]: "snapshot now (snapshot now e) = snapshot now e"
  by (auto simp: snapshot_def)

lemma recover_account [simp]: "en_account (recover_entry ident e) = en_account e"
  by (simp add: recover_entry_def)

lemma pool_accounts_simps [simp]:
  "pool_accounts (snapshot_all now p) = pool_accounts p"
  "pool_accounts (recover ident p) = pool_accounts p"
  "pool_accounts (p\<lparr>pl_rr := n\<rparr>) = pool_accounts p"
  by (simp_all add: pool_accounts_def pool_defs)

lemma length_entries [simp]:
  "length (pl_entries (snapshot_all now p)) = length (pl_entries p)"
  "length (pl_entries (on_entry i f p)) = length (pl_entries p)"
  by (simp_all add: pool_defs)

lemma length_pool_accounts [simp]: "length (pool_accounts p) = length (pl_entries p)"
  by (simp add: pool_accounts_def)

lemma on_entry_accounts:
  "pool_accounts (on_entry i f p) = (if i < length (pl_entries p)
     then (pool_accounts p)[i := en_account (f (pl_entries p ! i))] else pool_accounts p)"
  by (simp add: pool_accounts_def on_entry_def map_update)

lemma on_entry_same_accounts:
  "(\<And>e. en_account (f e) = en_account e) \<Longrightarrow> pool_accounts (on_entry i f p) = pool_accounts p"
  unfolding pool_accounts_def on_entry_def
  by (simp add: map_update) (metis list_update_id nth_map)

lemma mark_accounts [simp]:
  "pool_accounts (mark_auth_error i p) = pool_accounts p"
  "pool_accounts (mark_disabled now i r p) = pool_accounts p"
  "pool_accounts (mark_cooldown now i d p) = pool_accounts p"
  "pool_accounts (on_entry i (set_transport name) p) = pool_accounts p"
  by (simp_all add: mark_auth_error_def mark_disabled_def mark_cooldown_def on_entry_same_accounts set_transport_def Let_def)

lemma select_accounts [simp]: "pool_accounts (snd (select now session excluded p)) = pool_accounts p"
  by (simp add: select_def Let_def)

lemma length_select [simp]:
  "length (pl_entries (snd (select now session excluded p))) = length (pl_entries p)"
  by (simp add: select_def Let_def)

lemma nth_snapshot_all:
  "i < length (pl_entries p) \<Longrightarrow> pl_entries (snapshot_all now p) ! i = snapshot now (pl_entries p ! i)"
  by (simp add: snapshot_all_def)

lemma candidates_iff:
  "i \<in> set (candidates excluded p) \<longleftrightarrow> i < length (pl_entries p) \<and>
     en_state (pl_entries p ! i) = Healthy \<and> acc_id (en_account (pl_entries p ! i)) \<notin> excluded"
  by (auto simp: candidates_def)

lemma distinct_candidates [simp]: "distinct (candidates excluded p)"
  by (simp add: candidates_def)

lemma candidates_rr [simp]: "candidates excluded (p\<lparr>pl_rr := n\<rparr>) = candidates excluded p"
  by (simp add: candidates_def)

lemma entries_select: "pl_entries (snd (select now session excluded p)) = pl_entries (snapshot_all now p)"
  by (simp add: select_def Let_def)

text \<open>What is selected is a candidate; the counter only moves for requests without a session.\<close>

lemma select_candidate:
  assumes "select now session excluded p = (Inr i, p')"
  shows "i \<in> set (candidates excluded (snapshot_all now p))"
proof -
  let ?cs = "candidates excluded (snapshot_all now p)"
  have ne: "?cs \<noteq> []" using assms by (auto simp: select_def Let_def)
  have "of_char (sha256 session ! 0) mod length ?cs < length ?cs" using ne by simp
  moreover have "nat (go_mod x (int (length ?cs))) < length ?cs" for x
  proof -
    have "\<bar>x\<bar> mod int (length ?cs) < int (length ?cs)" using ne by simp
    moreover have "0 \<le> \<bar>x\<bar> mod int (length ?cs)" using ne by simp
    moreover from this have "go_mod x (int (length ?cs)) \<le> \<bar>x\<bar> mod int (length ?cs)"
      by (cases "x = 0"; cases "x < 0") (auto simp: go_mod_def)
    ultimately show ?thesis using ne by linarith
  qed
  ultimately show ?thesis using assms
    by (auto simp: select_def Let_def split: if_splits)
qed

lemma candidates_healthy:
  assumes "i \<in> set (candidates excluded (snapshot_all now p))"
  shows "i < length (pl_entries p)" and "en_state (pl_entries (snapshot_all now p) ! i) = Healthy"
    and "acc_id (pool_accounts p ! i) \<notin> excluded"
  using assms by (auto simp: candidates_iff nth_snapshot_all pool_accounts_def)

text \<open>
  C23: a selected account can be used.  It is in the pool, it is healthy at that moment, and
  it is not excluded; \<open>Select\<close> finds no account exactly when no entry is healthy and not
  excluded; and as long as fewer than \<open>2 ^ 63\<close> requests came without a session, it never
  panics.
\<close>

theorem select_sound:
  assumes "0 \<le> pl_rr p" and "pl_rr p < 2 ^ 63"
  shows "case select now session excluded p of (r, p') \<Rightarrow>
     pl_entries p' = map (snapshot now) (pl_entries p) \<and>
     (case r of
        Inr i \<Rightarrow> i < pool_count p \<and> en_state (pl_entries p' ! i) = Healthy \<and>
          acc_id (en_account (pl_entries p' ! i)) \<notin> excluded
      | Inl e \<Rightarrow> e = NoHealthyAccount \<and>
          \<not> (\<exists>x \<in> set (pl_entries p'). en_state x = Healthy \<and> acc_id (en_account x) \<notin> excluded))"
proof -
  obtain r p' where sel: "select now session excluded p = (r, p')" by fastforce
  have ents: "pl_entries p' = pl_entries (snapshot_all now p)"
    using entries_select [of now session excluded p] sel by simp
  let ?q = "snapshot_all now p"
  have rr: "pl_rr ?q = pl_rr p" by (simp add: snapshot_all_def)
  have pos: "0 \<le> go_mod (wrap64 (pl_rr p)) (int n)" if "0 < n" for n
    using assms that by (simp add: go_mod_nonneg)
  show ?thesis
  proof (cases r)
    case (Inl e)
    with sel have "candidates excluded ?q = []" "e = NoHealthyAccount"
      using pos [of "length (candidates excluded ?q)"] by (auto simp: select_def Let_def rr split: if_splits)
    moreover have "x \<notin> set (pl_entries p') \<or> en_state x \<noteq> Healthy \<or> acc_id (en_account x) \<in> excluded" for x
    proof -
      have "\<forall>i. i \<notin> set (candidates excluded ?q)" using calculation by simp
      then have "\<forall>i < length (pl_entries ?q). en_state (pl_entries ?q ! i) \<noteq> Healthy
          \<or> acc_id (en_account (pl_entries ?q ! i)) \<in> excluded"
        by (simp only: candidates_iff) blast
      then show ?thesis unfolding ents in_set_conv_nth by blast
    qed
    ultimately show ?thesis using sel ents Inl by (auto simp: snapshot_all_def)
  next
    case (Inr i)
    from select_candidate [of now session excluded p i p'] sel Inr
    have "i \<in> set (candidates excluded ?q)" by simp
    then show ?thesis using sel Inr ents
      by (auto simp: candidates_iff pool_count_def snapshot_all_def)
  qed
qed

theorem select_sound_witness:
  "case select 0 [] {} (new_pool [sample_account ''global-u'' ''u'']) of (r, p') \<Rightarrow>
     pl_entries p' = map (snapshot 0) (pl_entries (new_pool [sample_account ''global-u'' ''u'']))"
  using select_sound [where p = "new_pool [sample_account ''global-u'' ''u'']" and now = 0 and session = "[]" and excluded = "{}"]
  by (simp add: new_pool_def split: prod.splits)

text \<open>
  A session stays with its account.  While the healthy, not excluded accounts are the
  same, requests with the same session key get the same one, whatever other requests were
  served in between.
\<close>

lemma select_sticky:
  assumes "session \<noteq> []"
    and "candidates excluded (snapshot_all now1 p1) = candidates excluded (snapshot_all now2 p2)"
  shows "fst (select now1 session excluded p1) = fst (select now2 session excluded p2)"
  using assms by (simp add: select_def Let_def)

lemma select_sticky_witness:
  "fst (select 0 ''chat'' {} (new_pool [sample_account ''global-u'' ''u''])) =
   fst (select 5 ''chat'' {} ((new_pool [sample_account ''global-u'' ''u''])\<lparr>pl_rr := 17\<rparr>))"
  by (rule select_sticky) (simp_all add: new_pool_def new_entry_def snapshot_all_def candidates_def snapshot_def)

section \<open>Round robin\<close>

fun select_run :: "nat \<Rightarrow> int \<Rightarrow> string set \<Rightarrow> Pool \<Rightarrow> (select_error + nat) list" where
  "select_run 0 now excluded p = []"
| "select_run (Suc n) now excluded p =
     (let (r, p') = select now [] excluded p in r # select_run n now excluded p')"

lemma snapshot_all_select: "snapshot_all now (snd (select now [] excluded p)) =
    snd (select now [] excluded p)"
  by (simp add: select_def Let_def snapshot_all_def comp_def)

lemma candidates_select:
  "candidates excluded (snapshot_all now (snd (select now [] excluded p))) =
   candidates excluded (snapshot_all now p)"
  by (simp add: snapshot_all_select) (simp add: select_def Let_def)

lemma select_round_robin:
  assumes "candidates excluded (snapshot_all now p) = cs" and "cs \<noteq> []"
    and "0 \<le> pl_rr p" and "pl_rr p + 1 < 2 ^ 63"
  shows "fst (select now [] excluded p) = Inr (cs ! (nat (pl_rr p) mod length cs))"
    and "pl_rr (snd (select now [] excluded p)) = pl_rr p + 1"
proof -
  have "go_mod (wrap64 (pl_rr p)) (int (length cs)) = int (nat (pl_rr p) mod length cs)"
    using assms by (simp add: go_mod_nonneg zmod_int)
  moreover have "(pl_rr p + 1) mod 2 ^ 64 = pl_rr p + 1" using assms(3,4) by simp
  moreover have "pl_rr (snapshot_all now p) = pl_rr p" by (simp add: snapshot_all_def)
  ultimately show "fst (select now [] excluded p) = Inr (cs ! (nat (pl_rr p) mod length cs))"
    and "pl_rr (snd (select now [] excluded p)) = pl_rr p + 1"
    using assms by (simp_all add: select_def Let_def)
qed

lemma select_run_round_robin:
  assumes "candidates excluded (snapshot_all now p) = cs" and "cs \<noteq> []"
    and "0 \<le> pl_rr p" and "pl_rr p + int n < 2 ^ 63"
  shows "select_run n now excluded p = map (\<lambda>k. Inr (cs ! ((k + nat (pl_rr p)) mod length cs))) [0..<n]"
  using assms
proof (induction n arbitrary: p)
  case 0
  then show ?case by simp
next
  case (Suc n)
  obtain r p' where sel: "select now [] excluded p = (r, p')" by fastforce
  have one: "r = Inr (cs ! (nat (pl_rr p) mod length cs))" "pl_rr p' = pl_rr p + 1"
    using select_round_robin [of excluded now p cs] Suc.prems sel by simp_all
  have "candidates excluded (snapshot_all now p') = cs"
    using candidates_select [of excluded now p] sel Suc.prems(1) by simp
  with Suc one have "select_run n now excluded p' =
      map (\<lambda>k. Inr (cs ! ((k + nat (pl_rr p + 1)) mod length cs))) [0..<n]" by simp
  moreover have "nat (pl_rr p + 1) = Suc (nat (pl_rr p))" using Suc.prems(3) by simp
  ultimately show ?case using sel one(1) by (simp add: map_upt_Suc del: upt_Suc)
qed

text \<open>
  C24: round robin is fair.  While the candidates do not change, as many requests without a
  session as there are candidates get each of them exactly once, in the pool's order,
  starting where the counter stands.
\<close>

theorem select_fair:
  assumes "candidates excluded (snapshot_all now p) = cs" and "cs \<noteq> []"
    and "0 \<le> pl_rr p" and "pl_rr p + int (length cs) < 2 ^ 63"
  shows "select_run (length cs) now excluded p = map Inr (rotate (nat (pl_rr p)) cs) \<and> distinct cs"
proof -
  have "map (\<lambda>k. cs ! ((k + nat (pl_rr p)) mod length cs)) [0..<length cs] = rotate (nat (pl_rr p)) cs"
    by (rule nth_equalityI) (simp_all add: nth_rotate add.commute)
  then have "map (\<lambda>k. Inr (cs ! ((k + nat (pl_rr p)) mod length cs)) :: select_error + nat) [0..<length cs] =
      map Inr (rotate (nat (pl_rr p)) cs)"
    by (metis (no_types, lifting) list.map_comp comp_def map_eq_conv)
  with select_run_round_robin [OF assms(1-4)] assms(1) show ?thesis by auto
qed

definition sample_pool :: Pool where
  "sample_pool = \<lparr>pl_entries = map new_entry
     [sample_account ''a'' ''a'', sample_account ''b'' ''b'', sample_account ''c'' ''c''],
     pl_rr = 1, pl_refresh_before = 5 * minute\<rparr>"

lemma sample_pool_candidates: "candidates {} (snapshot_all 0 sample_pool) = [0, 1, 2]"
  by (simp add: sample_pool_def snapshot_all_def candidates_def new_entry_def snapshot_def upt_rec)

theorem select_fair_witness: "select_run 3 0 {} sample_pool = [Inr 1, Inr 2, Inr 0]"
  using select_fair [OF sample_pool_candidates]
  by (simp add: sample_pool_def rotate1_def eval_nat_numeral)

text \<open>
  After \<open>2 ^ 63\<close> requests without a session the counter, read as a signed number, is
  negative, and with three candidates the selection indexes a slice with a negative number.
\<close>

lemma select_counter_panics:
  "fst (select 0 [] {} (sample_pool\<lparr>pl_rr := 2 ^ 63\<rparr>)) = Inl IndexPanic"
proof -
  have "snapshot_all 0 (sample_pool\<lparr>pl_rr := 2 ^ 63\<rparr>) = (snapshot_all 0 sample_pool)\<lparr>pl_rr := 2 ^ 63\<rparr>"
    by (simp add: snapshot_all_def)
  then show ?thesis
    using sample_pool_candidates by (simp add: select_def Let_def wrap64_def go_mod_def)
qed

section \<open>Suspension\<close>

lemma nth_on_entry:
  "i < length (pl_entries p) \<Longrightarrow> j < length (pl_entries p) \<Longrightarrow>
   pl_entries (on_entry i f p) ! j = (if i = j then f (pl_entries p ! i) else pl_entries p ! j)"
  by (simp add: on_entry_def nth_list_update)

text \<open>
  A suspended account comes back by itself, and not before its time.  After a 403 an
  entry is disabled for five minutes; after a 429 it is in cooldown for the time asked for,
  a minute where that is not positive.  Every look at the entry before the end finds the
  suspension, every look after it a healthy account.
\<close>

lemma suspension_ends:
  assumes "i < pool_count p"
  shows "en_state (snapshot now (pl_entries (mark_disabled t i reason p) ! i)) =
      (if now > t + 5 * minute then Healthy else Disabled)
    \<and> en_state (snapshot now (pl_entries (mark_cooldown t i d p) ! i)) =
      (if now > t + (if d \<le> 0 then minute else d) then Healthy else Cooldown)"
  using assms
  by (simp add: mark_disabled_def mark_cooldown_def Let_def nth_on_entry pool_count_def snapshot_def disabled_recovery_def)

lemma suspension_ends_witness:
  "en_state (snapshot (6 * minute) (pl_entries (mark_disabled 0 1 ''403'' sample_pool) ! 1)) = Healthy"
  using suspension_ends [of 1 sample_pool "6 * minute" 0 "''403''" 0]
  by (simp add: pool_count_def sample_pool_def)

section \<open>Sequences of operations\<close>

text \<open>What the goroutines of the server do to a pool, one locked step after another.\<close>

datatype pool_op =
    OpLook
  | OpSelect string "string set"
  | OpAuthError nat
  | OpDisabled nat string
  | OpCooldown nat duration
  | OpTransport nat string
  | OpRefreshed nat Account
  | OpRefreshFailed nat
  | OpRecover string

fun pool_step :: "int \<times> pool_op \<Rightarrow> Pool \<Rightarrow> Pool" where
  "pool_step (now, OpLook) p = snapshot_all now p"
| "pool_step (now, OpSelect session excluded) p = snd (select now session excluded p)"
| "pool_step (now, OpAuthError i) p = mark_auth_error i p"
| "pool_step (now, OpDisabled i reason) p = mark_disabled now i reason p"
| "pool_step (now, OpCooldown i d) p = mark_cooldown now i d p"
| "pool_step (now, OpTransport i name) p = on_entry i (set_transport name) p"
| "pool_step (now, OpRefreshed i b) p =
     on_entry i (\<lambda>x. x\<lparr>en_account := b, en_state := Healthy, en_last_error := []\<rparr>) p"
| "pool_step (now, OpRefreshFailed i) p =
     on_entry i (\<lambda>x. x\<lparr>en_last_error := ''token refresh failed''\<rparr>) p"
| "pool_step (now, OpRecover ident) p = recover ident p"

definition touches :: "nat \<Rightarrow> string \<Rightarrow> pool_op \<Rightarrow> bool" where
  "touches i ident op = (case op of
      OpDisabled j _ \<Rightarrow> i = j | OpCooldown j _ \<Rightarrow> i = j | OpRefreshed j _ \<Rightarrow> i = j
    | OpRecover x \<Rightarrow> x = ident | _ \<Rightarrow> False)"

lemma auth_error_step:
  assumes "i < length (pl_entries p)" and "en_state (pl_entries p ! i) = AuthError"
    and "acc_id (en_account (pl_entries p ! i)) = ident" and "\<not> touches i ident op"
  shows "i < length (pl_entries (pool_step (now, op) p)) \<and> en_state (pl_entries (pool_step (now, op) p) ! i) = AuthError
    \<and> acc_id (en_account (pl_entries (pool_step (now, op) p) ! i)) = ident"
proof (cases op)
  case (OpRecover x)
  with assms show ?thesis by (simp add: touches_def recover_def recover_entry_def)
qed (use assms in \<open>auto simp: touches_def mark_auth_error_def mark_disabled_def mark_cooldown_def Let_def
      entries_select on_entry_def nth_list_update snapshot_all_def snapshot_def set_transport_def\<close>)

text \<open>
  C32: an authentication error is final.  Whatever the requests do, and however much time
  passes, an entry in this state stays in it and is never selected, unless it is refreshed,
  suspended by a request that was under way, or recovered by name.
\<close>

theorem auth_error_final:
  assumes "i < pool_count p" and "en_state (pl_entries p ! i) = AuthError"
    and "acc_id (en_account (pl_entries p ! i)) = ident"
    and "list_all (\<lambda>(now, op). \<not> touches i ident op) ops"
  shows "en_state (pl_entries (fold pool_step ops p) ! i) = AuthError
    \<and> i \<notin> set (candidates excluded (snapshot_all now (fold pool_step ops p)))"
proof -
  have "i < length (pl_entries (fold pool_step ops p)) \<and> en_state (pl_entries (fold pool_step ops p) ! i) = AuthError"
    using assms unfolding pool_count_def
  proof (induction ops arbitrary: p)
    case Nil
    then show ?case by simp
  next
    case (Cons x ops)
    obtain now op where x: "x = (now, op)" by fastforce
    with Cons.prems auth_error_step [of i p ident op now] show ?case by (simp add: Cons.IH)
  qed
  then show ?thesis by (simp add: candidates_iff nth_snapshot_all snapshot_def)
qed

theorem auth_error_final_witness:
  "en_state (pl_entries (fold pool_step [(0, OpAuthError 0), (10 ^ 18, OpLook), (10 ^ 18, OpSelect [] {})]
      (mark_auth_error 1 sample_pool)) ! 1) = AuthError"
  using auth_error_final [of 1 "mark_auth_error 1 sample_pool" "''b''"
      "[(0, OpAuthError 0), (10 ^ 18, OpLook), (10 ^ 18, OpSelect [] {})]" "{}" 0]
  by (simp add: touches_def pool_count_def sample_pool_def mark_auth_error_def nth_on_entry new_entry_def sample_account_def)

section \<open>Refreshing an account\<close>

definition refresh_due :: "int \<Rightarrow> nat \<Rightarrow> Pool \<Rightarrow> bool" where
  "refresh_due now i p \<longleftrightarrow> acc_expires_at_ms (en_account (pl_entries p ! i))
     \<le> now div millisecond + pl_refresh_before p div millisecond"

lemma ensure_fresh_not_due:
  "\<not> refresh_due now i p \<Longrightarrow>
   ensure_fresh refresher store env now i False p fs w = ((en_account (pl_entries p ! i), None), p, fs, w)"
  by (simp add: ensure_fresh_def refresh_due_def Let_def)

lemma ensure_fresh_accounts:
  assumes "ensure_fresh refresher store env now i force p fs w = (r, p', fs', w')" and "i < length (pl_entries p)"
  shows "pool_accounts p' = pool_accounts p \<or>
    (\<exists>refresh b w1. refresher = Some refresh \<and> refresh (pool_accounts p ! i) w = (Inr b, w1) \<and>
       pool_accounts p' = (pool_accounts p)[i := b])"
proof -
  have nth: "en_account (pl_entries p ! i) = pool_accounts p ! i" using assms(2) by (simp add: pool_accounts_def)
  have failed: "pool_accounts (on_entry i (\<lambda>x. x\<lparr>en_last_error := ''token refresh failed''\<rparr>) p) = pool_accounts p"
    by (rule on_entry_same_accounts) simp
  have stored: "pool_accounts (on_entry i (\<lambda>x. x\<lparr>en_account := b, en_state := Healthy, en_last_error := []\<rparr>) p)
      = (pool_accounts p)[i := b]" for b
    using assms(2) by (simp add: on_entry_accounts)
  show ?thesis using assms(1)
    by (auto simp: ensure_fresh_def Let_def nth failed stored split: if_splits option.splits prod.splits sum.splits)
qed

lemma ensure_fresh_length [simp]:
  "length (pl_entries (fst (snd (ensure_fresh refresher store env now i force p fs w)))) = length (pl_entries p)"
  by (simp add: ensure_fresh_def Let_def split: option.splits prod.splits sum.splits)

text \<open>What the pool asks of its refresher: a refreshed account is the same account with a
  token.\<close>

locale refresher =
  fixes refresh :: "Account \<Rightarrow> 'w \<Rightarrow> ('e + Account) \<times> 'w"
  assumes same_identity: "refresh a w = (Inr b, w') \<Longrightarrow>
      acc_id b = acc_id a \<and> acc_region b = acc_region a \<and> acc_user_id b = acc_user_id a \<and>
      acc_machine_id b = acc_machine_id a \<and> acc_token_kind b = acc_token_kind a"
    and gives_token: "refresh a w = (Inr b, w') \<Longrightarrow> acc_access_token b \<noteq> []"
begin

lemma refreshed_valid:
  "refresh a w = (Inr b, w') \<Longrightarrow> validate_account a = None \<Longrightarrow> validate_account b = None"
  using same_identity [of a w b w'] gives_token [of a w b w']
  by (auto simp: validate_account_def split: if_splits)

lemma ids_kept:
  assumes "ensure_fresh (Some refresh) store env now i force p fs w = (r, p', fs', w')"
    and "i < length (pl_entries p)"
  shows "map acc_id (pool_accounts p') = map acc_id (pool_accounts p)"
proof -
  from ensure_fresh_accounts [OF assms] consider "pool_accounts p' = pool_accounts p"
    | b w1 where "refresh (pool_accounts p ! i) w = (Inr b, w1)" "pool_accounts p' = (pool_accounts p)[i := b]"
    by blast
  then show ?thesis
  proof cases
    case 2
    from same_identity [OF 2(1)] 2(2) show ?thesis
      by (metis length_map list_update_id map_update nth_map assms(2) length_pool_accounts)
  qed simp
qed

lemma valid_kept:
  assumes "ensure_fresh (Some refresh) store env now i force p fs w = (r, p', fs', w')"
    and "i < length (pl_entries p)" and "any_invalid (pool_accounts p) = None"
  shows "any_invalid (pool_accounts p') = None"
proof -
  from ensure_fresh_accounts [OF assms(1,2)] consider "pool_accounts p' = pool_accounts p"
    | b w1 where "refresh (pool_accounts p ! i) w = (Inr b, w1)" "pool_accounts p' = (pool_accounts p)[i := b]"
    by blast
  then show ?thesis
  proof cases
    case 2
    have "pool_accounts p ! i \<in> set (pool_accounts p)" using assms(2) by simp
    with refreshed_valid [OF 2(1)] assms(3) have "validate_account b = None" by (simp add: any_invalid_None)
    with assms(3) 2(2) set_update_subset_insert [of "pool_accounts p" i b] show ?thesis
      by (auto simp: any_invalid_None)
  qed (use assms(3) in simp)
qed

end

text \<open>What a refresh with a store and without an error has done.\<close>

lemma ensure_fresh_success:
  assumes "ensure_fresh (Some refresh) (Some s) env now i force p fs w = ((a, None), p', fs', w')"
    and "force \<or> refresh_due now i p" and "io_tmp env \<noteq> st_path s"
    and "list_all text_account (pool_accounts p')" and "\<not> io_fails env' SysStat" and "\<not> io_fails env' SysRead"
  shows "p' = on_entry i (\<lambda>x. x\<lparr>en_account := a, en_state := Healthy, en_last_error := []\<rparr>) p
    \<and> load_locked env' s fs' = Inr (pool_accounts p')"
proof -
  from assms(1,2) have p': "p' = on_entry i (\<lambda>x. x\<lparr>en_account := a, en_state := Healthy, en_last_error := []\<rparr>) p"
    and rep: "replace_accounts env s (pool_accounts p') fs = (None, fs')"
    by (auto simp: ensure_fresh_def refresh_due_def Let_def split: if_splits prod.splits sum.splits option.splits)
  from rep have "any_invalid (pool_accounts p') = None" and "write_locked env s (pool_accounts p') fs = (None, fs')"
    by (auto simp: replace_accounts_def split: option.splits)
  then have "load_locked env' s fs' = Inr (pool_accounts p')"
    using write_locked_ok assms(3-6) by (intro load_file_text)
  with p' show ?thesis by blast
qed

text \<open>
  C16: a refresh that succeeds is kept.  When \<open>EnsureFresh\<close> has refreshed an account and
  reports no error, the entry holds the new account and is healthy, and loading the
  credentials file gives the pool's accounts, the new one among them.
\<close>

theorem ensure_fresh_persists:
  assumes "ensure_fresh (Some refresh) (Some s) env now i force p fs w = ((a, None), p', fs', w')"
    and "i < pool_count p" and "force \<or> refresh_due now i p" and "io_tmp env \<noteq> st_path s"
    and "list_all text_account (pool_accounts p')" and "\<not> io_fails env' SysStat" and "\<not> io_fails env' SysRead"
  shows "load_locked env' s fs' = Inr (pool_accounts p')
    \<and> en_account (pl_entries p' ! i) = a \<and> en_state (pl_entries p' ! i) = Healthy"
  using ensure_fresh_success [OF assms(1,3,4,5-7)] assms(2) by (simp add: nth_on_entry pool_count_def)

theorem ensure_fresh_persists_witness:
  "case ensure_fresh (Some (\<lambda>a w. (Inr (a\<lparr>acc_access_token := ''jt-2''\<rparr>) :: unit + Account, w))) (Some \<lparr>st_path = ''c.json''\<rparr>)
      (env_failing []) 0 0 True (new_pool [sample_account ''global-u'' ''u'']) Map.empty ()
   of ((a, err), p', fs', w') \<Rightarrow> load_locked (env_failing []) \<lparr>st_path = ''c.json''\<rparr> fs' = Inr (pool_accounts p')"
proof -
  let ?r = "\<lambda>a w. (Inr (a\<lparr>acc_access_token := ''jt-2''\<rparr>), w) :: (unit + Account) \<times> unit"
  let ?p = "new_pool [sample_account ''global-u'' ''u'']" and ?s = "\<lparr>st_path = ''c.json''\<rparr>"
  let ?b = "(sample_account ''global-u'' ''u'')\<lparr>acc_access_token := ''jt-2''\<rparr>"
  obtain a err p' fs' w' where run: "ensure_fresh (Some ?r) (Some ?s) (env_failing []) 0 0 True ?p Map.empty () =
      ((a, err), p', fs', w')" by (metis prod.collapse)
  have "any_invalid [?b] = None" by (simp add: validate_account_def sample_account_def)
  then have ok: "err = None" and p': "pool_accounts p' = [?b]"
    using run by (auto simp: ensure_fresh_def new_pool_def new_entry_def on_entry_def pool_accounts_def
        replace_accounts_def write_locked_def Let_def env_failing_def)
  have "list_all valid_utf8 [''global-u'', ''u'', ''global'', ''job'', ''jt-2'', ''m'', '''']" by code_simp
  then have "list_all text_account (pool_accounts p')"
    unfolding p' by (simp add: text_account_def sample_account_def zero_account_def in64_def)
  with ensure_fresh_persists [OF run [unfolded ok], of "env_failing []"]
  have "load_locked (env_failing []) ?s fs' = Inr (pool_accounts p')"
    by (simp add: env_failing_def new_pool_def pool_count_def)
  then show ?thesis unfolding run by simp
qed

text \<open>
  A refresh that fails changes nothing that matters.  The accounts, the states of the
  entries and the files stay as they were, only the entry's last error tells, and the caller
  gets the old account with the error.
\<close>

lemma ensure_fresh_failure:
  assumes "refresh (en_account (pl_entries p ! i)) w = (Inl e, w1)"
    and "force \<or> refresh_due now i p"
  shows "case ensure_fresh (Some refresh) store env now i force p fs w of ((a, err), p', fs', w') \<Rightarrow>
     a = en_account (pl_entries p ! i) \<and> err = Some (RefreshFailed e) \<and> fs' = fs \<and> w' = w1 \<and>
     pool_accounts p' = pool_accounts p \<and> map en_state (pl_entries p') = map en_state (pl_entries p)"
proof -
  have "pool_accounts (on_entry i (\<lambda>x. x\<lparr>en_last_error := ''token refresh failed''\<rparr>) p) = pool_accounts p"
    by (rule on_entry_same_accounts) simp
  moreover have "map en_state (pl_entries (on_entry i (\<lambda>x. x\<lparr>en_last_error := ''token refresh failed''\<rparr>) p))
      = map en_state (pl_entries p)"
    unfolding on_entry_def by (simp add: map_update) (metis list_update_id nth_map)
  ultimately show ?thesis using assms by (auto simp: ensure_fresh_def refresh_due_def Let_def)
qed

lemma ensure_fresh_failure_witness:
  "case ensure_fresh (Some (\<lambda>a w. (Inl ''no refresh token'', w))) None (env_failing []) 0 0 True sample_pool Map.empty ()
   of ((a, err), p', fs', w') \<Rightarrow> err = Some (RefreshFailed ''no refresh token'')"
  using ensure_fresh_failure [where refresh = "\<lambda>a w. (Inl ''no refresh token'', w)" and p = sample_pool and i = 0 and w = "()"
      and e = "''no refresh token''" and ?w1.0 = "()" and force = True and now = 0 and store = None
      and env = "env_failing []" and fs = Map.empty]
  by (simp split: prod.splits)

section \<open>Concurrent refreshes\<close>

text \<open>
  Several requests can refresh accounts at once.  Each stores its account under the entry's
  lock, then waits for the pool's persist lock, collects the accounts entry by entry while
  other entries may change, and writes the list.  The file is what a load would give.
\<close>

datatype persist_pc = Idle | Waiting | Collecting "Account list"

record persist_state =
  ps_accounts :: "Account list"
  ps_file :: "Account list"
  ps_pc :: "nat \<Rightarrow> persist_pc"
  ps_failed :: bool

definition collecting :: "persist_state \<Rightarrow> bool" where
  "collecting s \<longleftrightarrow> (\<exists>g xs. ps_pc s g = Collecting xs)"

definition waiting :: "persist_state \<Rightarrow> bool" where
  "waiting s \<longleftrightarrow> (\<exists>g. ps_pc s g = Waiting)"

inductive persist_step :: "persist_state \<Rightarrow> persist_state \<Rightarrow> bool" where
  refreshed: "ps_pc s g = Idle \<Longrightarrow> i < length (ps_accounts s) \<Longrightarrow>
    persist_step s (s\<lparr>ps_accounts := (ps_accounts s)[i := b], ps_pc := (ps_pc s)(g := Waiting)\<rparr>)"
| lock: "ps_pc s g = Waiting \<Longrightarrow> \<not> collecting s \<Longrightarrow>
    persist_step s (s\<lparr>ps_pc := (ps_pc s)(g := Collecting [])\<rparr>)"
| collect: "ps_pc s g = Collecting xs \<Longrightarrow> length xs < length (ps_accounts s) \<Longrightarrow>
    persist_step s (s\<lparr>ps_pc := (ps_pc s)(g := Collecting (xs @ [ps_accounts s ! length xs]))\<rparr>)"
| write_ok: "ps_pc s g = Collecting xs \<Longrightarrow> length xs = length (ps_accounts s) \<Longrightarrow>
    persist_step s (s\<lparr>ps_file := xs, ps_pc := (ps_pc s)(g := Idle)\<rparr>)"
| write_failed: "ps_pc s g = Collecting xs \<Longrightarrow> length xs = length (ps_accounts s) \<Longrightarrow>
    persist_step s (s\<lparr>ps_failed := True, ps_pc := (ps_pc s)(g := Idle)\<rparr>)"

definition persist_inv :: "persist_state \<Rightarrow> bool" where
  "persist_inv s \<longleftrightarrow>
    (\<forall>g h xs ys. ps_pc s g = Collecting xs \<longrightarrow> ps_pc s h = Collecting ys \<longrightarrow> g = h) \<and>
    (\<forall>g xs. ps_pc s g = Collecting xs \<longrightarrow> waiting s \<or> xs = take (length xs) (ps_accounts s)) \<and>
    (ps_failed s \<or> waiting s \<or> collecting s \<or> ps_file s = ps_accounts s)"

lemma waiting_after:
  assumes "ps_pc s g = Collecting xs" and "c \<noteq> Waiting" and "ps_pc t = (ps_pc s)(g := c)"
  shows "waiting t \<longleftrightarrow> waiting s"
  using assms unfolding waiting_def by (metis fun_upd_apply persist_pc.distinct(5))

lemma persist_inv_step: "persist_step s t \<Longrightarrow> persist_inv s \<Longrightarrow> persist_inv t"
proof (induction rule: persist_step.induct)
  case (refreshed s g i b)
  have "waiting (s\<lparr>ps_accounts := (ps_accounts s)[i := b], ps_pc := (ps_pc s)(g := Waiting)\<rparr>)"
    by (auto simp: waiting_def)
  with refreshed show ?case by (auto simp: persist_inv_def split: if_splits)
next
  case (lock s g)
  then show ?case by (auto simp: persist_inv_def collecting_def split: if_splits)
next
  case (collect s g xs)
  let ?t = "s\<lparr>ps_pc := (ps_pc s)(g := Collecting (xs @ [ps_accounts s ! length xs]))\<rparr>"
  have "waiting ?t = waiting s" using collect(1) by (rule waiting_after) simp_all
  moreover have "collecting ?t" by (auto simp: collecting_def)
  moreover have "xs = take (length xs) (ps_accounts s) \<Longrightarrow>
      xs @ [ps_accounts s ! length xs] = take (Suc (length xs)) (ps_accounts s)"
    using collect(2) by (simp add: take_Suc_conv_app_nth)
  ultimately show ?case using collect by (auto simp: persist_inv_def split: if_splits)
next
  case (write_ok s g xs)
  let ?t = "s\<lparr>ps_file := xs, ps_pc := (ps_pc s)(g := Idle)\<rparr>"
  have "waiting ?t = waiting s" using write_ok(1) by (rule waiting_after) simp_all
  moreover have "waiting s \<or> xs = take (length xs) (ps_accounts s)"
    using write_ok(1,3) unfolding persist_inv_def by blast
  then have "waiting s \<or> xs = ps_accounts s" using write_ok(2) by simp
  moreover from this have "\<not> collecting ?t" using write_ok by (auto simp: persist_inv_def collecting_def)
  ultimately show ?case using write_ok(3) by (auto simp: persist_inv_def collecting_def)
next
  case (write_failed s g xs)
  let ?t = "s\<lparr>ps_failed := True, ps_pc := (ps_pc s)(g := Idle)\<rparr>"
  have "waiting ?t = waiting s" using write_failed(1) by (rule waiting_after) simp_all
  then show ?case using write_failed by (auto simp: persist_inv_def split: if_splits)
qed

text \<open>
  C15: no refreshed token is lost to another request's write.  Whatever the interleaving of
  the requests that refresh accounts and write the file, once all of them are done and no
  write has failed, the file holds the accounts of the pool.
\<close>

theorem no_lost_refresh:
  assumes "persist_step\<^sup>*\<^sup>* \<lparr>ps_accounts = as, ps_file = as, ps_pc = (\<lambda>_. Idle), ps_failed = False\<rparr> s"
    and "\<forall>g. ps_pc s g = Idle" and "\<not> ps_failed s"
  shows "ps_file s = ps_accounts s"
proof -
  let ?s0 = "\<lparr>ps_accounts = as, ps_file = as, ps_pc = (\<lambda>_. Idle), ps_failed = False\<rparr>"
  have "persist_inv ?s0" by (simp add: persist_inv_def)
  with assms(1) have "persist_inv s"
    by (induction rule: rtranclp_induct) (auto intro: persist_inv_step)
  with assms(2,3) show ?thesis by (simp add: persist_inv_def waiting_def collecting_def)
qed

theorem no_lost_refresh_witness:
  "\<forall>a b. \<exists>s. persist_step\<^sup>*\<^sup>* \<lparr>ps_accounts = [a], ps_file = [a], ps_pc = (\<lambda>_. Idle), ps_failed = False\<rparr> s
     \<and> ps_file s = [b]"
proof (intro allI)
  fix a b
  let ?s0 = "\<lparr>ps_accounts = [a], ps_file = [a], ps_pc = (\<lambda>_. Idle), ps_failed = False\<rparr>"
  let ?s1 = "\<lparr>ps_accounts = [b], ps_file = [a], ps_pc = (\<lambda>_. Idle)(0 := Waiting), ps_failed = False\<rparr>"
  let ?s2 = "\<lparr>ps_accounts = [b], ps_file = [a], ps_pc = (\<lambda>_. Idle)(0 := Collecting []), ps_failed = False\<rparr>"
  let ?s3 = "\<lparr>ps_accounts = [b], ps_file = [a], ps_pc = (\<lambda>_. Idle)(0 := Collecting [b]), ps_failed = False\<rparr>"
  let ?s4 = "\<lparr>ps_accounts = [b], ps_file = [b], ps_pc = (\<lambda>_. Idle), ps_failed = False\<rparr>"
  have "persist_step ?s0 ?s1" using persist_step.refreshed [of ?s0 0 0 b] by simp
  moreover have "persist_step ?s1 ?s2" using persist_step.lock [of ?s1 0] by (simp add: collecting_def)
  moreover have "persist_step ?s2 ?s3" using persist_step.collect [of ?s2 0 "[]"] by simp
  moreover have "persist_step ?s3 ?s4" using persist_step.write_ok [of ?s3 0 "[b]"] by (simp add: fun_upd_idem)
  ultimately have reach: "persist_step\<^sup>*\<^sup>* ?s0 ?s4"
    by (meson converse_rtranclp_into_rtranclp rtranclp.rtrancl_refl)
  from no_lost_refresh [OF this] show "\<exists>s. persist_step\<^sup>*\<^sup>* ?s0 s \<and> ps_file s = [b]"
    by (intro exI [of _ ?s4]) (simp add: reach)
qed

end
