(* ===== verification/Protocol.thy ===== *)
theory Protocol
  imports GoBase
begin

text \<open>
  \<open>internal/protocol/constants.go\<close> and \<open>internal/qoder/http.go\<close>: the regions, their
  endpoints, the hosts the program may talk to, and the round tripper that enforces the list.
  An HTTP exchange is a function of the request and the world; its answer is a transport
  error or a response whose body is what can be read of it.
\<close>

section \<open>Regions and endpoints\<close>

record Endpoints =
  ep_open_api :: string
  ep_bearer_chat :: string
  ep_cosy_chat :: string
  ep_model_list :: string
  ep_device_login :: string
  ep_device_poll :: string
  ep_pat_exchange :: string
  ep_job_refresh :: string
  ep_device_refresh :: string
  ep_user_info :: string
  ep_quota_usage :: string

definition no_endpoints :: Endpoints where
  "no_endpoints = \<lparr>ep_open_api = [], ep_bearer_chat = [], ep_cosy_chat = [], ep_model_list = [],
     ep_device_login = [], ep_device_poll = [], ep_pat_exchange = [], ep_job_refresh = [],
     ep_device_refresh = [], ep_user_info = [], ep_quota_usage = []\<rparr>"

definition global_endpoints :: Endpoints where
  "global_endpoints = \<lparr>
     ep_open_api = ''https://openapi.qoder.sh'',
     ep_bearer_chat = ''https://api2-v2.qoder.sh/model/v1/chat/completions'',
     ep_cosy_chat = ''https://api3.qoder.sh/algo/api/v2/service/pro/sse/agent_chat_generation?FetchKeys=llm_model_result&AgentId=agent_common&Encode=1'',
     ep_model_list = ''https://api3.qoder.sh/algo/api/v2/model/list?Encode=1'',
     ep_device_login = ''https://qoder.com/device/selectAccounts'',
     ep_device_poll = ''https://openapi.qoder.sh/api/v1/deviceToken/poll'',
     ep_pat_exchange = ''https://openapi.qoder.sh/api/v1/jobToken/exchange'',
     ep_job_refresh = ''https://openapi.qoder.sh/api/v1/jobToken/refresh'',
     ep_device_refresh = ''https://openapi.qoder.sh/api/v1/deviceToken/refresh'',
     ep_user_info = ''https://openapi.qoder.sh/api/v1/userinfo'',
     ep_quota_usage = ''https://openapi.qoder.sh/api/v2/quota/usage''\<rparr>"

definition cn_endpoints :: Endpoints where
  "cn_endpoints = \<lparr>
     ep_open_api = ''https://openapi.qoder.com.cn'',
     ep_bearer_chat = [],
     ep_cosy_chat = ''https://gateway.qoder.com.cn/algo/api/v2/service/pro/sse/agent_chat_generation?FetchKeys=llm_model_result&AgentId=agent_common&Encode=1'',
     ep_model_list = ''https://gateway.qoder.com.cn/algo/api/v2/model/list?Encode=1'',
     ep_device_login = [],
     ep_device_poll = [],
     ep_pat_exchange = ''https://openapi.qoder.com.cn/api/v1/jobToken/exchange'',
     ep_job_refresh = ''https://openapi.qoder.com.cn/api/v1/jobToken/refresh'',
     ep_device_refresh = ''https://openapi.qoder.com.cn/api/v1/deviceToken/refresh'',
     ep_user_info = ''https://openapi.qoder.com.cn/api/v1/userinfo'',
     ep_quota_usage = ''https://openapi.qoder.com.cn/api/v2/quota/usage''\<rparr>"

definition for_region :: "string \<Rightarrow> Endpoints option" where
  "for_region region =
    (if region = ''global'' then Some global_endpoints
     else if region = ''cn'' then Some cn_endpoints
     else None)"

text \<open>\<open>ep, _ := ForRegion(region)\<close>: the zero value where there is none.\<close>

definition endpoints_or_zero :: "string \<Rightarrow> Endpoints" where
  "endpoints_or_zero region = (case for_region region of None \<Rightarrow> no_endpoints | Some ep \<Rightarrow> ep)"

definition allowed_upstream_hosts :: "string list" where
  "allowed_upstream_hosts = [''api2-v2.qoder.sh'', ''api3.qoder.sh'', ''openapi.qoder.sh'', ''qoder.com'',
     ''gateway.qoder.com.cn'', ''openapi.qoder.com.cn'']"

definition endpoint_urls :: "Endpoints \<Rightarrow> string list" where
  "endpoint_urls ep = [ep_open_api ep, ep_bearer_chat ep, ep_cosy_chat ep, ep_model_list ep, ep_device_login ep,
     ep_device_poll ep, ep_pat_exchange ep, ep_job_refresh ep, ep_device_refresh ep, ep_user_info ep,
     ep_quota_usage ep]"

section \<open>Requests\<close>

record HttpRequest =
  rq_method :: string
  rq_url :: string
  rq_headers :: "(string \<times> string) list"
  rq_body :: string

text \<open>The error with which reading the body ends, if it does not end with the end of file.\<close>

record HttpResponse =
  rs_status :: int
  rs_headers :: "(string \<times> string) list"
  rs_body :: string
  rs_read_error :: "string option"

type_synonym 'w http = "HttpRequest \<Rightarrow> 'w \<Rightarrow> (string + HttpResponse) \<times> 'w"

definition get_header :: "(string \<times> string) list \<Rightarrow> string \<Rightarrow> string" where
  "get_header hs k = (case map_of hs k of None \<Rightarrow> [] | Some v \<Rightarrow> v)"

text \<open>\<open>Header.Set\<close> replaces the values of the name.\<close>

definition set_header :: "string \<Rightarrow> string \<Rightarrow> (string \<times> string) list \<Rightarrow> (string \<times> string) list" where
  "set_header k v hs = filter (\<lambda>(x, _). x \<noteq> k) hs @ [(k, v)]"

lemma get_set_header [simp]:
  "get_header (set_header k v hs) x = (if x = k then v else get_header hs x)"
proof -
  have "map_of (filter (\<lambda>(y, _). y \<noteq> k) hs @ [(k, v)]) x = (if x = k then Some v else map_of hs x)"
    by (induction hs) (auto simp: map_add_def)
  then show ?thesis by (simp add: get_header_def set_header_def)
qed

text \<open>\<open>io.ReadAll(io.LimitReader(body, n))\<close>: a read error past the limit is not seen.\<close>

definition read_limited :: "int \<Rightarrow> HttpResponse \<Rightarrow> string + string" where
  "read_limited n r =
    (if int (length (rs_body r)) \<ge> n then Inr (take (nat n) (rs_body r))
     else (case rs_read_error r of Some e \<Rightarrow> Inl e | None \<Rightarrow> Inr (rs_body r)))"

text \<open>The host of an absolute URL without a user part, as \<open>URL.Hostname\<close> gives it: what is
  between the slashes and the port, the path, the query or the fragment.\<close>

fun after_slashes :: "string \<Rightarrow> string" where
  "after_slashes (a # b # s) = (if a = CHR ''/'' \<and> b = CHR ''/'' then s else after_slashes (b # s))"
| "after_slashes _ = []"

definition hostname :: "string \<Rightarrow> string" where
  "hostname url = takeWhile (\<lambda>c. c \<notin> set ''/?#:'') (after_slashes url)"

definition host_guard :: "'w http \<Rightarrow> 'w http" where
  "host_guard transport req w =
    (if hostname (rq_url req) \<in> set allowed_upstream_hosts then transport req w
     else (Inl ''upstream host is not allowlisted'', w))"

section \<open>The list covers the endpoints\<close>

lemma endpoint_hosts_check:
  "list_all (\<lambda>u. u = [] \<or> List.member allowed_upstream_hosts (hostname u))
     (endpoint_urls global_endpoints @ endpoint_urls cn_endpoints)"
  by code_simp

lemma endpoint_hosts:
  "for_region region = Some ep \<Longrightarrow> u \<in> set (endpoint_urls ep) \<Longrightarrow> u = [] \<or> hostname u \<in> set allowed_upstream_hosts"
  using endpoint_hosts_check by (auto simp: for_region_def list_all_iff split: if_splits)

text \<open>
  The guard stands between every request and the network, and lets the program's own
  requests through.  A request to a host that is not on the list is answered with an error
  and does not change the world; the host of every endpoint of every region is on the list.
\<close>

lemma host_guard_sound:
  "list_all (\<lambda>u. u = [] \<or> (\<forall>req w. host_guard transport (req\<lparr>rq_url := u\<rparr>) w = transport (req\<lparr>rq_url := u\<rparr>) w))
     (endpoint_urls (endpoints_or_zero region))
   \<and> host_guard transport req w \<in> {transport req w, (Inl ''upstream host is not allowlisted'', w)}
   \<and> (hostname (rq_url req) \<in> set allowed_upstream_hosts \<or>
       host_guard transport req w = (Inl ''upstream host is not allowlisted'', w))"
proof -
  have "u = [] \<or> hostname u \<in> set allowed_upstream_hosts"
    if "u \<in> set (endpoint_urls (endpoints_or_zero region))" for u
  proof (cases "for_region region")
    case None
    with that show ?thesis by (simp add: endpoints_or_zero_def no_endpoints_def endpoint_urls_def)
  next
    case (Some ep)
    with that endpoint_hosts [OF Some] show ?thesis by (simp add: endpoints_or_zero_def)
  qed
  then show ?thesis by (auto simp: host_guard_def list_all_iff)
qed

end
