(* ===== verification/Auth.thy ===== *)
theory Auth
  imports Pool Protocol Signals
begin

text \<open>
  \<open>internal/qoder/auth.go\<close>: the token endpoints.  \<open>now\<close> is the clock in nanoseconds since
  1970, \<open>http\<close> the client with its host guard, and random bytes are given.  \<open>time.Parse\<close> for
  RFC 3339 is written out with what it tolerates: one digit for the hour, a comma before the
  fraction, and any number of fractional digits.
\<close>

section \<open>Timestamps\<close>

definition get_num :: "bool \<Rightarrow> string \<Rightarrow> (int \<times> string) option" where
  "get_num fixed s = (case s of
      [] \<Rightarrow> None
    | a # r \<Rightarrow>
      if \<not> is_digit a then None
      else (case r of
          b # r' \<Rightarrow> if is_digit b then Some (digit_val a * 10 + digit_val b, r')
                     else if fixed then None else Some (digit_val a, r)
        | [] \<Rightarrow> if fixed then None else Some (digit_val a, r)))"

definition get_lit :: "char \<Rightarrow> string \<Rightarrow> string option" where
  "get_lit c s = (case s of x # r \<Rightarrow> if x = c then Some r else None | [] \<Rightarrow> None)"

definition get_year :: "string \<Rightarrow> (int \<times> string) option" where
  "get_year s = (if length s < 4 \<or> \<not> list_all is_digit (take 4 s) then None
     else Some (digits_val (take 4 s), drop 4 s))"

text \<open>The fraction as nanoseconds: nine digits count, further ones are read and ignored.\<close>

definition get_fraction :: "string \<Rightarrow> int \<times> string" where
  "get_fraction s = (case s of
      c # d # r \<Rightarrow>
        if (c = CHR ''.'' \<or> c = CHR '','') \<and> is_digit d then
          (let ds = takeWhile is_digit (d # r); nine = take 9 ds
           in (digits_val nine * 10 ^ (9 - length nine), dropWhile is_digit (d # r)))
        else (0, s)
    | _ \<Rightarrow> (0, s))"

text \<open>The offset of the zone in seconds.\<close>

definition get_zone :: "string \<Rightarrow> (int \<times> string) option" where
  "get_zone s = (case s of
      [] \<Rightarrow> None
    | c # r \<Rightarrow>
      if c = CHR ''Z'' then Some (0, r)
      else (case get_num True r of
          None \<Rightarrow> None
        | Some (hh, r1) \<Rightarrow>
          (case get_lit (CHR '':'') r1 of
             None \<Rightarrow> None
           | Some r2 \<Rightarrow>
             (case get_num True r2 of
                None \<Rightarrow> None
              | Some (mm, r3) \<Rightarrow>
                if hh > 24 \<or> mm > 60 then None
                else if c = CHR ''+'' then Some ((hh * 60 + mm) * 60, r3)
                else if c = CHR ''-'' then Some (- ((hh * 60 + mm) * 60), r3)
                else None))))"

definition is_leap :: "int \<Rightarrow> bool" where
  "is_leap y \<longleftrightarrow> y mod 4 = 0 \<and> (y mod 100 \<noteq> 0 \<or> y mod 400 = 0)"

definition days_in :: "int \<Rightarrow> int \<Rightarrow> int" where
  "days_in y m = (if m = 2 then (if is_leap y then 29 else 28)
     else if m \<in> {4, 6, 9, 11} then 30 else 31)"

text \<open>Days from 1970-01-01, counting years from March.\<close>

definition days_from_civil :: "int \<Rightarrow> int \<Rightarrow> int \<Rightarrow> int" where
  "days_from_civil y m d =
    (let y = (if m \<le> 2 then y - 1 else y);
         doy = (153 * (m + (if m > 2 then - 3 else 9)) + 2) div 5 + d - 1
     in y * 365 + y div 4 - y div 100 + y div 400 + doy - 719468)"

text \<open>\<open>time.Parse(time.RFC3339Nano, s)\<close> as milliseconds since 1970.\<close>

definition parse_clock :: "string \<Rightarrow> (int \<times> int \<times> string) option" where
  "parse_clock s =
    Option.bind (get_num False s) (\<lambda>(h, s). if h \<ge> 24 then None else
    Option.bind (get_lit (CHR '':'') s) (\<lambda>s.
    Option.bind (get_num True s) (\<lambda>(mi, s). if mi \<ge> 60 then None else
    Option.bind (get_lit (CHR '':'') s) (\<lambda>s.
    Option.bind (get_num True s) (\<lambda>(sec, s). if sec \<ge> 60 then None else
    (let (ns, s) = get_fraction s in Some (h * 3600 + mi * 60 + sec, ns, s)))))))"

definition parse_rfc3339 :: "string \<Rightarrow> int option" where
  "parse_rfc3339 s =
    Option.bind (get_year s) (\<lambda>(y, s).
    Option.bind (get_lit (CHR ''-'') s) (\<lambda>s.
    Option.bind (get_num True s) (\<lambda>(m, s). if m < 1 \<or> m > 12 then None else
    Option.bind (get_lit (CHR ''-'') s) (\<lambda>s.
    Option.bind (get_num True s) (\<lambda>(d, s).
    Option.bind (get_lit (CHR ''T'') s) (\<lambda>s.
    Option.bind (parse_clock s) (\<lambda>(sec, ns, s).
    Option.bind (get_zone s) (\<lambda>(off, s).
      if s \<noteq> [] \<or> d < 1 \<or> d > days_in y m then None
      else Some ((days_from_civil y m d * 86400 + sec - off) * 1000 + ns div millisecond)))))))))"

section \<open>Expiry\<close>

definition normalize_epoch :: "int \<Rightarrow> int" where
  "normalize_epoch v = (if v < 100000000000 then wrap64 (v * 1000) else v)"

datatype auth_error =
    UnsupportedRegion
  | NetworkError string
  | BodyReadError string
  | StatusError string int string
  | BadJSON
  | NoToken
  | NoUserID
  | UnrecognizedExpiry
  | NoExpiry
  | NoRefreshToken
  | DeviceTimeout
  | IncompleteCredentials
  | RegionNotForDevice
  | ContextDone string
  | RandomFailed

definition expires_at_text :: "string \<Rightarrow> int option" where
  "expires_at_text s = (case parse_rfc3339 (trim_space s) of
      Some ms \<Rightarrow> Some ms
    | None \<Rightarrow>
      (case parse_int64 (trim_space s) of
         Some ms \<Rightarrow> if ms > 0 then Some (normalize_epoch ms) else None
       | None \<Rightarrow> None))"

definition parse_expiry :: "int \<Rightarrow> json option \<Rightarrow> int \<Rightarrow> auth_error + int" where
  "parse_expiry now raw expires_in =
    (if raw \<noteq> None \<and> raw \<noteq> Some JNull \<and> raw \<noteq> Some (JStr []) then
       (case (case the raw of JStr s \<Rightarrow> expires_at_text s | _ \<Rightarrow> None) of
          Some ms \<Rightarrow> Inr ms
        | None \<Rightarrow>
          (case dec_int (the raw) 0 of
             Some n \<Rightarrow> if n > 0 then Inr (normalize_epoch n) else Inl UnrecognizedExpiry
           | None \<Rightarrow> Inl UnrecognizedExpiry))
     else if expires_in > 0 then
       (if expires_in \<le> 31536000 then Inr ((now + expires_in * second) div millisecond)
        else Inr (wrap64 (now div millisecond + expires_in)))
     else Inl NoExpiry)"

section \<open>Requests to the token endpoints\<close>

record tokenResponse =
  tr_token :: string
  tr_device_token :: string
  tr_refresh_token :: string
  tr_user_id :: string
  tr_expires_at :: "json option"
  tr_expires_in :: int

definition zero_token_response :: tokenResponse where
  "zero_token_response = \<lparr>tr_token = [], tr_device_token = [], tr_refresh_token = [], tr_user_id = [],
     tr_expires_at = None, tr_expires_in = 0\<rparr>"

definition dec_token_response :: "tokenResponse dec" where
  "dec_token_response = dec_struct (\<lambda>k j r.
     if key_is ''token'' k then map_option (\<lambda>x. r\<lparr>tr_token := x\<rparr>) (dec_string j (tr_token r))
     else if key_is ''device_token'' k then
       map_option (\<lambda>x. r\<lparr>tr_device_token := x\<rparr>) (dec_string j (tr_device_token r))
     else if key_is ''refresh_token'' k then
       map_option (\<lambda>x. r\<lparr>tr_refresh_token := x\<rparr>) (dec_string j (tr_refresh_token r))
     else if key_is ''user_id'' k then map_option (\<lambda>x. r\<lparr>tr_user_id := x\<rparr>) (dec_string j (tr_user_id r))
     else if key_is ''expires_at'' k then
       map_option (\<lambda>x. r\<lparr>tr_expires_at := x\<rparr>) (dec_raw j (tr_expires_at r))
     else if key_is ''expires_in'' k then
       map_option (\<lambda>x. r\<lparr>tr_expires_in := x\<rparr>) (dec_int j (tr_expires_in r))
     else Some r)"

record UserInfo =
  ui_id :: string
  ui_name :: string
  ui_username :: string
  ui_email :: string

definition zero_user_info :: UserInfo where
  "zero_user_info = \<lparr>ui_id = [], ui_name = [], ui_username = [], ui_email = []\<rparr>"

definition dec_user_info :: "UserInfo dec" where
  "dec_user_info = dec_struct (\<lambda>k j r.
     if key_is ''id'' k then map_option (\<lambda>x. r\<lparr>ui_id := x\<rparr>) (dec_string j (ui_id r))
     else if key_is ''name'' k then map_option (\<lambda>x. r\<lparr>ui_name := x\<rparr>) (dec_string j (ui_name r))
     else if key_is ''username'' k then map_option (\<lambda>x. r\<lparr>ui_username := x\<rparr>) (dec_string j (ui_username r))
     else if key_is ''email'' k then map_option (\<lambda>x. r\<lparr>ui_email := x\<rparr>) (dec_string j (ui_email r))
     else Some r)"

fun first_non_empty :: "string list \<Rightarrow> string" where
  "first_non_empty [] = []"
| "first_non_empty (s # ss) = (if s \<noteq> [] then s else first_non_empty ss)"

definition status_error :: "string \<Rightarrow> int \<Rightarrow> string \<Rightarrow> auth_error" where
  "status_error op status body = StatusError op status (sanitize_snippet body 256)"

definition json_request :: "string \<Rightarrow> string \<Rightarrow> string \<Rightarrow> string \<Rightarrow> (string \<times> string) list \<Rightarrow> HttpRequest" where
  "json_request method url token body extra =
    (let hs = set_header ''User-Agent'' ''qoder-proxy/0.1.0'' (set_header ''Accept'' ''application/json'' []);
         hs = (if body \<noteq> [] then set_header ''Content-Type'' ''application/json'' hs else hs);
         hs = (if token \<noteq> [] then set_header ''Authorization'' (''Bearer '' @ token) hs else hs)
     in \<lparr>rq_method = method, rq_url = url, rq_headers = fold (\<lambda>(k, v). set_header k v) extra hs, rq_body = body\<rparr>)"

text \<open>\<open>doJSON\<close> up to the decoding: the body of a successful answer.\<close>

definition do_json_body ::
  "'w http \<Rightarrow> string \<Rightarrow> string \<Rightarrow> string \<Rightarrow> string \<Rightarrow> (string \<times> string) list \<Rightarrow> 'w \<Rightarrow> (auth_error + string) \<times> 'w" where
  "do_json_body http method url token body extra w =
    (case http (json_request method url token body extra) w of
       (Inl e, w') \<Rightarrow> (Inl (NetworkError e), w')
     | (Inr r, w') \<Rightarrow>
       (case read_limited (2 ^ 20) r of
          Inl e \<Rightarrow> (Inl (BodyReadError e), w')
        | Inr b \<Rightarrow>
          if rs_status r < 200 \<or> rs_status r \<ge> 300
          then (Inl (status_error ''upstream'' (rs_status r) b), w')
          else (Inr b, w')))"

definition unmarshal :: "'a dec \<Rightarrow> 'a \<Rightarrow> string \<Rightarrow> 'a option" where
  "unmarshal d zero b = (case json_parse b of JOk j \<Rightarrow> d j zero | _ \<Rightarrow> None)"

definition do_json ::
  "'w http \<Rightarrow> string \<Rightarrow> string \<Rightarrow> string \<Rightarrow> string \<Rightarrow> (string \<times> string) list \<Rightarrow> 'a dec \<Rightarrow> 'a \<Rightarrow> 'w \<Rightarrow>
   (auth_error + 'a) \<times> 'w" where
  "do_json http method url token body extra d zero w =
    (case do_json_body http method url token body extra w of
       (Inl e, w') \<Rightarrow> (Inl e, w')
     | (Inr b, w') \<Rightarrow> (case unmarshal d zero b of None \<Rightarrow> (Inl BadJSON, w') | Some x \<Rightarrow> (Inr x, w')))"

definition user_info :: "'w http \<Rightarrow> string \<Rightarrow> string \<Rightarrow> 'w \<Rightarrow> (auth_error + UserInfo) \<times> 'w" where
  "user_info http region token w = (case for_region region of
      None \<Rightarrow> (Inl UnsupportedRegion, w)
    | Some ep \<Rightarrow>
      (case do_json http ''GET'' (ep_user_info ep) token [] [] dec_user_info zero_user_info w of
         (Inl e, w') \<Rightarrow> (Inl e, w')
       | (Inr info, w') \<Rightarrow> if ui_id info = [] then (Inl NoUserID, w') else (Inr info, w')))"

text \<open>\<open>randomUUID\<close> of sixteen random bytes; \<open>None\<close> where the random source fails.\<close>

definition uuid_bytes :: "string \<Rightarrow> string" where
  "uuid_bytes b = b[6 := char_of (of_char (b ! 6) mod 16 + (0x40 :: nat)),
                    8 := char_of (of_char (b ! 8) mod 64 + (0x80 :: nat))]"

definition format_uuid :: "string \<Rightarrow> string" where
  "format_uuid b = (let u = uuid_bytes b; h = (\<lambda>i n. hex_encode (take n (drop i u)))
     in h 0 4 @ ''-'' @ h 4 2 @ ''-'' @ h 6 2 @ ''-'' @ h 8 2 @ ''-'' @ h 10 6)"

definition random_uuid :: "string option \<Rightarrow> string option" where
  "random_uuid rnd = map_option format_uuid rnd"

definition exchange_pat ::
  "'w http \<Rightarrow> int \<Rightarrow> string option \<Rightarrow> string \<Rightarrow> string \<Rightarrow> string \<Rightarrow> 'w \<Rightarrow> (auth_error + Account) \<times> 'w" where
  "exchange_pat http now rnd region pat machine_id w = (case for_region region of
      None \<Rightarrow> (Inl UnsupportedRegion, w)
    | Some ep \<Rightarrow>
      (case do_json http ''POST'' (ep_pat_exchange ep) [] (json_marshal (JObj [(''personal_token'', JStr pat)]))
              [(''Cosy-Version'', ''1.0.1''), (''Cosy-ClientType'', ''5'')] dec_token_response zero_token_response w of
         (Inl e, w1) \<Rightarrow> (Inl e, w1)
       | (Inr tr, w1) \<Rightarrow>
         if tr_token tr = [] then (Inl NoToken, w1)
         else (case user_info http region (tr_token tr) w1 of
             (Inl e, w2) \<Rightarrow> (Inl e, w2)
           | (Inr info, w2) \<Rightarrow>
             (case parse_expiry now (tr_expires_at tr) (tr_expires_in tr) of
                Inl e \<Rightarrow> (Inl e, w2)
              | Inr expires \<Rightarrow>
                (case (if machine_id = [] then random_uuid rnd else Some machine_id) of
                   None \<Rightarrow> (Inl RandomFailed, w2)
                 | Some machine \<Rightarrow>
                (Inr \<lparr>acc_id = region @ ''-'' @ ui_id info, acc_region = region, acc_token_kind = ''job'',
                   acc_access_token = tr_token tr, acc_refresh_token = tr_refresh_token tr,
                   acc_expires_at_ms = expires, acc_user_id = ui_id info,
                   acc_name = first_non_empty [ui_name info, ui_username info], acc_email = ui_email info,
                   acc_machine_id = machine, acc_transport = []\<rparr>, w2))))))"

definition auth_refresh :: "'w http \<Rightarrow> int \<Rightarrow> Account \<Rightarrow> 'w \<Rightarrow> (auth_error + Account) \<times> 'w" where
  "auth_refresh http now account w =
    (if acc_refresh_token account = [] then (Inl NoRefreshToken, w)
     else (case for_region (acc_region account) of
         None \<Rightarrow> (Inl UnsupportedRegion, w)
       | Some ep \<Rightarrow>
         (let url = (if acc_token_kind account = ''device'' then ep_device_refresh ep else ep_job_refresh ep) in
          case do_json http ''POST'' url [] (json_marshal (JObj [(''refresh_token'', JStr (acc_refresh_token account))]))
                 [] dec_token_response zero_token_response w of
            (Inl e, w') \<Rightarrow> (Inl e, w')
          | (Inr tr, w') \<Rightarrow>
            (let token = first_non_empty [tr_token tr, tr_device_token tr] in
             if token = [] then (Inl NoToken, w')
             else (case parse_expiry now (tr_expires_at tr) (tr_expires_in tr) of
                 Inl e \<Rightarrow> (Inl e, w')
               | Inr expires \<Rightarrow>
                 (Inr (account\<lparr>acc_access_token := token,
                     acc_refresh_token := (if tr_refresh_token tr \<noteq> [] then tr_refresh_token tr
                                           else acc_refresh_token account),
                     acc_expires_at_ms := expires\<rparr>), w'))))))"

definition quota :: "'w http \<Rightarrow> Account \<Rightarrow> 'w \<Rightarrow> (auth_error + string) \<times> 'w" where
  "quota http account w =
    do_json_body http ''GET'' (ep_quota_usage (endpoints_or_zero (acc_region account)))
      (acc_access_token account) [] [] w"

section \<open>The device flow\<close>

record DeviceFlow =
  df_verification_url :: string
  df_poll_url :: string
  df_machine_id :: string

text \<open>What the loop's \<open>select\<close> receives.\<close>

datatype poll_event = PollCancelled string | PollDeadline | PollTick

definition poll_request :: "DeviceFlow \<Rightarrow> HttpRequest" where
  "poll_request flow = \<lparr>rq_method = ''GET'', rq_url = df_poll_url flow,
     rq_headers = set_header ''User-Agent'' ''qoder-proxy/0.1.0'' (set_header ''Accept'' ''application/json'' []),
     rq_body = []\<rparr>"

definition device_account ::
  "'w http \<Rightarrow> int \<Rightarrow> DeviceFlow \<Rightarrow> string \<Rightarrow> 'w \<Rightarrow> (auth_error + Account) \<times> 'w" where
  "device_account http now flow b w = (case unmarshal dec_token_response zero_token_response b of
      None \<Rightarrow> (Inl BadJSON, w)
    | Some tr \<Rightarrow>
      (let token = first_non_empty [tr_token tr, tr_device_token tr] in
       if token = [] \<or> tr_user_id tr = [] then (Inl IncompleteCredentials, w)
       else (case parse_expiry now (tr_expires_at tr) (tr_expires_in tr) of
           Inl e \<Rightarrow> (Inl e, w)
         | Inr expires \<Rightarrow>
           (case user_info http ''global'' token w of
              (Inl e, w') \<Rightarrow> (Inl e, w')
            | (Inr info, w') \<Rightarrow>
              (Inr \<lparr>acc_id = ''global-'' @ tr_user_id tr, acc_region = ''global'', acc_token_kind = ''device'',
                 acc_access_token = token, acc_refresh_token = tr_refresh_token tr,
                 acc_expires_at_ms = expires, acc_user_id = tr_user_id tr,
                 acc_name = first_non_empty [ui_name info, ui_username info], acc_email = ui_email info,
                 acc_machine_id = df_machine_id flow, acc_transport = []\<rparr>, w')))))"

text \<open>\<open>None\<close> while the events given so far leave the loop waiting.\<close>

fun poll_device_flow ::
  "'w http \<Rightarrow> int \<Rightarrow> DeviceFlow \<Rightarrow> poll_event list \<Rightarrow> 'w \<Rightarrow> (auth_error + Account) option \<times> 'w" where
  "poll_device_flow http now flow [] w = (None, w)"
| "poll_device_flow http now flow (ev # evs) w = (case ev of
      PollCancelled e \<Rightarrow> (Some (Inl (ContextDone e)), w)
    | PollDeadline \<Rightarrow> (Some (Inl DeviceTimeout), w)
    | PollTick \<Rightarrow>
      (case http (poll_request flow) w of
         (Inl e, w1) \<Rightarrow> (Some (Inl (NetworkError e)), w1)
       | (Inr r, w1) \<Rightarrow>
         (case read_limited (2 ^ 20) r of
            Inl e \<Rightarrow> (Some (Inl (BodyReadError e)), w1)
          | Inr b \<Rightarrow>
            if rs_status r = 404 \<or> rs_status r = 202 then poll_device_flow http now flow evs w1
            else if rs_status r \<noteq> 200 then (Some (Inl (status_error ''device poll'' (rs_status r) b)), w1)
            else (case device_account http now flow b w1 of (res, w2) \<Rightarrow> (Some res, w2)))))"

section \<open>Accounts that come out of the token endpoints\<close>

lemma user_info_id: "user_info http region token w = (Inr info, w') \<Longrightarrow> ui_id info \<noteq> []"
  by (auto simp: user_info_def split: option.splits prod.splits sum.splits if_splits)

lemma for_region_names: "for_region region = Some ep \<Longrightarrow> region = ''global'' \<or> region = ''cn''"
  by (auto simp: for_region_def split: if_splits)

lemma length_uuid_bytes [simp]: "length (uuid_bytes b) = length b"
  by (simp add: uuid_bytes_def)

lemma length_format_uuid: "length b = 16 \<Longrightarrow> length (format_uuid b) = 36"
  by (simp add: format_uuid_def Let_def)

lemma refresh_identity:
  assumes "auth_refresh http now a w = (Inr b, w')"
  shows "\<exists>token refresh expires. token \<noteq> [] \<and>
    b = a\<lparr>acc_access_token := token, acc_refresh_token := refresh, acc_expires_at_ms := expires\<rparr>"
proof -
  have "acc_refresh_token a \<noteq> []" using assms by (auto simp: auth_refresh_def)
  moreover obtain ep where "for_region (acc_region a) = Some ep"
    using assms calculation by (cases "for_region (acc_region a)") (auto simp: auth_refresh_def)
  moreover obtain r w1 where do: "do_json http ''POST''
      (if acc_token_kind a = ''device'' then ep_device_refresh ep else ep_job_refresh ep) []
      (json_marshal (JObj [(''refresh_token'', JStr (acc_refresh_token a))])) [] dec_token_response
      zero_token_response w = (r, w1)" by (metis surj_pair)
  ultimately obtain tr where "r = Inr tr"
    using assms by (cases r) (simp_all add: auth_refresh_def Let_def)
  let ?token = "first_non_empty [tr_token tr, tr_device_token tr]"
  from assms do \<open>acc_refresh_token a \<noteq> []\<close> \<open>for_region (acc_region a) = Some ep\<close> \<open>r = Inr tr\<close>
  have "?token \<noteq> []" "\<exists>expires. b = a\<lparr>acc_access_token := ?token,
      acc_refresh_token := (if tr_refresh_token tr \<noteq> [] then tr_refresh_token tr else acc_refresh_token a),
      acc_expires_at_ms := expires\<rparr>"
    by (simp_all add: auth_refresh_def Let_def del: first_non_empty.simps split: if_split_asm sum.split_asm) auto
  then show ?thesis by blast
qed

lemma refresh_fields:
  assumes "auth_refresh http now a w = (Inr b, w')"
  shows "acc_id b = acc_id a" "acc_region b = acc_region a" "acc_user_id b = acc_user_id a"
    "acc_machine_id b = acc_machine_id a" "acc_token_kind b = acc_token_kind a" "acc_access_token b \<noteq> []"
  using refresh_identity [OF assms] by auto

interpretation auth_client: refresher "auth_refresh http now" for http now
  by unfold_locales (simp_all add: refresh_fields)

text \<open>
  The pool keeps its accounts.  With the authentication client as its refresher, an
  \<open>EnsureFresh\<close> leaves the ids of the pool's accounts as they are, in their order, and keeps
  every account valid, whatever the token endpoint answers.
\<close>

lemma ensure_fresh_keeps_accounts:
  assumes "ensure_fresh (Some (auth_refresh http now2)) store env now i force p fs w = (r, p', fs', w')"
    and "i < pool_count p" and "any_invalid (pool_accounts p) = None"
  shows "map acc_id (pool_accounts p') = map acc_id (pool_accounts p) \<and> any_invalid (pool_accounts p') = None"
  using auth_client.ids_kept [OF assms(1)] auth_client.valid_kept [OF assms(1)] assms(2,3)
  by (simp add: pool_count_def)

text \<open>A token endpoint for the concrete instances: it answers every request with one body.\<close>

definition answers :: "string \<Rightarrow> unit http" where
  "answers body req w = (Inr \<lparr>rs_status = 200, rs_headers = [], rs_body = body, rs_read_error = None\<rparr>, w)"

definition sample_token_json :: json where
  "sample_token_json = JObj [(''token'', JStr ''jt-9''), (''id'', JStr ''u''), (''user_id'', JStr ''u''),
     (''expires_in'', jint 3600)]"

lemma sample_token_parse: "json_parse (json_marshal sample_token_json) = JOk sample_token_json"
proof (rule json_parse_marshal)
  have "list_all valid_utf8 [''token'', ''jt-9'', ''id'', ''u'', ''user_id'', ''expires_in'']" by code_simp
  then show "json_ok 0 sample_token_json" by (simp add: sample_token_json_def eval_nat_numeral)
qed

definition sample_token :: tokenResponse where
  "sample_token = \<lparr>tr_token = ''jt-9'', tr_device_token = [], tr_refresh_token = [], tr_user_id = ''u'',
     tr_expires_at = None, tr_expires_in = 3600\<rparr>"

definition sample_user :: UserInfo where
  "sample_user = \<lparr>ui_id = ''u'', ui_name = [], ui_username = [], ui_email = []\<rparr>"

lemma sample_token_decoded:
  "unmarshal dec_token_response zero_token_response (json_marshal sample_token_json) =
     Some sample_token"
  "unmarshal dec_user_info zero_user_info (json_marshal sample_token_json) = Some sample_user"
proof -
  have names: "list_all plain_name [''token'', ''device_token'', ''refresh_token'', ''user_id'', ''expires_at'',
      ''expires_in'', ''id'', ''name'', ''username'', ''email'']" by code_simp
  have i: "in64 3600" by (simp add: in64_def)
  show "unmarshal dec_token_response zero_token_response (json_marshal sample_token_json) =
      Some sample_token"
    using names i by (simp add: unmarshal_def sample_token_parse)
      (simp add: sample_token_json_def sample_token_def zero_token_response_def dec_token_response_def
        dec_struct_def key_is_plain)
  show "unmarshal dec_user_info zero_user_info (json_marshal sample_token_json) = Some sample_user"
    using names i by (simp add: unmarshal_def sample_token_parse)
      (simp add: sample_token_json_def sample_user_def zero_user_info_def dec_user_info_def dec_struct_def
        key_is_plain)
qed

lemma short_body: "int (length (json_marshal sample_token_json)) < 2 ^ 20"
proof -
  have "length (json_marshal sample_token_json) < 100" by code_simp
  then show ?thesis by simp
qed

lemma answers_json [simp]:
  "do_json_body (answers (json_marshal sample_token_json)) method url token body extra () =
     (Inr (json_marshal sample_token_json), ())"
  using short_body by (simp add: do_json_body_def answers_def read_limited_def)

lemma ensure_fresh_keeps_accounts_witness:
  "case ensure_fresh (Some (auth_refresh (answers (json_marshal sample_token_json)) 0)) None (env_failing []) 0 0 True
      (new_pool [sample_account ''global-u'' ''u'']) Map.empty ()
   of (r, p', fs', w') \<Rightarrow> map acc_id (pool_accounts p') = [''global-u'']"
proof -
  obtain r p' fs' w' where run: "ensure_fresh (Some (auth_refresh (answers (json_marshal sample_token_json)) 0)) None
      (env_failing []) 0 0 True (new_pool [sample_account ''global-u'' ''u'']) Map.empty () = (r, p', fs', w')"
    by (metis prod.collapse)
  have "any_invalid (pool_accounts (new_pool [sample_account ''global-u'' ''u''])) = None"
    using sample_valid by (simp add: new_pool_def new_entry_def pool_accounts_def)
  with ensure_fresh_keeps_accounts [OF run] show ?thesis
    unfolding run by (simp add: new_pool_def new_entry_def pool_accounts_def pool_count_def sample_account_def)
qed

text \<open>
  A personal access token gives a usable account.  When \<open>ExchangePAT\<close> succeeds, the
  account passes the store's validation and has its canonical id, so that storing it keeps
  the ids distinct.
\<close>

lemma exchange_pat_valid:
  assumes "exchange_pat http now rnd region pat machine_id w = (Inr a, w')" and "rnd = Some b" and "length b = 16"
  shows "validate_account a = None \<and> canonical a \<and> acc_region a = region \<and> acc_token_kind a = ''job''"
proof -
  from length_format_uuid [OF assms(3)] have uuid: "format_uuid b \<noteq> []" by auto
  obtain ep where ep: "for_region region = Some ep"
    using assms(1) by (cases "for_region region") (simp_all add: exchange_pat_def)
  obtain r1 w1 where d1: "do_json http ''POST'' (ep_pat_exchange ep) []
      (json_marshal (JObj [(''personal_token'', JStr pat)])) [(''Cosy-Version'', ''1.0.1''), (''Cosy-ClientType'', ''5'')]
      dec_token_response zero_token_response w = (r1, w1)" by (metis surj_pair)
  obtain tr where r1: "r1 = Inr tr" and token: "tr_token tr \<noteq> []"
    using assms(1) ep d1 by (cases r1) (auto simp: exchange_pat_def split: if_split_asm)
  obtain r2 w2 where d2: "user_info http region (tr_token tr) w1 = (r2, w2)" by (metis surj_pair)
  obtain info where r2: "r2 = Inr info"
    using assms(1) ep d1 r1 token d2 by (cases r2) (simp_all add: exchange_pat_def)
  obtain expires where e: "parse_expiry now (tr_expires_at tr) (tr_expires_in tr) = Inr expires"
    using assms(1) ep d1 r1 token d2 r2
    by (cases "parse_expiry now (tr_expires_at tr) (tr_expires_in tr)") (simp_all add: exchange_pat_def)
  define machine where "machine = (if machine_id = [] then format_uuid b else machine_id)"
  have "machine \<noteq> []" using uuid by (simp add: machine_def)
  moreover have "(if machine_id = [] then random_uuid rnd else Some machine_id) = Some machine"
    using assms(2) by (simp add: machine_def random_uuid_def)
  ultimately have "acc_id a = region @ ''-'' @ ui_id info" "acc_region a = region" "acc_token_kind a = ''job''"
    "acc_access_token a \<noteq> []" "acc_user_id a = ui_id info" "acc_machine_id a \<noteq> []"
    using assms(1) ep d1 r1 token d2 r2 e by (auto simp: exchange_pat_def)
  moreover have "ui_id info \<noteq> []"
    using user_info_id [of http region "tr_token tr" w1 info w2] d2 r2 by simp
  ultimately show ?thesis using for_region_names [OF ep] by (auto simp: validate_account_def canonical_def)
qed

lemma exchange_pat_valid_witness:
  "case exchange_pat (answers (json_marshal sample_token_json)) 0 (Some (replicate 16 (CHR 0x00))) ''cn'' ''pt-1'' [] ()
   of (Inr a, w) \<Rightarrow> validate_account a = None \<and> acc_id a = ''cn-u'' | (Inl _, w) \<Rightarrow> False"
proof -
  let ?run = "exchange_pat (answers (json_marshal sample_token_json)) 0 (Some (replicate 16 (CHR 0x00))) ''cn'' ''pt-1'' [] ()"
  have "do_json (answers (json_marshal sample_token_json)) meth url token body extra
      dec_token_response zero_token_response () = (Inr sample_token, ())" for meth url token body extra
    by (simp add: do_json_def sample_token_decoded)
  moreover have "do_json (answers (json_marshal sample_token_json)) meth url token body extra
      dec_user_info zero_user_info () = (Inr sample_user, ())" for meth url token body extra
    by (simp add: do_json_def sample_token_decoded)
  ultimately obtain a where run: "?run = (Inr a, ())" and ident: "acc_id a = ''cn-u''"
    by (simp add: exchange_pat_def for_region_def user_info_def sample_token_def sample_user_def
        parse_expiry_def random_uuid_def)
  from exchange_pat_valid [OF run refl] ident show ?thesis unfolding run by simp
qed

lemma device_account_valid:
  assumes "df_machine_id flow \<noteq> []" and "device_account http now flow b w1 = (Inr a, w2)"
  shows "validate_account a = None \<and> canonical a \<and> acc_token_kind a = ''device''"
proof -
  obtain tr where tr: "unmarshal dec_token_response zero_token_response b = Some tr"
    using assms(2) by (cases "unmarshal dec_token_response zero_token_response b") (simp_all add: device_account_def)
  let ?t = "first_non_empty [tr_token tr, tr_device_token tr]"
  have ne: "?t \<noteq> []" "tr_user_id tr \<noteq> []"
    using assms(2) tr by (auto simp: device_account_def Let_def simp del: first_non_empty.simps)
  obtain expires where e: "parse_expiry now (tr_expires_at tr) (tr_expires_in tr) = Inr expires"
    using assms(2) tr ne
    by (cases "parse_expiry now (tr_expires_at tr) (tr_expires_in tr)")
      (simp_all add: device_account_def Let_def del: first_non_empty.simps)
  obtain r w3 where u: "user_info http ''global'' ?t w1 = (r, w3)" by (metis surj_pair)
  from assms tr ne e u show ?thesis
    by (cases r) (auto simp: device_account_def Let_def validate_account_def canonical_def
        simp del: first_non_empty.simps)
qed

text \<open>
  So does the browser login.  Whatever the server answers to the polls, an account
  that \<open>PollDeviceFlow\<close> returns is valid and canonical; and the loop returns as soon as the
  context is cancelled or the five minutes are over.
\<close>

lemma device_flow_valid:
  assumes "df_machine_id flow \<noteq> []"
  shows "(case fst (poll_device_flow http now flow evs w) of
       Some (Inr a) \<Rightarrow> validate_account a = None \<and> canonical a \<and> acc_token_kind a = ''device''
     | _ \<Rightarrow> True)
    \<and> (list_all (\<lambda>ev. ev = PollTick) evs \<or> fst (poll_device_flow http now flow evs w) \<noteq> None)"
proof (induction evs arbitrary: w)
  case Nil
  then show ?case by simp
next
  case (Cons ev evs)
  show ?case
  proof (cases ev)
    case PollTick
    obtain r w1 where h: "http (poll_request flow) w = (r, w1)" by (metis surj_pair)
    show ?thesis
    proof (cases r)
      case (Inl e)
      with PollTick h show ?thesis by simp
    next
      case (Inr resp)
      show ?thesis
      proof (cases "read_limited (2 ^ 20) resp")
        case (Inl e)
        with Inr PollTick h show ?thesis by simp
      next
        case body: (Inr b)
        obtain res w2 where d: "device_account http now flow b w1 = (res, w2)" by (metis surj_pair)
        have valid: "case res of Inl _ \<Rightarrow> True
            | Inr a \<Rightarrow> validate_account a = None \<and> canonical a \<and> acc_token_kind a = ''device''"
        proof (cases res)
          case (Inr a)
          with device_account_valid [OF assms, of http now b w1 a w2] d show ?thesis by simp
        qed simp
        show ?thesis using Inr body PollTick h d valid Cons.IH [of w1]
          by (cases "rs_status resp = 404 \<or> rs_status resp = 202") (auto simp: status_error_def)
      qed
    qed
  qed simp_all
qed

lemma device_flow_valid_witness:
  "fst (poll_device_flow (answers (json_marshal sample_token_json)) 0 \<lparr>df_verification_url = [], df_poll_url = ''u'', df_machine_id = ''m''\<rparr>
     [PollDeadline] ()) \<noteq> None"
  using device_flow_valid [of "\<lparr>df_verification_url = [], df_poll_url = ''u'', df_machine_id = ''m''\<rparr>" "answers (json_marshal sample_token_json)"
      0 "[PollDeadline]" "()"] by simp

section \<open>Expiry and identifiers\<close>

definition not_edge_space :: "char \<Rightarrow> bool" where
  "not_edge_space c \<longleftrightarrow> list_all (\<lambda>p. p \<noteq> [] \<and> hd p \<noteq> c \<and> last p \<noteq> c) space_seqs"

lemma strip_seqs_none:
  assumes "list_all (\<lambda>p. p \<noteq> [] \<and> hd p \<noteq> c) ps"
  shows "strip_seqs ps (c # s) = c # s"
proof -
  from assms have "strip_seq ps (c # s) = None"
    by (induction ps) (auto simp: has_prefix_iff prefix_Cons)
  then show ?thesis by (simp add: strip_seqs.simps)
qed

lemma trim_space_same:
  assumes "s \<noteq> []" and "not_edge_space (hd s)" and "not_edge_space (last s)"
  shows "trim_space s = s"
proof -
  obtain c r where s: "s = c # r" using assms(1) by (cases s) auto
  have "list_all (\<lambda>p. p \<noteq> [] \<and> hd p \<noteq> c) space_seqs"
    using assms(2) s by (auto simp: not_edge_space_def list_all_iff)
  then have left: "trim_left_space s = s" using s by (simp add: trim_left_space_def strip_seqs_none)
  obtain q where rs: "rev s = last s # q" using assms(1) by (metis append_butlast_last_id rev.simps(2) rev_rev_ident rev_swap)
  have "list_all (\<lambda>p. p \<noteq> [] \<and> hd p \<noteq> last s) (map rev space_seqs)"
    using assms(3) by (auto simp: not_edge_space_def list_all_iff hd_rev)
  then have "strip_seqs (map rev space_seqs) (rev s) = rev s" unfolding rs by (rule strip_seqs_none)
  with left show ?thesis by (simp add: trim_space_def trim_right_space_def)
qed

lemma digit_not_edge: "is_digit c \<Longrightarrow> not_edge_space c"
proof -
  have "list_all (\<lambda>p. p \<noteq> [] \<and> \<not> is_digit (hd p) \<and> \<not> is_digit (last p)) space_seqs" by code_simp
  then show "is_digit c \<Longrightarrow> not_edge_space c" by (auto simp: not_edge_space_def list_all_iff)
qed

lemma trim_digits: "list_all is_digit s \<Longrightarrow> trim_space s = s"
proof (cases s)
  case (Cons c r)
  moreover assume "list_all is_digit s"
  ultimately have "is_digit (hd s)" "is_digit (last s)" by (auto simp: list_all_iff)
  with Cons show ?thesis by (intro trim_space_same) (simp_all add: digit_not_edge)
next
  case Nil
  have "trim_space [] = []" by code_simp
  with Nil show ?thesis by simp
qed

lemma digits_not_rfc3339: "list_all is_digit s \<Longrightarrow> parse_rfc3339 s = None"
proof -
  assume s: "list_all is_digit s"
  have "get_lit (CHR ''-'') (drop 4 s) = None"
  proof (cases "drop 4 s")
    case (Cons c r)
    with s have "is_digit c" by (metis in_set_dropD list.set_intros(1) list_all_iff)
    then have "c \<noteq> CHR ''-''" by (auto simp: is_digit_def)
    with Cons show ?thesis by (simp add: get_lit_def)
  qed (simp add: get_lit_def)
  then show ?thesis by (simp add: parse_rfc3339_def get_year_def)
qed

lemma show_int_digits: "0 \<le> n \<Longrightarrow> list_all is_digit (show_int n) \<and> show_int n \<noteq> []"
  using show_nat_digits [of "nat n"] by (simp add: show_int_def)

text \<open>
  The ways to write an expiry agree.  A positive number below a hundred thousand
  million is taken for seconds, a larger one for milliseconds, and it makes no difference
  whether the token response has it as a JSON number or as a string.
\<close>

lemma parse_expiry_units:
  assumes "0 < n" and "n < 2 ^ 63"
  shows "parse_expiry now (Some (jint n)) k = Inr (if n < 100000000000 then n * 1000 else n)
    \<and> parse_expiry now (Some (JStr (show_int n))) k = parse_expiry now (Some (jint n)) k"
proof -
  have n: "in64 n" using assms by (simp add: in64_def)
  have digits: "list_all is_digit (show_int n)" "show_int n \<noteq> []"
    using show_int_digits [of n] assms by simp_all
  have norm: "normalize_epoch n = (if n < 100000000000 then n * 1000 else n)"
    using assms by (simp add: normalize_epoch_def)
  have num: "parse_expiry now (Some (jint n)) k = Inr (normalize_epoch n)"
    using assms dec_int_jint [OF n, of 0] by (simp add: parse_expiry_def) (simp add: jint_def)
  have "expires_at_text (show_int n) = Some (normalize_epoch n)"
    using digits assms parse_show_int [OF n]
    by (simp add: expires_at_text_def trim_digits digits_not_rfc3339)
  then have "parse_expiry now (Some (JStr (show_int n))) k = Inr (normalize_epoch n)"
    using digits(2) by (simp add: parse_expiry_def)
  with num norm show ?thesis by simp
qed

lemma parse_expiry_units_witness:
  "parse_expiry 0 (Some (JStr (show_int 1700000000))) 0 = Inr 1700000000000"
  using parse_expiry_units [of 1700000000 0 0] by simp

text \<open>A UTC timestamp as the token endpoints send it.\<close>

definition two_digits :: "nat \<Rightarrow> string" where
  "two_digits n = [digit_char (n div 10), digit_char n]"

definition format_utc :: "nat \<Rightarrow> nat \<Rightarrow> nat \<Rightarrow> nat \<Rightarrow> nat \<Rightarrow> nat \<Rightarrow> string" where
  "format_utc y m d h mi s =
    two_digits (y div 100) @ two_digits (y mod 100) @ ''-'' @ two_digits m @ ''-'' @ two_digits d @ ''T'' @
    two_digits h @ '':'' @ two_digits mi @ '':'' @ two_digits s @ ''Z''"

lemma digit_val_char [simp]: "digit_val (digit_char n) = int (n mod 10)"
  by (simp add: digit_val_def)

lemma two_digit_value: "n < 100 \<Longrightarrow> int (n div 10 mod 10) * 10 + int (n mod 10) = int n"
proof -
  assume "n < 100"
  then have "n div 10 mod 10 * 10 + n mod 10 = n" by simp
  then show ?thesis by presburger
qed

lemma get_num_two: "n < 100 \<Longrightarrow> get_num fixed (two_digits n @ s) = Some (int n, s)"
  using two_digit_value [of n] by (simp add: get_num_def two_digits_def)

lemma get_year_four:
  assumes "y < 10000"
  shows "get_year (two_digits (y div 100) @ two_digits (y mod 100) @ s) = Some (int y, s)"
proof -
  have q: "y div 100 < 100" "y mod 100 < 100" using assms by (simp_all add: less_mult_imp_div_less)
  have "digits_val (two_digits (y div 100) @ two_digits (y mod 100)) =
      (int (y div 100 div 10 mod 10) * 10 + int (y div 100 mod 10)) * 100
      + (int (y mod 100 div 10 mod 10) * 10 + int (y mod 100 mod 10))"
    by (simp add: digits_val_def two_digits_def)
  also have "\<dots> = int (y div 100) * 100 + int (y mod 100)"
    by (simp only: two_digit_value [OF q(1)] two_digit_value [OF q(2)])
  also have "\<dots> = int y" by presburger
  finally show ?thesis by (simp add: get_year_def two_digits_def)
qed

lemma get_lit_same: "get_lit c (c # s) = Some s"
  by (simp add: get_lit_def)

text \<open>
  An RFC 3339 timestamp is read as the moment it names.  For every calendar date from
  the year 0 to 9999 and every time of day, the expiry is the number of milliseconds from
  1970 to that moment.
\<close>

lemma parse_expiry_timestamp:
  assumes "y < 10000" and "1 \<le> m" and "m \<le> 12" and "1 \<le> d" and "int d \<le> days_in (int y) (int m)"
    and "h < 24" and "mi < 60" and "s < 60"
  shows "parse_expiry now (Some (JStr (format_utc y m d h mi s))) k =
    Inr ((days_from_civil (int y) (int m) (int d) * 86400 + int h * 3600 + int mi * 60 + int s) * 1000)"
proof -
  have d: "d < 100" using assms(5) by (auto simp: days_in_def split: if_splits)
  let ?t = "format_utc y m d h mi s"
  have "is_digit (hd ?t)" "last ?t = CHR ''Z''" "?t \<noteq> []"
    by (simp_all add: format_utc_def two_digits_def)
  moreover have "not_edge_space (CHR ''Z'')" by code_simp
  ultimately have trim: "trim_space ?t = ?t" by (intro trim_space_same) (simp_all add: digit_not_edge)
  have clock: "parse_clock (two_digits h @ CHR '':'' # two_digits mi @ CHR '':'' # two_digits s @ ''Z'') =
      Some (int h * 3600 + int mi * 60 + int s, 0, ''Z'')"
    using assms by (simp add: parse_clock_def get_num_two get_lit_same get_fraction_def)
  have zone: "get_zone ''Z'' = Some (0, [])" by (simp add: get_zone_def)
  have "format_utc y m d h mi s = two_digits (y div 100) @ two_digits (y mod 100) @ CHR ''-'' # two_digits m @
      CHR ''-'' # two_digits d @ CHR ''T'' # two_digits h @ CHR '':'' # two_digits mi @ CHR '':'' # two_digits s @ ''Z''"
    by (simp add: format_utc_def)
  then have "parse_rfc3339 ?t = Some ((days_from_civil (int y) (int m) (int d) * 86400 + int h * 3600 + int mi * 60 + int s) * 1000)"
    using assms d unfolding parse_rfc3339_def
    by (simp only: get_year_four get_num_two get_lit_same clock zone bind.bind_lunit case_prod_conv Let_def) simp
  with trim \<open>?t \<noteq> []\<close> show ?thesis by (simp add: parse_expiry_def expires_at_text_def)
qed

lemma parse_expiry_timestamp_witness:
  "parse_expiry 0 (Some (JStr (format_utc 2024 2 29 12 30 15))) 0 = Inr 1709209815000"
  using parse_expiry_timestamp [of 2024 2 29 12 30 15 0 0]
  by (simp add: days_in_def is_leap_def days_from_civil_def)

text \<open>
  Without a timestamp the lifetime counts from now.  Up to a year it is taken for
  seconds, above for milliseconds; the result is later than now for every lifetime up to
  \<open>2 ^ 62\<close>, but a larger one can overflow to a moment in the past.
\<close>

lemma parse_expiry_lifetime:
  assumes "0 < k" and "k \<le> 2 ^ 62" and "0 \<le> now" and "now < 2 ^ 62"
  shows "case parse_expiry now None k of
      Inr ms \<Rightarrow> ms > now div millisecond \<and>
        ms = now div millisecond + (if k \<le> 31536000 then k * 1000 else k)
    | Inl e \<Rightarrow> False"
proof -
  have "(now + k * second) div millisecond = now div millisecond + k * 1000"
    using div_mult_self1 [of millisecond now "k * 1000"] by (simp add: algebra_simps)
  moreover have "now div millisecond + k < 2 ^ 63" "0 \<le> now div millisecond" using assms by auto
  ultimately show ?thesis using assms by (simp add: parse_expiry_def)
qed

lemma parse_expiry_lifetime_witness:
  "parse_expiry 1000000000 None 3600 = Inr 3601000"
  using parse_expiry_lifetime [of 3600 1000000000] by (simp split: sum.splits)

lemma format_positions:
  assumes "length u = 16"
  defines "h \<equiv> \<lambda>i n. hex_encode (take n (drop i u))"
  defines "f \<equiv> h 0 4 @ ''-'' @ h 4 2 @ ''-'' @ h 6 2 @ ''-'' @ h 8 2 @ ''-'' @ h 10 6"
  shows "f ! 8 = CHR ''-'' \<and> f ! 13 = CHR ''-'' \<and> f ! 18 = CHR ''-'' \<and> f ! 23 = CHR ''-''
    \<and> f ! 14 = hex_byte (u ! 6) ! 0 \<and> f ! 19 = hex_byte (u ! 8) ! 0"
proof -
  obtain a0 a1 a2 a3 a4 a5 a6 a7 a8 a9 a10 a11 a12 a13 a14 a15
    where "u = [a0,a1,a2,a3,a4,a5,a6,a7,a8,a9,a10,a11,a12,a13,a14,a15]"
    using assms(1) by (auto simp: length_Suc_conv eval_nat_numeral)
  then show ?thesis by (simp add: f_def h_def hex_encode_def hex_byte_def)
qed

text \<open>
  A machine id is a version 4 UUID.  It has 36 characters with hyphens in the usual
  places, the version digit is 4 and the variant digit one of 8, 9, a, b; the other 122 bits
  are those of the random bytes.
\<close>

lemma machine_id_is_uuid4:
  assumes "length b = 16"
  shows "length (format_uuid b) = 36 \<and> format_uuid b ! 8 = CHR ''-'' \<and> format_uuid b ! 13 = CHR ''-''
    \<and> format_uuid b ! 18 = CHR ''-'' \<and> format_uuid b ! 23 = CHR ''-'' \<and> format_uuid b ! 14 = CHR ''4''
    \<and> format_uuid b ! 19 \<in> set ''89ab''
    \<and> (\<forall>i. i = 6 \<or> i = 8 \<or> uuid_bytes b ! i = b ! i)"
proof -
  have v: "hex_digit ((of_char (b ! 6) mod 16 + 64) div 16) = CHR ''4''"
  proof -
    have "(of_char (b ! 6) mod 16 + 64) div 16 = (4 :: nat)" by simp
    then show ?thesis by (simp add: hex_digit_def)
  qed
  have w: "hex_digit ((of_char (b ! 8) mod 64 + 128) div 16) \<in> set ''89ab''"
  proof -
    have "of_char (b ! 8) mod 64 < (64 :: nat)" by simp
    then have "(of_char (b ! 8) mod 64 + 128) div 16 \<in> {8, 9, 10, 11 :: nat}" by auto
    then show ?thesis by (auto simp: hex_digit_def)
  qed
  have small: "of_char (b ! 6) mod 16 + 64 < (256 :: nat)" "of_char (b ! 8) mod 64 + 128 < (256 :: nat)"
    using mod_less_divisor [of 16 "of_char (b ! 6) :: nat"] mod_less_divisor [of 64 "of_char (b ! 8) :: nat"]
    by linarith+
  have u: "uuid_bytes b ! 6 = char_of (of_char (b ! 6) mod 16 + (64 :: nat))"
    "uuid_bytes b ! 8 = char_of (of_char (b ! 8) mod 64 + (128 :: nat))"
    using assms by (simp_all add: uuid_bytes_def)
  have "hex_byte (uuid_bytes b ! 6) ! 0 = CHR ''4''" "hex_byte (uuid_bytes b ! 8) ! 0 \<in> set ''89ab''"
    unfolding hex_byte_def u using v w small by simp_all
  moreover have "\<forall>i. i = 6 \<or> i = 8 \<or> uuid_bytes b ! i = b ! i"
    unfolding uuid_bytes_def by (metis nth_list_update_neq)
  ultimately show ?thesis
    using format_positions [of "uuid_bytes b"] length_format_uuid [OF assms] assms
    by (simp add: format_uuid_def Let_def)
qed

lemma machine_id_is_uuid4_witness: "length (format_uuid (replicate 16 (CHR 0xFF))) = 36"
  using machine_id_is_uuid4 [of "replicate 16 (CHR 0xFF)"] by simp

end
