(* ===== verification/Catalog.thy ===== *)
theory Catalog
  imports Auth "HOL-Library.AList"
begin

text \<open>
  \<open>internal/qoder/catalog.go\<close>: the models the upstream offers, fetched with signed
  requests, and the one snapshot the program keeps of them.  \<open>sign\<close> is
  \<open>CosySigner.Headers\<close>.  A map from strings is an association list in which a later
  member replaces an earlier one.
\<close>

section \<open>Maps from strings\<close>

fun dec_map_members :: "'a dec \<Rightarrow> 'a \<Rightarrow> (string \<times> json) list \<Rightarrow> (string \<times> 'a) list \<Rightarrow> (string \<times> 'a) list option" where
  "dec_map_members d zero [] m = Some m"
| "dec_map_members d zero ((k, j) # kvs) m =
     (case d j zero of None \<Rightarrow> None | Some x \<Rightarrow> dec_map_members d zero kvs (AList.update k x m))"

definition dec_map :: "'a dec \<Rightarrow> 'a \<Rightarrow> (string \<times> 'a) list dec" where
  "dec_map d zero j m = (case j of
      JNull \<Rightarrow> Some []
    | JObj kvs \<Rightarrow> dec_map_members d zero kvs m
    | _ \<Rightarrow> None)"

definition dec_json_value :: "json dec" where
  "dec_json_value j x = Some j"

section \<open>Models\<close>

record Model =
  md_id :: string
  md_upstream_key :: string
  md_display_name :: string
  md_is_vl :: bool
  md_is_reasoning :: bool
  md_thinking :: "(string \<times> json) list"
  md_source :: string
  md_context_window :: int
  md_raw_config :: json

definition zero_model :: Model where
  "zero_model = \<lparr>md_id = [], md_upstream_key = [], md_display_name = [], md_is_vl = False,
     md_is_reasoning = False, md_thinking = [], md_source = [], md_context_window = 0, md_raw_config = JNull\<rparr>"

text \<open>The entries of the upstream's list.\<close>

record ModelEntry =
  me_key :: string
  me_enable :: bool
  me_display_name :: string
  me_max_input_tokens :: int
  me_context_config :: "(string \<times> int) list"
  me_is_vl :: bool
  me_is_reasoning :: bool
  me_thinking :: "(string \<times> json) list"
  me_source :: string

definition zero_entry :: ModelEntry where
  "zero_entry = \<lparr>me_key = [], me_enable = False, me_display_name = [], me_max_input_tokens = 0,
     me_context_config = [], me_is_vl = False, me_is_reasoning = False, me_thinking = [], me_source = []\<rparr>"

definition dec_token_count :: "int dec" where
  "dec_token_count = dec_struct (\<lambda>k j n. if key_is ''token_count'' k then dec_int j n else Some n)"

definition dec_entry :: "ModelEntry dec" where
  "dec_entry = dec_struct (\<lambda>k j r.
     if key_is ''key'' k then map_option (\<lambda>x. r\<lparr>me_key := x\<rparr>) (dec_string j (me_key r))
     else if key_is ''enable'' k then map_option (\<lambda>x. r\<lparr>me_enable := x\<rparr>) (dec_bool j (me_enable r))
     else if key_is ''display_name'' k then
       map_option (\<lambda>x. r\<lparr>me_display_name := x\<rparr>) (dec_string j (me_display_name r))
     else if key_is ''max_input_tokens'' k then
       map_option (\<lambda>x. r\<lparr>me_max_input_tokens := x\<rparr>) (dec_int j (me_max_input_tokens r))
     else if key_is ''context_config'' k then
       map_option (\<lambda>x. r\<lparr>me_context_config := x\<rparr>) (dec_map dec_token_count 0 j (me_context_config r))
     else if key_is ''is_vl'' k then map_option (\<lambda>x. r\<lparr>me_is_vl := x\<rparr>) (dec_bool j (me_is_vl r))
     else if key_is ''is_reasoning'' k then
       map_option (\<lambda>x. r\<lparr>me_is_reasoning := x\<rparr>) (dec_bool j (me_is_reasoning r))
     else if key_is ''thinking_config'' k then
       map_option (\<lambda>x. r\<lparr>me_thinking := x\<rparr>) (dec_map dec_json_value JNull j (me_thinking r))
     else if key_is ''source'' k then map_option (\<lambda>x. r\<lparr>me_source := x\<rparr>) (dec_string j (me_source r))
     else Some r)"

text \<open>\<open>[]json.RawMessage\<close>: the elements themselves.\<close>

definition dec_chat_list :: "json list dec" where
  "dec_chat_list = dec_struct (\<lambda>k j r. if key_is ''chat'' k then dec_list dec_json_value JNull j r else Some r)"

definition context_window :: "ModelEntry \<Rightarrow> int" where
  "context_window en =
    (let w = fold (\<lambda>(_, n) w. if n > w then n else w) (me_context_config en) 0
     in if w = 0 then me_max_input_tokens en else w)"

definition model_of_entry :: "json \<Rightarrow> Model option" where
  "model_of_entry raw = (case dec_entry raw zero_entry of
      None \<Rightarrow> None
    | Some en \<Rightarrow>
      if \<not> me_enable en \<or> me_key en = [] then None
      else Some \<lparr>md_id = me_key en, md_upstream_key = me_key en,
        md_display_name = (if me_display_name en = [] then me_key en else me_display_name en),
        md_is_vl = me_is_vl en, md_is_reasoning = (me_is_reasoning en \<or> me_thinking en \<noteq> []),
        md_thinking = me_thinking en, md_source = me_source en,
        md_context_window = context_window en, md_raw_config = raw\<rparr>)"

datatype catalog_error =
    CatUnsupportedRegion
  | CatSign string
  | CatNetwork string
  | CatRead string
  | CatStatus int string
  | CatBadJSON
  | CatNoModels

type_synonym 'w signer = "string \<Rightarrow> string \<Rightarrow> Account \<Rightarrow> 'w \<Rightarrow> (string + (string \<times> string) list) \<times> 'w"

definition catalog_models :: "string \<Rightarrow> catalog_error + Model list" where
  "catalog_models b = (case json_parse b of
      JOk j \<Rightarrow>
        (case dec_chat_list j [] of
           None \<Rightarrow> Inl CatBadJSON
         | Some raws \<Rightarrow>
           (let models = List.map_filter model_of_entry raws in
            if models = [] then Inl CatNoModels else Inr (sort_key md_id models)))
    | _ \<Rightarrow> Inl CatBadJSON)"

definition catalog_fetch :: "'w http \<Rightarrow> 'w signer \<Rightarrow> Account \<Rightarrow> 'w \<Rightarrow> (catalog_error + Model list) \<times> 'w" where
  "catalog_fetch http sign account w = (case for_region (acc_region account) of
      None \<Rightarrow> (Inl CatUnsupportedRegion, w)
    | Some ep \<Rightarrow>
      (case sign [] (ep_model_list ep) account w of
         (Inl e, w1) \<Rightarrow> (Inl (CatSign e), w1)
       | (Inr headers, w1) \<Rightarrow>
         (case http \<lparr>rq_method = ''GET'', rq_url = ep_model_list ep,
              rq_headers = set_header ''Accept-Encoding'' ''identity'' (set_header ''Accept'' ''application/json'' headers),
              rq_body = []\<rparr> w1 of
            (Inl e, w') \<Rightarrow> (Inl (CatNetwork e), w')
          | (Inr resp, w') \<Rightarrow>
            (case read_limited (4 * 2 ^ 20) resp of
               Inl e \<Rightarrow> (Inl (CatRead e), w')
             | Inr b \<Rightarrow>
               if rs_status resp \<noteq> 200
               then (Inl (CatStatus (rs_status resp) (sanitize_snippet b 256)), w')
               else (catalog_models b, w')))))"

section \<open>The snapshot\<close>

record CatalogSnapshot =
  cs_models :: "Model list"
  cs_fetched_at :: instant
  cs_account_id :: string
  cs_degraded :: bool
  cs_last_error :: "catalog_error option"

record Catalog =
  ct_ttl :: duration
  ct_snapshot :: CatalogSnapshot

definition new_catalog :: "duration \<Rightarrow> Catalog" where
  "new_catalog ttl = \<lparr>ct_ttl = ttl, ct_snapshot = \<lparr>cs_models = [], cs_fetched_at = None, cs_account_id = [],
     cs_degraded = False, cs_last_error = None\<rparr>\<rparr>"

definition lite_model :: Model where
  "lite_model = \<lparr>md_id = ''lite'', md_upstream_key = ''lite'', md_display_name = ''Lite'', md_is_vl = False,
     md_is_reasoning = False, md_thinking = [], md_source = ''system'', md_context_window = 180000,
     md_raw_config = JObj [(''key'', JStr ''lite''), (''display_name'', JStr ''Lite''), (''enable'', JBool True),
       (''max_input_tokens'', jint 180000), (''is_vl'', JBool False), (''is_reasoning'', JBool False),
       (''source'', JStr ''system'')]\<rparr>"

definition snapshot_fresh :: "int \<Rightarrow> Catalog \<Rightarrow> Account \<Rightarrow> bool" where
  "snapshot_fresh now c account =
    (let s = ct_snapshot c in
     cs_models s \<noteq> [] \<and> cs_account_id s = acc_id account \<and> \<not> cs_degraded s \<and>
     (case cs_fetched_at s of None \<Rightarrow> False | Some t \<Rightarrow> now - t < ct_ttl c))"

text \<open>The part of \<open>Get\<close> after the fetch, under the catalog's lock: the snapshot, the error and
  the catalog afterwards.\<close>

definition catalog_update ::
  "int \<Rightarrow> Account \<Rightarrow> catalog_error + Model list \<Rightarrow> Catalog \<Rightarrow> (CatalogSnapshot \<times> catalog_error option) \<times> Catalog" where
  "catalog_update now account fetched c =
    (let put = (\<lambda>s. c\<lparr>ct_snapshot := s\<rparr>);
         err = (case fetched of Inl e \<Rightarrow> Some e | Inr _ \<Rightarrow> None);
         models = (case fetched of Inl _ \<Rightarrow> [] | Inr ms \<Rightarrow> ms) in
     if err = None \<and> models \<noteq> [] then
       (let s = \<lparr>cs_models = models, cs_fetched_at = Some now, cs_account_id = acc_id account,
                 cs_degraded = False, cs_last_error = None\<rparr> in ((s, None), put s))
     else if cs_models (ct_snapshot c) \<noteq> [] \<and> \<not> cs_degraded (ct_snapshot c) then
       (let s = (ct_snapshot c)\<lparr>cs_last_error := err\<rparr> in ((s, None), put s))
     else
       (let s = \<lparr>cs_models = [lite_model], cs_fetched_at = Some now, cs_account_id = acc_id account,
                 cs_degraded = True, cs_last_error = err\<rparr> in ((s, err), put s)))"

definition catalog_get ::
  "'w http \<Rightarrow> 'w signer \<Rightarrow> int \<Rightarrow> Account \<Rightarrow> Catalog \<Rightarrow> 'w \<Rightarrow>
   (CatalogSnapshot \<times> catalog_error option) \<times> Catalog \<times> 'w" where
  "catalog_get http sign now account c w =
    (if snapshot_fresh now c account then ((ct_snapshot c, None), c, w)
     else (let (fetched, w') = catalog_fetch http sign account w;
               (res, c') = catalog_update now account fetched c
           in (res, c', w')))"

fun find_model :: "Model list \<Rightarrow> string \<Rightarrow> Model option" where
  "find_model [] ident = None"
| "find_model (m # ms) ident = (if md_id m = ident then Some m else find_model ms ident)"

definition catalog_find :: "Catalog \<Rightarrow> string \<Rightarrow> Model option" where
  "catalog_find c ident = find_model (cs_models (ct_snapshot c)) ident"

section \<open>Properties\<close>

lemma catalog_models_sorted:
  "catalog_models b = Inr ms \<Longrightarrow> ms \<noteq> [] \<and> sorted (map md_id ms)
     \<and> (\<forall>m \<in> set ms. md_id m \<noteq> [] \<and> md_upstream_key m = md_id m)"
proof -
  have entry: "model_of_entry raw = Some m \<Longrightarrow> md_id m \<noteq> [] \<and> md_upstream_key m = md_id m" for raw m
    by (auto simp: model_of_entry_def split: option.splits if_splits)
  assume "catalog_models b = Inr ms"
  then obtain raws where ne: "List.map_filter model_of_entry raws \<noteq> []"
    and ms: "ms = sort_key md_id (List.map_filter model_of_entry raws)"
    by (auto simp: catalog_models_def Let_def split: json_verdict.splits option.splits if_splits)
  have "\<forall>m \<in> set ms. md_id m \<noteq> [] \<and> md_upstream_key m = md_id m"
    using entry ms by (auto simp: List.map_filter_def split: option.splits)
  moreover have "ms \<noteq> []" using ne ms by (metis set_empty set_sort)
  ultimately show ?thesis using ms by simp
qed

definition catalog_inv :: "Catalog \<Rightarrow> bool" where
  "catalog_inv c \<longleftrightarrow> (let s = ct_snapshot c in
     (cs_models s = [] \<longrightarrow> \<not> cs_degraded s) \<and> sorted (map md_id (cs_models s)) \<and>
     (cs_degraded s \<longrightarrow> cs_models s = [lite_model]) \<and>
     (\<forall>m \<in> set (cs_models s). md_id m \<noteq> [] \<and> md_upstream_key m = md_id m))"

lemma catalog_fetch_models:
  assumes "catalog_fetch http sign account w = (Inr ms, w')"
  shows "\<exists>b. catalog_models b = Inr ms"
proof -
  obtain ep where "for_region (acc_region account) = Some ep"
    using assms by (cases "for_region (acc_region account)") (simp_all add: catalog_fetch_def)
  moreover obtain s w0 where "sign [] (ep_model_list ep) account w = (s, w0)" by (metis surj_pair)
  moreover obtain headers where "s = Inr headers"
    using assms calculation by (cases s) (simp_all add: catalog_fetch_def)
  moreover obtain r w1 where "http \<lparr>rq_method = ''GET'', rq_url = ep_model_list ep,
      rq_headers = set_header ''Accept-Encoding'' ''identity'' (set_header ''Accept'' ''application/json'' headers),
      rq_body = []\<rparr> w0 = (r, w1)" by (metis surj_pair)
  ultimately show ?thesis
    using assms by (cases r) (auto simp: catalog_fetch_def split: sum.split_asm if_split_asm)
qed

lemma lite_model_ok: "md_id lite_model \<noteq> [] \<and> md_upstream_key lite_model = md_id lite_model"
  by (simp add: lite_model_def)

lemma catalog_update_inv:
  assumes "catalog_inv c" and "\<And>ms. fetched = Inr ms \<Longrightarrow> \<exists>b. catalog_models b = Inr ms"
  shows "case catalog_update now account fetched c of ((s, err), c') \<Rightarrow>
    catalog_inv c' \<and> s = ct_snapshot c' \<and> cs_models s \<noteq> []"
proof (cases fetched)
  case (Inl e)
  show ?thesis
  proof (cases "cs_models (ct_snapshot c) \<noteq> [] \<and> \<not> cs_degraded (ct_snapshot c)")
    case True
    have "catalog_update now account fetched c = (((ct_snapshot c)\<lparr>cs_last_error := Some e\<rparr>, None),
        c\<lparr>ct_snapshot := (ct_snapshot c)\<lparr>cs_last_error := Some e\<rparr>\<rparr>)"
      using Inl True by (simp add: catalog_update_def Let_def)
    with True assms(1) show ?thesis by (simp add: catalog_inv_def Let_def)
  next
    case False
    have "catalog_inv (c\<lparr>ct_snapshot := \<lparr>cs_models = [lite_model], cs_fetched_at = t, cs_account_id = a,
        cs_degraded = True, cs_last_error = err\<rparr>\<rparr>)" for t a err
      using lite_model_ok by (simp add: catalog_inv_def)
    with False Inl show ?thesis by (auto simp: catalog_update_def Let_def)
  qed
next
  case (Inr ms)
  with assms(2) catalog_models_sorted have "ms \<noteq> []" "sorted (map md_id ms)"
    "\<forall>m \<in> set ms. md_id m \<noteq> [] \<and> md_upstream_key m = md_id m" by blast+
  with Inr show ?thesis by (simp add: catalog_update_def catalog_inv_def Let_def)
qed

text \<open>Whatever the upstream answers, \<open>Get\<close> returns a snapshot with at least one model, and keeps it.\<close>

lemma catalog_get_keeps:
  assumes "catalog_inv c"
  shows "case catalog_get http sign now account c w of ((s, err), c', w') \<Rightarrow>
     catalog_inv c' \<and> s = ct_snapshot c' \<and> cs_models s \<noteq> []"
proof (cases "snapshot_fresh now c account")
  case True
  with assms show ?thesis by (simp add: catalog_get_def snapshot_fresh_def Let_def)
next
  case False
  obtain fetched w' where f: "catalog_fetch http sign account w = (fetched, w')" by fastforce
  have "\<And>ms. fetched = Inr ms \<Longrightarrow> \<exists>b. catalog_models b = Inr ms"
    using f catalog_fetch_models by metis
  from catalog_update_inv [where now = now and account = account and fetched = fetched, OF assms this]
  show ?thesis using False f by (auto simp: catalog_get_def split: prod.splits)
qed

section \<open>The catalog as a memory\<close>

text \<open>What \<open>Get\<close> promises, without snapshots and flags: a memory of the last fetch that succeeded,
  with its time and its account.\<close>

type_synonym memory = "(int \<times> string \<times> Model list) option"

definition remembers :: "int \<Rightarrow> int \<Rightarrow> Account \<Rightarrow> memory \<Rightarrow> bool" where
  "remembers ttl now account m \<longleftrightarrow> (\<exists>t ms. m = Some (t, acc_id account, ms) \<and> now - t < ttl)"

text \<open>The models, whether they are marked degraded, and the error.\<close>

type_synonym offer = "Model list \<times> bool \<times> catalog_error option"

definition memory_get ::
  "'w http \<Rightarrow> 'w signer \<Rightarrow> int \<Rightarrow> int \<Rightarrow> Account \<Rightarrow> memory \<Rightarrow> 'w \<Rightarrow> offer \<times> memory \<times> 'w" where
  "memory_get http sign ttl now account m w =
    (if remembers ttl now account m then ((snd (snd (the m)), False, None), m, w)
     else (case catalog_fetch http sign account w of
         (Inr ms, w') \<Rightarrow> ((ms, False, None), Some (now, acc_id account, ms), w')
       | (Inl e, w') \<Rightarrow>
         ((case m of None \<Rightarrow> ([lite_model], True, Some e) | Some (t, ident, ms) \<Rightarrow> (ms, False, None)), m, w')))"

text \<open>The answers to a sequence of calls, each with its time and its account.\<close>

fun catalog_gets ::
  "'w http \<Rightarrow> 'w signer \<Rightarrow> (int \<times> Account) list \<Rightarrow> Catalog \<Rightarrow> 'w \<Rightarrow>
   (CatalogSnapshot \<times> catalog_error option) list \<times> 'w" where
  "catalog_gets http sign [] c w = ([], w)"
| "catalog_gets http sign ((now, account) # calls) c w =
    (let (r, c, w) = catalog_get http sign now account c w; (rs, w) = catalog_gets http sign calls c w
     in (r # rs, w))"

fun memory_gets ::
  "'w http \<Rightarrow> 'w signer \<Rightarrow> int \<Rightarrow> (int \<times> Account) list \<Rightarrow> memory \<Rightarrow> 'w \<Rightarrow> offer list \<times> 'w" where
  "memory_gets http sign ttl [] m w = ([], w)"
| "memory_gets http sign ttl ((now, account) # calls) m w =
    (let (r, m, w) = memory_get http sign ttl now account m w; (rs, w) = memory_gets http sign ttl calls m w
     in (r # rs, w))"

definition offer_of :: "CatalogSnapshot \<times> catalog_error option \<Rightarrow> offer" where
  "offer_of = (\<lambda>(s, err). (cs_models s, cs_degraded s, err))"

text \<open>What a snapshot remembers: the degraded one is made up.\<close>

definition memory_of :: "Catalog \<Rightarrow> memory" where
  "memory_of c = (let s = ct_snapshot c in
     if cs_models s = [] \<or> cs_degraded s then None
     else Some (the (cs_fetched_at s), cs_account_id s, cs_models s))"

definition dated :: "Catalog \<Rightarrow> bool" where
  "dated c \<longleftrightarrow> (let s = ct_snapshot c in cs_models s \<noteq> [] \<longrightarrow> cs_fetched_at s \<noteq> None)"

lemma fresh_remembers: "dated c \<Longrightarrow> snapshot_fresh now c account = remembers (ct_ttl c) now account (memory_of c)"
  by (auto simp: snapshot_fresh_def remembers_def memory_of_def dated_def Let_def split: option.splits)

lemma fetched_models_nonempty: "catalog_fetch http sign account w = (Inr ms, w') \<Longrightarrow> ms \<noteq> []"
  using catalog_fetch_models catalog_models_sorted by metis

lemma get_simulates:
  assumes "dated c" and "catalog_get http sign now account c w = (r, c', w')"
  shows "memory_get http sign (ct_ttl c) now account (memory_of c) w = (offer_of r, memory_of c', w')
    \<and> dated c' \<and> ct_ttl c' = ct_ttl c"
proof (cases "snapshot_fresh now c account")
  case True
  with assms have "r = (ct_snapshot c, None)" "c' = c" "w' = w" by (auto simp: catalog_get_def)
  moreover have "cs_models (ct_snapshot c) \<noteq> []" "\<not> cs_degraded (ct_snapshot c)"
    using True by (simp_all add: snapshot_fresh_def Let_def)
  ultimately show ?thesis using True assms(1) fresh_remembers [OF assms(1), of now account]
    by (simp add: memory_get_def offer_of_def memory_of_def Let_def)
next
  case False
  obtain fetched w1 where f: "catalog_fetch http sign account w = (fetched, w1)" by fastforce
  with False assms(2) have u: "catalog_update now account fetched c = (r, c')" "w' = w1"
    by (auto simp: catalog_get_def split: prod.splits)
  have m: "memory_get http sign (ct_ttl c) now account (memory_of c) w = (case (fetched, w1) of
         (Inr ms, w') \<Rightarrow> ((ms, False, None), Some (now, acc_id account, ms), w')
       | (Inl e, w') \<Rightarrow> ((case memory_of c of None \<Rightarrow> ([lite_model], True, Some e)
            | Some (t, ident, ms) \<Rightarrow> (ms, False, None)), memory_of c, w'))"
    using False fresh_remembers [OF assms(1), of now account] f by (simp add: memory_get_def)
  show ?thesis
  proof (cases fetched)
    case (Inl e)
    show ?thesis
    proof (cases "cs_models (ct_snapshot c) \<noteq> [] \<and> \<not> cs_degraded (ct_snapshot c)")
      case True
      then have "r = ((ct_snapshot c)\<lparr>cs_last_error := Some e\<rparr>, None)"
        "c' = c\<lparr>ct_snapshot := (ct_snapshot c)\<lparr>cs_last_error := Some e\<rparr>\<rparr>"
        using u Inl by (simp_all add: catalog_update_def Let_def)
      with True m Inl u(2) assms(1) show ?thesis by (simp add: offer_of_def memory_of_def dated_def Let_def)
    next
      case False
      let ?s = "\<lparr>cs_models = [lite_model], cs_fetched_at = Some now, cs_account_id = acc_id account,
        cs_degraded = True, cs_last_error = Some e\<rparr>"
      have "r = (?s, Some e)" "c' = c\<lparr>ct_snapshot := ?s\<rparr>"
        using False u Inl by (auto simp: catalog_update_def Let_def)
      moreover have "memory_of c = None" using False by (simp add: memory_of_def Let_def)
      ultimately show ?thesis using m Inl u(2) by (simp add: offer_of_def memory_of_def dated_def)
    qed
  next
    case (Inr ms)
    from fetched_models_nonempty [OF f [unfolded Inr]] have ne: "ms \<noteq> []" .
    let ?s = "\<lparr>cs_models = ms, cs_fetched_at = Some now, cs_account_id = acc_id account,
      cs_degraded = False, cs_last_error = None\<rparr>"
    have "r = (?s, None)" "c' = c\<lparr>ct_snapshot := ?s\<rparr>"
      using ne u Inr by (simp_all add: catalog_update_def Let_def)
    with ne m Inr u(2) show ?thesis by (simp add: offer_of_def memory_of_def dated_def)
  qed
qed

lemma gets_simulate:
  "dated c \<Longrightarrow> ct_ttl c = ttl \<Longrightarrow>
   (let (rs, w') = catalog_gets http sign calls c w in (map offer_of rs, w')) =
   memory_gets http sign ttl calls (memory_of c) w"
proof (induction calls arbitrary: c w)
  case (Cons q calls)
  obtain now account where q: "q = (now, account)" by fastforce
  obtain r c1 w1 where g: "catalog_get http sign now account c w = (r, c1, w1)" using prod_cases3 by blast
  from get_simulates [OF Cons.prems(1) g] Cons.prems(2)
  have "memory_get http sign ttl now account (memory_of c) w = (offer_of r, memory_of c1, w1)"
    "dated c1" "ct_ttl c1 = ttl" by simp_all
  moreover obtain rs w2 where "catalog_gets http sign calls c1 w1 = (rs, w2)" by fastforce
  ultimately show ?case using Cons.IH [of c1 w1] g q by (auto split: prod.splits)
qed simp

lemma gets_nonempty:
  "catalog_inv c \<Longrightarrow> list_all (\<lambda>(s, err). cs_models s \<noteq> []) (fst (catalog_gets http sign calls c w))"
proof (induction calls arbitrary: c w)
  case (Cons q calls)
  obtain now account where q: "q = (now, account)" by fastforce
  obtain s err c1 w1 where g: "catalog_get http sign now account c w = ((s, err), c1, w1)"
    by (metis prod.collapse)
  with catalog_get_keeps [OF Cons.prems, of http sign now account w]
  have "catalog_inv c1" "cs_models s \<noteq> []" by auto
  with Cons.IH [of c1 w1] g q show ?case by (simp add: split_beta Let_def)
qed simp

text \<open>
  C31: the catalog is a memory of the last fetch that succeeded.  In any sequence of calls, for
  any accounts and at any times, a call makes no request exactly where the last fetch that
  succeeded was for the same account and is younger than the time to live, and gives its models.
  Every other call fetches: it gives the new models or, where the fetch fails, those of the last
  fetch that succeeded, for whichever account and however old; only where none has succeeded yet
  is the answer the degraded Lite entry with the error.  So there is a model in every answer.
\<close>

theorem catalog_get_serves:
  "(let (rs, w') = catalog_gets http sign calls (new_catalog ttl) w in (map offer_of rs, w')) =
     memory_gets http sign ttl calls None w
   \<and> list_all (\<lambda>(s, err). cs_models s \<noteq> []) (fst (catalog_gets http sign calls (new_catalog ttl) w))"
proof
  have "dated (new_catalog ttl)" "ct_ttl (new_catalog ttl) = ttl" "memory_of (new_catalog ttl) = None"
    by (simp_all add: dated_def new_catalog_def memory_of_def)
  with gets_simulate [of "new_catalog ttl" ttl http sign calls w]
  show "(let (rs, w') = catalog_gets http sign calls (new_catalog ttl) w in (map offer_of rs, w')) =
      memory_gets http sign ttl calls None w" by simp
  show "list_all (\<lambda>(s, err). cs_models s \<noteq> []) (fst (catalog_gets http sign calls (new_catalog ttl) w))"
    by (rule gets_nonempty) (simp add: catalog_inv_def new_catalog_def)
qed

text \<open>
  C38: a failed fetch serves another account's models, not marked degraded and without an error.
  The snapshot is one for the whole process; where it is not degraded, a fetch that fails for
  account \<open>b\<close> returns the models that were fetched for account \<open>a\<close>, with the time at which they
  were fetched, however long ago that is; only the text of the last error tells of the failure.
\<close>

theorem catalog_serves_other_account:
  assumes "catalog_fetch http sign b w = (Inl e, w')" and "cs_account_id (ct_snapshot c) \<noteq> acc_id b"
    and "cs_models (ct_snapshot c) \<noteq> []" and "\<not> cs_degraded (ct_snapshot c)"
  shows "case catalog_get http sign now b c w of ((s, err), c', w2) \<Rightarrow>
     err = None \<and> \<not> cs_degraded s \<and> cs_models s = cs_models (ct_snapshot c) \<and>
     cs_account_id s = cs_account_id (ct_snapshot c) \<and> cs_fetched_at s = cs_fetched_at (ct_snapshot c) \<and>
     cs_last_error s = Some e \<and> ct_snapshot c' = s"
  using assms by (simp add: catalog_get_def snapshot_fresh_def catalog_update_def Let_def)

theorem catalog_serves_other_account_witness:
  "\<exists>c s c'. catalog_get (answers []) (\<lambda>_ _ _ w. (Inl ''no key'', w)) 0 (sample_account ''global-v'' ''v'') c () = ((s, None), c', ())
     \<and> cs_account_id s = ''global-u'' \<and> cs_models s = [lite_model] \<and> \<not> cs_degraded s"
proof -
  let ?c = "(new_catalog 0)\<lparr>ct_snapshot := \<lparr>cs_models = [lite_model], cs_fetched_at = Some 0,
      cs_account_id = ''global-u'', cs_degraded = False, cs_last_error = None\<rparr>\<rparr>"
  let ?b = "sample_account ''global-v'' ''v''"
  have "catalog_fetch (answers []) (\<lambda>_ _ _ w. (Inl ''no key'', w)) ?b () = (Inl (CatSign ''no key''), ())"
    by (simp add: catalog_fetch_def for_region_def sample_account_def)
  from catalog_serves_other_account [OF this, of ?c 0] show ?thesis
    by (intro exI [of _ ?c]) (auto simp: sample_account_def catalog_get_def snapshot_fresh_def catalog_update_def
        Let_def catalog_fetch_def for_region_def split: prod.splits)
qed

end
