(* ===== verification/GoTime.thy ===== *)
theory GoTime
  imports GoBase
begin

text \<open>
  \<open>time.ParseDuration\<close>, which reads the durations of the configuration and the
  \<open>Retry-After\<close> header: a sign, then numbers with units, summed up to \<open>2 ^ 63\<close> nanoseconds.
  A fraction is cut to whole nanoseconds; the floating-point product the library uses for it
  is taken as exact.
\<close>

text \<open>The digits at the head; \<open>None\<close> where the number passes \<open>2 ^ 63\<close>.\<close>

definition leading_int :: "string \<Rightarrow> (int \<times> string) option" where
  "leading_int s =
    (let n = digits_val (takeWhile is_digit s)
     in if n > 2 ^ 63 then None else Some (n, dropWhile is_digit s))"

definition leading_fraction :: "string \<Rightarrow> int \<times> int \<times> string" where
  "leading_fraction s =
    (let ds = take 18 (takeWhile is_digit s)
     in (digits_val ds, 10 ^ length ds, dropWhile is_digit s))"

definition unit_of :: "string \<Rightarrow> int option" where
  "unit_of u = map_of
    [(''ns'', 1), (''us'', 1000), ([CHR 0xC2, CHR 0xB5, CHR ''s''], 1000),
     ([CHR 0xCE, CHR 0xBC, CHR ''s''], 1000), (''ms'', millisecond), (''s'', second), (''m'', minute),
     (''h'', 60 * minute)] u"

text \<open>One number with its unit.\<close>

definition duration_item :: "string \<Rightarrow> (int \<times> string) option" where
  "duration_item s = (case leading_int s of
      None \<Rightarrow> None
    | Some (v, s1) \<Rightarrow>
      (let pre = (s1 \<noteq> s);
           (f, scale, s2, post) =
             (case s1 of
                c # r \<Rightarrow> if c = CHR ''.'' then (let (f, scale, s2) = leading_fraction r in (f, scale, s2, s2 \<noteq> r))
                         else (0, 1, s1, False)
              | [] \<Rightarrow> (0, 1, s1, False));
           u = takeWhile (\<lambda>c. c \<noteq> CHR ''.'' \<and> \<not> is_digit c) s2;
           rest = dropWhile (\<lambda>c. c \<noteq> CHR ''.'' \<and> \<not> is_digit c) s2
       in if \<not> pre \<and> \<not> post then None
          else (case unit_of u of
              None \<Rightarrow> None
            | Some unit \<Rightarrow>
              (let n = v * unit + f * unit div scale
               in if n > 2 ^ 63 then None else Some (n, rest)))))"

lemma duration_item_shorter: "duration_item s = Some (n, rest) \<Longrightarrow> length rest < length s"
proof -
  assume item: "duration_item s = Some (n, rest)"
  obtain v s1 where li: "leading_int s = Some (v, s1)"
    using item by (cases "leading_int s") (auto simp: duration_item_def)
  then have s1: "length s1 \<le> length s" by (auto simp: leading_int_def Let_def length_dropWhile_le split: if_splits)
  define t where "t = (case s1 of
      c # r \<Rightarrow> if c = CHR ''.'' then (let (f, scale, s2) = leading_fraction r in (f, scale, s2, s2 \<noteq> r))
               else (0, 1, s1, False)
    | [] \<Rightarrow> (0, 1, s1, False))"
  obtain f scale s2 post where t: "t = (f, scale, s2, post)" by (metis prod_cases4)
  have s2: "length s2 \<le> length s1"
    using t unfolding t_def
    by (auto simp: leading_fraction_def Let_def split: list.splits if_splits)
      (meson le_SucI length_dropWhile_le)
  let ?P = "\<lambda>c. c \<noteq> CHR ''.'' \<and> \<not> is_digit c"
  from item li t have "unit_of (takeWhile ?P s2) \<noteq> None" and rest: "rest = dropWhile ?P s2"
    unfolding duration_item_def t_def [symmetric]
    by (auto simp: Let_def t_def [symmetric] split: if_splits option.splits)
  then have "takeWhile ?P s2 \<noteq> []" by (auto simp: unit_of_def)
  then have "length rest < length s2"
    using rest by (metis append_self_conv2 leD length_append length_greater_0_conv less_add_same_cancel2 linorder_not_less takeWhile_dropWhile_id trans_less_add1)
  with s1 s2 show ?thesis by simp
qed

function duration_items :: "int \<Rightarrow> string \<Rightarrow> int option" where
  "duration_items d s =
    (if s = [] then Some d
     else (case duration_item s of
         None \<Rightarrow> None
       | Some (n, rest) \<Rightarrow> if d + n > 2 ^ 63 then None else duration_items (d + n) rest))"
  by pat_completeness auto
termination
  by (relation "measure (\<lambda>(d, s). length s)") (auto dest: duration_item_shorter)

declare duration_items.simps [simp del]

definition parse_duration :: "string \<Rightarrow> duration option" where
  "parse_duration s =
    (let neg = (case s of c # _ \<Rightarrow> c = CHR ''-'' | [] \<Rightarrow> False);
         s = (case s of c # r \<Rightarrow> if c = CHR ''-'' \<or> c = CHR ''+'' then r else s | [] \<Rightarrow> s)
     in if s = ''0'' then Some 0
        else if s = [] then None
        else (case duration_items 0 s of
            None \<Rightarrow> None
          | Some d \<Rightarrow> if neg then Some (- d) else if d > 2 ^ 63 - 1 then None else Some d))"

lemma duration_items_bound: "duration_items d s = Some n \<Longrightarrow> d \<le> 2 ^ 63 \<Longrightarrow> n \<le> 2 ^ 63"
proof (induction d s rule: duration_items.induct)
  case (1 d s)
  then show ?case
    by (subst (asm) (2) duration_items.simps) (auto split: if_splits option.splits)
qed

text \<open>A whole number of seconds, as in \<open>Retry-After\<close>.\<close>

lemma takeWhile_digits: "list_all is_digit ds \<Longrightarrow> takeWhile is_digit (ds @ CHR ''s'' # r) = ds"
  by (induction ds) (auto simp: is_digit_def)

lemma dropWhile_digits: "list_all is_digit ds \<Longrightarrow> dropWhile is_digit (ds @ CHR ''s'' # r) = CHR ''s'' # r"
  by (induction ds) (auto simp: is_digit_def)

lemma parse_duration_seconds:
  assumes "0 \<le> n" and "n < 9223372036"
  shows "parse_duration (show_int n @ ''s'') = Some (n * second)"
proof -
  define ds where "ds = show_nat (nat n)"
  have ds: "list_all is_digit ds" "ds \<noteq> []" "digits_val ds = n"
    using show_nat_digits [of "nat n"] digits_val_show_nat [of "nat n"] assms by (simp_all add: ds_def)
  have s: "show_int n = ds" using assms by (simp add: show_int_def ds_def)
  have item: "duration_item (ds @ ''s'') = Some (n * second, [])"
    using ds assms takeWhile_digits [of ds "[]"] dropWhile_digits [of ds "[]"]
    by (simp add: duration_item_def leading_int_def unit_of_def Let_def) (simp add: is_digit_def)
  have "duration_items 0 (ds @ ''s'') = Some (n * second)"
    by (subst duration_items.simps, subst item, simp, subst duration_items.simps) (use assms in simp)
  moreover obtain c r where "ds = c # r" "is_digit c" using ds by (cases ds) auto
  moreover from this have "c \<noteq> CHR ''-''" "c \<noteq> CHR ''+''" by (auto simp: is_digit_def)
  moreover have "ds @ ''s'' \<noteq> ''0''" by simp
  ultimately show ?thesis using assms by (simp add: parse_duration_def s)
qed

end
