(* ===== verification/Transport.thy ===== *)
theory Transport
  imports Catalog GoTime Encoding
begin

text \<open>
  \<open>internal/qoder/transport.go\<close>: the chat request of a client, the check against a model's
  capabilities, and the two transports that send it.  A \<open>map[string]json.RawMessage\<close> is an
  association list without repeated keys; a raw message is its value, so its text is the one
  \<open>json.Marshal\<close> prints for that value.  \<open>time.ParseTime\<close> for the dates of \<open>Retry-After\<close> is an
  argument, and random identifiers are given.
\<close>

section \<open>Chat requests\<close>

type_synonym jmap = "(string \<times> json) list"

definition dec_jmap :: "json \<Rightarrow> jmap option" where
  "dec_jmap j = dec_map dec_json_value JNull j []"

text \<open>\<open>json.Marshal\<close> prints the members of a map in the order of their keys.\<close>

definition marshal_map :: "jmap \<Rightarrow> json" where
  "marshal_map m = JObj (sort_key fst m)"

record ChatRequest =
  cr_raw :: jmap
  cr_model :: string
  cr_messages :: "json list"
  cr_tools :: "json option"
  cr_stream :: bool
  cr_include_usage :: bool
  cr_session_key :: string

datatype request_error = RequestNotJSON | ModelRequired | MessagesRequired

definition normalize_message :: "json \<Rightarrow> json" where
  "normalize_message message = (case dec_jmap message of
      None \<Rightarrow> message
    | Some members \<Rightarrow>
      if unmarshal_opt dec_string [] (map_of members ''role'') = Some ''developer''
      then marshal_map (AList.update ''role'' (JStr ''system'') members)
      else message)"

text \<open>The decoding of \<open>stream_options\<close> ignores errors: what could be decoded counts.\<close>

definition include_usage_of :: "json \<Rightarrow> bool" where
  "include_usage_of j = (case j of
      JObj kvs \<Rightarrow> fold (\<lambda>(k, v) b. if key_is ''include_usage'' k then (case v of JBool x \<Rightarrow> x | _ \<Rightarrow> b) else b) kvs False
    | _ \<Rightarrow> False)"

definition parse_chat_request :: "string \<Rightarrow> request_error + ChatRequest" where
  "parse_chat_request body = (case json_parse body of
      JOk j \<Rightarrow>
        (case dec_jmap j of
           None \<Rightarrow> Inl RequestNotJSON
         | Some raw \<Rightarrow>
           (case unmarshal_opt dec_string [] (map_of raw ''model'') of
              None \<Rightarrow> Inl ModelRequired
            | Some model \<Rightarrow>
              if model = [] then Inl ModelRequired
              else (case unmarshal_opt (dec_list dec_json_value JNull) [] (map_of raw ''messages'') of
                  None \<Rightarrow> Inl MessagesRequired
                | Some messages \<Rightarrow>
                  if messages = [] then Inl MessagesRequired
                  else (let messages = map normalize_message messages;
                            raw = AList.update ''messages'' (JArr messages) raw
                        in Inr \<lparr>cr_raw = raw, cr_model = model, cr_messages = messages,
                             cr_tools = map_of raw ''tools'',
                             cr_stream = (case map_of raw ''stream'' of
                                None \<Rightarrow> False
                              | Some v \<Rightarrow> (case dec_bool v False of None \<Rightarrow> False | Some b \<Rightarrow> b)),
                             cr_include_usage = (case map_of raw ''stream_options'' of
                                None \<Rightarrow> False
                              | Some v \<Rightarrow> include_usage_of v),
                             cr_session_key = []\<rparr>))))
    | _ \<Rightarrow> Inl RequestNotJSON)"

section \<open>Capabilities\<close>

record ChatMessage =
  cm_role :: string
  cm_content :: "json option"
  cm_tool_call_id :: string
  cm_tool_calls :: "json option"

definition zero_message :: ChatMessage where
  "zero_message = \<lparr>cm_role = [], cm_content = None, cm_tool_call_id = [], cm_tool_calls = None\<rparr>"

definition dec_message :: "ChatMessage dec" where
  "dec_message = dec_struct (\<lambda>k j r.
     if key_is ''role'' k then map_option (\<lambda>x. r\<lparr>cm_role := x\<rparr>) (dec_string j (cm_role r))
     else if key_is ''content'' k then map_option (\<lambda>x. r\<lparr>cm_content := x\<rparr>) (dec_raw j (cm_content r))
     else if key_is ''tool_call_id'' k then
       map_option (\<lambda>x. r\<lparr>cm_tool_call_id := x\<rparr>) (dec_string j (cm_tool_call_id r))
     else if key_is ''tool_calls'' k then
       map_option (\<lambda>x. r\<lparr>cm_tool_calls := x\<rparr>) (dec_raw j (cm_tool_calls r))
     else Some r)"

record ContentPart =
  cp_type :: string
  cp_text :: string
  cp_image_url :: string

definition zero_part :: ContentPart where
  "zero_part = \<lparr>cp_type = [], cp_text = [], cp_image_url = []\<rparr>"

definition dec_image_url :: "string dec" where
  "dec_image_url = dec_struct (\<lambda>k j u. if key_is ''url'' k then dec_string j u else Some u)"

definition dec_part :: "ContentPart dec" where
  "dec_part = dec_struct (\<lambda>k j r.
     if key_is ''type'' k then map_option (\<lambda>x. r\<lparr>cp_type := x\<rparr>) (dec_string j (cp_type r))
     else if key_is ''text'' k then map_option (\<lambda>x. r\<lparr>cp_text := x\<rparr>) (dec_string j (cp_text r))
     else if key_is ''image_url'' k then
       map_option (\<lambda>x. r\<lparr>cp_image_url := x\<rparr>) (dec_image_url j (cp_image_url r))
     else Some r)"

datatype capability_error =
    MessageInvalid nat
  | RoleUnsupported nat string
  | ToolCallIDRequired nat
  | ContentInvalid nat
  | ImageURLEmpty nat
  | PartUnsupported nat string
  | NoImageSupport string
  | ThinkingNotBool
  | EffortNotString
  | NoThinkingSupport string
  | EffortNotOffered string string

text \<open>The parts of one message: an error, or whether one of them is an image.\<close>

fun check_parts :: "nat \<Rightarrow> ContentPart list \<Rightarrow> bool \<Rightarrow> capability_error + bool" where
  "check_parts i [] seen = Inr seen"
| "check_parts i (p # ps) seen =
     (if cp_type p = ''text'' then check_parts i ps seen
      else if cp_type p = ''image_url'' then
        (if cp_image_url p = [] then Inl (ImageURLEmpty i) else check_parts i ps True)
      else Inl (PartUnsupported i (cp_type p)))"

definition supported_roles :: "string list" where
  "supported_roles = [''system'', ''user'', ''assistant'', ''tool'']"

definition check_message :: "nat \<Rightarrow> json \<Rightarrow> bool \<Rightarrow> capability_error + bool" where
  "check_message i raw seen = (case dec_message raw zero_message of
      None \<Rightarrow> Inl (MessageInvalid i)
    | Some m \<Rightarrow>
      if cm_role m \<notin> set supported_roles then Inl (RoleUnsupported i (cm_role m))
      else if cm_role m = ''tool'' \<and> cm_tool_call_id m = [] then Inl (ToolCallIDRequired i)
      else (case cm_content m of
          None \<Rightarrow> Inr seen
        | Some c \<Rightarrow>
          if c = JNull \<or> dec_string c [] \<noteq> None then Inr seen
          else (case dec_list dec_part zero_part c [] of
              None \<Rightarrow> Inl (ContentInvalid i)
            | Some parts \<Rightarrow> check_parts i parts seen)))"

fun check_messages :: "nat \<Rightarrow> json list \<Rightarrow> bool \<Rightarrow> capability_error + bool" where
  "check_messages i [] seen = Inr seen"
| "check_messages i (raw # raws) seen = rbind (check_message i raw seen) (check_messages (Suc i) raws)"

text \<open>The efforts a model's thinking configuration offers; errors of this decoding are
  ignored.\<close>

definition efforts_member :: "string \<times> json \<Rightarrow> jmap \<Rightarrow> jmap" where
  "efforts_member kv m = (case kv of (k, v) \<Rightarrow>
     if key_is ''efforts'' k then
       (case v of JNull \<Rightarrow> [] | JObj kvs \<Rightarrow> fold (\<lambda>(k, v). AList.update k v) kvs m | _ \<Rightarrow> m)
     else m)"

definition efforts_of :: "jmap \<Rightarrow> jmap" where
  "efforts_of thinking = fold (\<lambda>(k, v) m.
     if key_is ''enabled'' k then (case v of JObj kvs \<Rightarrow> fold efforts_member kvs m | _ \<Rightarrow> m) else m)
     (sort_key fst thinking) []"

definition check_thinking :: "ChatRequest \<Rightarrow> Model \<Rightarrow> capability_error option" where
  "check_thinking req model =
    (case (case map_of (cr_raw req) ''enable_thinking'' of
             None \<Rightarrow> Some None
           | Some v \<Rightarrow> map_option Some (dec_bool v False)) of
       None \<Rightarrow> Some ThinkingNotBool
     | Some enable \<Rightarrow>
       (case (case map_of (cr_raw req) ''reasoning_effort'' of None \<Rightarrow> Some [] | Some v \<Rightarrow> dec_string v []) of
          None \<Rightarrow> Some EffortNotString
        | Some effort \<Rightarrow>
          (let wanted = (effort \<noteq> [] \<and> effort \<noteq> ''none'') in
           if (enable = Some True \<or> wanted) \<and> \<not> md_is_reasoning model then Some (NoThinkingSupport (md_id model))
           else if wanted \<and> efforts_of (md_thinking model) \<noteq> [] \<and>
             map_of (efforts_of (md_thinking model)) effort = None
           then Some (EffortNotOffered (md_id model) effort)
           else None)))"

definition validate_capabilities :: "ChatRequest \<Rightarrow> Model \<Rightarrow> capability_error option" where
  "validate_capabilities req model = (case check_messages 0 (cr_messages req) False of
      Inl e \<Rightarrow> Some e
    | Inr seen \<Rightarrow>
      if seen \<and> \<not> md_is_vl model then Some (NoImageSupport (md_id model))
      else check_thinking req model)"

section \<open>Shared parts of the transports\<close>

datatype call_error =
    HttpFailed HTTPError
  | NetFailed string
  | SignFailed string
  | BadModelConfig

definition retry_after :: "(string \<Rightarrow> int option) \<Rightarrow> int \<Rightarrow> (string \<times> string) list \<Rightarrow> duration" where
  "retry_after http_time now headers =
    (let v = trim_space (get_header headers ''Retry-After'') in
     if v = [] then 0
     else (case parse_duration (v @ ''s'') of
         Some n \<Rightarrow> n
       | None \<Rightarrow> (case http_time v of Some t \<Rightarrow> t - now | None \<Rightarrow> 0)))"

definition stable_id :: "string list \<Rightarrow> string" where
  "stable_id parts = take 24 (hex_encode (sha256 (concat (map (\<lambda>p. CHR 0x00 # p) parts))))"

text \<open>Decoding into \<open>any\<close> and printing again: the last of several members with one key stays, and
  the members are printed in order.  A number goes through a \<open>float64\<close>; \<open>flt\<close> is what that makes
  of its text, \<open>None\<close> where it is out of range, which is an error and decodes as \<open>nil\<close>.\<close>

type_synonym float_text = "string \<Rightarrow> string option"

lemma size_list_member: "x \<in> set xs \<Longrightarrow> size x \<le> size_list size xs"
  by (induction xs) auto

lemma size_member: "(k, v) \<in> set kvs \<Longrightarrow> size v \<le> size_list (size_prod (\<lambda>_. 0) size) kvs"
  by (induction kvs) auto

function any_value :: "float_text \<Rightarrow> json \<Rightarrow> json" where
  "any_value flt (JArr js) = JArr (map (any_value flt) js)"
| "any_value flt (JObj kvs) =
     JObj (sort_key fst (fold (\<lambda>(k, v). AList.update k v) (map (\<lambda>(k, v). (k, any_value flt v)) kvs) []))"
| "any_value flt (JNum n) = (case flt n of Some s \<Rightarrow> JNum s | None \<Rightarrow> JNull)"
| "any_value flt JNull = JNull"
| "any_value flt (JBool b) = JBool b"
| "any_value flt (JStr s) = JStr s"
  by pat_completeness auto
termination
  by (relation "measure (\<lambda>(_, j). size j)") (auto simp: less_Suc_eq_le intro: size_list_member size_member)

function any_ok :: "float_text \<Rightarrow> json \<Rightarrow> bool" where
  "any_ok flt (JArr js) = list_all (any_ok flt) js"
| "any_ok flt (JObj kvs) = list_all (\<lambda>(k, v). any_ok flt v) kvs"
| "any_ok flt (JNum n) = (flt n \<noteq> None)"
| "any_ok flt JNull = True"
| "any_ok flt (JBool b) = True"
| "any_ok flt (JStr s) = True"
  by pat_completeness auto
termination
  by (relation "measure (\<lambda>(_, j). size j)") (auto simp: less_Suc_eq_le intro: size_list_member size_member)

text \<open>The content is decoded into \<open>any\<close>, which fails on a number that is out of range.\<close>

definition message_text :: "float_text \<Rightarrow> json \<Rightarrow> string \<Rightarrow> string option" where
  "message_text flt raw wanted =
    (case dec_struct (\<lambda>k j (role, content).
        if key_is ''role'' k then map_option (\<lambda>x. (x, content)) (dec_string j role)
        else if key_is ''content'' k then (if any_ok flt j then Some (role, j) else None)
        else Some (role, content)) raw ([], JNull) of
       None \<Rightarrow> None
     | Some (role, content) \<Rightarrow>
       if role \<noteq> wanted then None
       else (case content of JStr s \<Rightarrow> Some s | _ \<Rightarrow> Some []))"

definition trim_text :: "string \<Rightarrow> nat \<Rightarrow> string" where
  "trim_text s n = (if length s \<le> n then s else take n s)"

text \<open>What both transports make of the upstream's answer.\<close>

definition upstream_answer ::
  "(string \<Rightarrow> int option) \<Rightarrow> int \<Rightarrow> string + HttpResponse \<Rightarrow> call_error + UpstreamResponse" where
  "upstream_answer http_time now answer = (case answer of
      Inl e \<Rightarrow> Inl (NetFailed e)
    | Inr resp \<Rightarrow>
      if rs_status resp \<noteq> 200 then
        Inl (HttpFailed \<lparr>he_status = rs_status resp, he_message = sanitize_snippet (take 4096 (rs_body resp)) 256,
               he_retry_after = retry_after http_time now (rs_headers resp)\<rparr>)
      else (case probe_queue_envelope \<lparr>up_status = 200, up_body = rs_body resp, up_error = rs_read_error resp\<rparr> of
          (Some e, up, _) \<Rightarrow> Inl (HttpFailed e)
        | (None, up, _) \<Rightarrow> Inr up))"

text \<open>The interface of the two transports.\<close>

record 'w ChatTransport =
  ct_name :: string
  ct_probe :: "Account \<Rightarrow> 'w \<Rightarrow> call_error option \<times> 'w"
  ct_chat :: "Account \<Rightarrow> ChatRequest \<Rightarrow> Model \<Rightarrow> 'w \<Rightarrow> (call_error + UpstreamResponse) \<times> 'w"

section \<open>The Bearer transport\<close>

definition bearer_allowed :: "string list" where
  "bearer_allowed = [''messages'', ''tools'', ''tool_choice'', ''parallel_tool_calls'', ''stop'', ''temperature'',
     ''top_p'', ''max_tokens'', ''max_completion_tokens'', ''reasoning'', ''reasoning_effort'', ''enable_thinking'',
     ''stream_options'']"

definition bearer_body :: "ChatRequest \<Rightarrow> Model \<Rightarrow> string \<Rightarrow> string \<Rightarrow> jmap" where
  "bearer_body req model rid sid =
    (let body = List.map_filter (\<lambda>k. map_option (\<lambda>v. (k, v)) (map_of (cr_raw req) k)) bearer_allowed;
         body = AList.update ''model'' (JStr (md_upstream_key model)) body;
         body = AList.update ''stream'' (JBool True) body;
         body = AList.update ''stream_options'' (JObj [(''include_usage'', JBool True)]) body
     in AList.update ''metadata'' (JObj [(''context'', JObj
          [(''client_type'', JStr ''qodercli''), (''request_id'', JStr rid), (''request_set_id'', JStr rid),
           (''session_id'', JStr sid), (''task_id'', JStr ''common'')])]) body)"

definition bearer_session :: "Account \<Rightarrow> ChatRequest \<Rightarrow> Model \<Rightarrow> string \<Rightarrow> string" where
  "bearer_session account req model uuid =
    (if cr_session_key req \<noteq> []
     then stable_id [''session'', acc_user_id account, md_upstream_key model, cr_session_key req] else uuid)"

definition bearer_request :: "Account \<Rightarrow> ChatRequest \<Rightarrow> Model \<Rightarrow> string \<Rightarrow> string \<Rightarrow> HttpRequest" where
  "bearer_request account req model rid sid =
    \<lparr>rq_method = ''POST'', rq_url = ep_bearer_chat (endpoints_or_zero (acc_region account)),
     rq_headers = [(''Authorization'', ''Bearer '' @ acc_access_token account),
       (''Content-Type'', ''application/json''), (''Accept'', ''text/event-stream''), (''Accept-Encoding'', ''identity''),
       (''User-Agent'', ''qoder/1.1.38''), (''X-Request-ID'', rid), (''X-Session-ID'', sid)],
     rq_body = json_marshal (marshal_map (bearer_body req model rid sid))\<rparr>"

text \<open>\<open>uuid\<close> draws a random identifier from the world, empty where \<open>randomUUID\<close> fails, and \<open>clock\<close>
  reads the world's time.\<close>

definition bearer_chat ::
  "'w http \<Rightarrow> (string \<Rightarrow> int option) \<Rightarrow> ('w \<Rightarrow> int) \<Rightarrow> ('w \<Rightarrow> string \<times> 'w) \<Rightarrow> Account \<Rightarrow> ChatRequest \<Rightarrow> Model \<Rightarrow> 'w \<Rightarrow>
   (call_error + UpstreamResponse) \<times> 'w" where
  "bearer_chat http http_time clock uuid account req model w =
    (if ep_bearer_chat (endpoints_or_zero (acc_region account)) = [] then
       (Inl (HttpFailed \<lparr>he_status = 404, he_message = ''bearer endpoint unavailable for region'', he_retry_after = 0\<rparr>), w)
     else (let (rid, w) = uuid w; (u, w) = uuid w; sid = bearer_session account req model u;
               (answer, w) = http (bearer_request account req model rid sid) w
           in (upstream_answer http_time (clock w) answer, w)))"

definition bearer_probe :: "'w http \<Rightarrow> Account \<Rightarrow> 'w \<Rightarrow> call_error option \<times> 'w" where
  "bearer_probe http account w =
    (let url = ep_bearer_chat (endpoints_or_zero (acc_region account)) in
     if url = [] then
       (Some (HttpFailed \<lparr>he_status = 404, he_message = ''bearer endpoint is not verified for this region'',
                he_retry_after = 0\<rparr>), w)
     else (case http \<lparr>rq_method = ''OPTIONS'', rq_url = url,
             rq_headers = [(''Authorization'', ''Bearer '' @ acc_access_token account)], rq_body = []\<rparr> w of
         (Inl e, w') \<Rightarrow> (Some (NetFailed e), w')
       | (Inr resp, w') \<Rightarrow>
         if rs_status resp = 404 then
           (Some (HttpFailed \<lparr>he_status = 404, he_message = ''bearer route not found'', he_retry_after = 0\<rparr>), w')
         else if rs_status resp \<ge> 500 then
           (Some (HttpFailed \<lparr>he_status = rs_status resp, he_message = ''bearer probe failed'', he_retry_after = 0\<rparr>), w')
         else (None, w')))"

section \<open>The COSY transport\<close>

definition cosy_message :: "json \<Rightarrow> json" where
  "cosy_message raw = (case dec_jmap raw of
      None \<Rightarrow> raw
    | Some m \<Rightarrow>
      (let role = (case unmarshal_opt dec_string [] (map_of m ''role'') of None \<Rightarrow> [] | Some r \<Rightarrow> r) in
       if role = ''assistant'' \<and> map_of m ''content'' \<in> {Some JNull, Some (JStr [])} \<and> map_of m ''tool_calls'' \<noteq> None
       then marshal_map (AList.update ''content'' (JStr '' '') m)
       else raw))"

fun last_user :: "float_text \<Rightarrow> json list \<Rightarrow> string" where
  "last_user flt [] = []"
| "last_user flt (m # ms) = (case message_text flt m ''user'' of Some t \<Rightarrow> t | None \<Rightarrow> last_user flt ms)"

definition max_tokens_of :: "ChatRequest \<Rightarrow> int" where
  "max_tokens_of req = fold (\<lambda>k n. case unmarshal_opt dec_int 0 (map_of (cr_raw req) k) of
      Some v \<Rightarrow> if v > 0 \<and> v < n then v else n
    | None \<Rightarrow> n) [''max_tokens'', ''max_completion_tokens''] 32768"

definition cosy_parameters :: "ChatRequest \<Rightarrow> jmap" where
  "cosy_parameters req =
    (let p = [(''max_tokens'', jint (max_tokens_of req))];
         p = (case map_of (cr_raw req) ''enable_thinking'' of
                None \<Rightarrow> p
              | Some v \<Rightarrow> AList.update ''enable_thinking''
                  (JBool (case dec_bool v False of Some b \<Rightarrow> b | None \<Rightarrow> False)) p)
     in (case map_of (cr_raw req) ''reasoning_effort'' of
           None \<Rightarrow> p
         | Some v \<Rightarrow>
           (let effort = (case dec_string v [] of Some s \<Rightarrow> s | None \<Rightarrow> []);
                p = AList.update ''reasoning_effort'' (JStr effort) p
            in if map_of p ''enable_thinking'' = None
               then AList.update ''enable_thinking'' (JBool (effort \<noteq> ''none'')) p else p)))"

text \<open>\<open>tools_text\<close> is the text of the tools as the client wrote it, spaces and all.\<close>

definition cosy_body ::
  "float_text \<Rightarrow> string \<Rightarrow> Account \<Rightarrow> ChatRequest \<Rightarrow> Model \<Rightarrow> string \<Rightarrow> int \<Rightarrow> jmap" where
  "cosy_body flt tools_text account req model rid now =
    (let messages = map cosy_message (cr_messages req);
         user = last_user flt (rev messages);
         sid = stable_id [''session'', acc_user_id account, md_upstream_key model, cr_session_key req];
         chat_record = stable_id [''record'', md_upstream_key model, json_marshal (JArr messages),
           (if cr_tools req = None then [] else tools_text), show_int (max_tokens_of req)];
         tools = (case cr_tools req of None \<Rightarrow> JArr [] | Some t \<Rightarrow> if t = JNull then JArr [] else any_value flt t)
     in [(''request_id'', JStr rid), (''request_set_id'', JStr chat_record), (''chat_record_id'', JStr chat_record),
         (''session_id'', JStr sid), (''stream'', JBool True), (''chat_task'', JStr ''FREE_INPUT''),
         (''is_reply'', JBool True), (''is_retry'', JBool False), (''source'', jint 1), (''version'', JStr ''3''),
         (''session_type'', JStr ''qodercli''), (''agent_id'', JStr ''agent_common''), (''task_id'', JStr ''common''),
         (''code_language'', JStr []), (''chat_prompt'', JStr []), (''image_urls'', JNull),
         (''aliyun_user_type'', JStr []), (''system'', JStr []), (''messages'', JArr messages), (''tools'', tools),
         (''parameters'', marshal_map (cosy_parameters req)),
         (''chat_context'', JObj [(''chatPrompt'', JStr []), (''extra'', JObj [(''context'', JArr []),
            (''modelConfig'', JObj [(''is_reasoning'', JBool (md_is_reasoning model)), (''key'', JStr (md_upstream_key model))]),
            (''originalContent'', JStr user)]), (''features'', JArr []), (''imageUrls'', JNull), (''text'', JStr user)]),
         (''model_config'', any_value flt (md_raw_config model)),
         (''business'', JObj [(''begin_at'', jint (now div millisecond)), (''id'', JStr rid),
            (''name'', JStr (trim_text user 30)), (''product'', JStr ''cli''), (''stage'', JStr ''start''),
            (''type'', JStr ''agent''), (''version'', JStr ''1.0.0'')])])"

definition cosy_request ::
  "float_text \<Rightarrow> string \<Rightarrow> 'w signer \<Rightarrow> Account \<Rightarrow> ChatRequest \<Rightarrow> Model \<Rightarrow> string \<Rightarrow> int \<Rightarrow> 'w \<Rightarrow>
   (call_error + HttpRequest) \<times> 'w" where
  "cosy_request flt tools_text sign account req model rid now w =
    (if \<not> any_ok flt (md_raw_config model) then (Inl BadModelConfig, w)
     else
      (let ep = endpoints_or_zero (acc_region account);
           encoded = encode_body (json_marshal (marshal_map (cosy_body flt tools_text account req model rid now)))
       in (case sign encoded (ep_cosy_chat ep) account w of
             (Inl e, w) \<Rightarrow> (Inl (SignFailed e), w)
           | (Inr h, w) \<Rightarrow> (Inr \<lparr>rq_method = ''POST'', rq_url = ep_cosy_chat ep,
               rq_headers = fold (\<lambda>(k, v). set_header k v)
                 [(''Content-Type'', ''application/json''), (''Accept'', ''text/event-stream''),
                  (''Cache-Control'', ''no-cache''), (''Accept-Encoding'', ''identity''),
                  (''X-Model-Key'', md_upstream_key model),
                  (''X-Model-Source'', if md_source model = [] then ''system'' else md_source model)] h,
               rq_body = encoded\<rparr>, w))))"

definition cosy_chat ::
  "'w http \<Rightarrow> 'w signer \<Rightarrow> float_text \<Rightarrow> (ChatRequest \<Rightarrow> string) \<Rightarrow> (string \<Rightarrow> int option) \<Rightarrow> ('w \<Rightarrow> int) \<Rightarrow>
   ('w \<Rightarrow> string \<times> 'w) \<Rightarrow> Account \<Rightarrow> ChatRequest \<Rightarrow> Model \<Rightarrow> 'w \<Rightarrow> (call_error + UpstreamResponse) \<times> 'w" where
  "cosy_chat http sign flt tools_text http_time clock uuid account req model w =
    (let (rid, w) = uuid w in
     case cosy_request flt (tools_text req) sign account req model rid (clock w) w of
       (Inl e, w) \<Rightarrow> (Inl e, w)
     | (Inr hreq, w) \<Rightarrow> (let (answer, w) = http hreq w in (upstream_answer http_time (clock w) answer, w)))"

definition cosy_probe :: "'w http \<Rightarrow> 'w signer \<Rightarrow> Account \<Rightarrow> 'w \<Rightarrow> call_error option \<times> 'w" where
  "cosy_probe http sign account w =
    (let url = ep_model_list (endpoints_or_zero (acc_region account)) in
     case sign [] url account w of
       (Inl e, w) \<Rightarrow> (Some (SignFailed e), w)
     | (Inr h, w) \<Rightarrow>
       (case http \<lparr>rq_method = ''GET'', rq_url = url,
           rq_headers = set_header ''Accept-Encoding'' ''identity'' (set_header ''Accept'' ''application/json'' h),
           rq_body = []\<rparr> w of
          (Inl e, w') \<Rightarrow> (Some (NetFailed e), w')
        | (Inr resp, w') \<Rightarrow>
          if rs_status resp \<noteq> 200 then
            (Some (HttpFailed \<lparr>he_status = rs_status resp,
               he_message = sanitize_snippet (take 4096 (rs_body resp)) 256, he_retry_after = 0\<rparr>), w')
          else (None, w')))"

section \<open>The transports as values of the interface\<close>

definition bearer_transport ::
  "'w http \<Rightarrow> (string \<Rightarrow> int option) \<Rightarrow> ('w \<Rightarrow> int) \<Rightarrow> ('w \<Rightarrow> string \<times> 'w) \<Rightarrow> 'w ChatTransport" where
  "bearer_transport http http_time clock uuid =
    \<lparr>ct_name = ''bearer'', ct_probe = bearer_probe http, ct_chat = bearer_chat http http_time clock uuid\<rparr>"

definition cosy_transport ::
  "'w http \<Rightarrow> 'w signer \<Rightarrow> float_text \<Rightarrow> (ChatRequest \<Rightarrow> string) \<Rightarrow> (string \<Rightarrow> int option) \<Rightarrow> ('w \<Rightarrow> int) \<Rightarrow>
   ('w \<Rightarrow> string \<times> 'w) \<Rightarrow> 'w ChatTransport" where
  "cosy_transport http sign flt tools_text http_time clock uuid =
    \<lparr>ct_name = ''cosy'', ct_probe = cosy_probe http sign,
     ct_chat = cosy_chat http sign flt tools_text http_time clock uuid\<rparr>"

end
