(* ===== verification/Relay.thy ===== *)
theory Relay
  imports SseParser Thinking OpenAI Signals Transport
begin

text \<open>
  What \<open>internal/server/server.go\<close> answers with: the JSON and error replies, and \<open>relay\<close>,
  which turns the upstream's stream into a streamed or a complete answer.  A reply is its
  status, its headers and its body; a streamed body is the list of the frames whose writes
  succeeded.  The reading goroutine of \<open>ParseSSE\<close> is the text it delivers and the way it ends.
\<close>

section \<open>Replies\<close>

datatype reply_body = BodyJSON json | BodyStream "sse_frame list" | BodyEmpty

record Reply =
  rp_status :: int
  rp_headers :: "(string \<times> string) list"
  rp_body :: reply_body

definition write_json :: "int \<Rightarrow> json \<Rightarrow> Reply" where
  "write_json status v =
    \<lparr>rp_status = status, rp_headers = [(''Content-Type'', ''application/json'')], rp_body = BodyJSON v\<rparr>"

definition write_error :: "int \<Rightarrow> string \<Rightarrow> string \<Rightarrow> Reply" where
  "write_error status typ msg = write_json status
    (JObj [(''error'', JObj [(''message'', JStr (sanitize_snippet msg 512)), (''type'', JStr typ)])])"

section \<open>Errors of the stream\<close>

text \<open>\<open>detail\<close> gives the texts that come from elsewhere: those of \<open>encoding/json\<close>, of the client's
  connection, and of the network.\<close>

fun sse_error_text :: "(sse_error \<Rightarrow> string) \<Rightarrow> sse_error \<Rightarrow> string" where
  "sse_error_text detail (MalformedSSE b) = ''malformed SSE JSON: '' @ detail (MalformedSSE b)"
| "sse_error_text detail InvalidStatusCode = ''envelope has invalid statusCodeValue''"
| "sse_error_text detail InvalidBody = ''envelope has invalid body''"
| "sse_error_text detail (EnvelopeError status body) =
     ''envelope upstream status '' @ show_int status @ '': '' @ body"
| "sse_error_text detail (MalformedInner b) = ''malformed inner SSE JSON: '' @ detail (MalformedInner b)"
| "sse_error_text detail InvalidContentDelta = ''invalid content delta: expected string or null''"
| "sse_error_text detail InvalidReasoningDelta = ''invalid reasoning delta: expected string or null''"
| "sse_error_text detail NeitherChoicesNorUsage = ''SSE JSON contained neither choices nor usage''"
| "sse_error_text detail DoneWithIncomplete =
     ''upstream sent [DONE] with incomplete SSE JSON: '' @ detail DoneWithIncomplete"
| "sse_error_text detail IncompleteTooLong = ''incomplete SSE JSON exceeds 16 MiB limit''"
| "sse_error_text detail EventTooLong = ''SSE event exceeds 16 MiB limit''"
| "sse_error_text detail EndedIncomplete =
     ''upstream stream ended with incomplete SSE JSON: '' @ detail EndedIncomplete"
| "sse_error_text detail EndedWithoutDone = ''upstream stream ended without [DONE]''"
| "sse_error_text detail IdleTimeout = ''upstream stream idle timeout''"
| "sse_error_text detail (ReadError e) = e"
| "sse_error_text detail (ContextError e) = e"
| "sse_error_text detail EmitError = detail EmitError"

text \<open>The status, the type and the message of a failed stream.\<close>

definition stream_failure :: "(sse_error \<Rightarrow> string) \<Rightarrow> sse_error \<Rightarrow> int \<times> string \<times> string" where
  "stream_failure detail err = (case err of
      EnvelopeError status body \<Rightarrow>
        if is_quota_error body then (403, ''quota_exceeded'', sanitize_snippet body 256)
        else (502, ''upstream_stream_error'', sanitize_snippet (sse_error_text detail err) 256)
    | _ \<Rightarrow> (502, ''upstream_stream_error'', sanitize_snippet (sse_error_text detail err) 256))"

section \<open>The two callbacks\<close>

text \<open>The event a piece of the router's end becomes: \<open>x := ev\<close> with the kind of a delta.\<close>

definition final_events :: "Event \<Rightarrow> Piece list \<Rightarrow> Event list" where
  "final_events ev ps = map (piece_event (ev\<lparr>ev_kind := ''delta''\<rparr>)) ps"

text \<open>The connection to the client: which writes fail, whether it can be flushed, and the clock
  that each write reads.\<close>

record client_out =
  co_write_fails :: "nat \<Rightarrow> bool"
  co_flusher :: bool
  co_unix :: "nat \<Rightarrow> int"

record stream_state =
  ss_router :: ThinkingRouter
  ss_writer :: SSEWriter
  ss_saw :: bool

definition counts_as_output :: "Event \<Rightarrow> bool" where
  "counts_as_output ev \<longleftrightarrow> ev_kind ev = ''delta'' \<and>
    (ev_content ev \<noteq> [] \<or> ev_reasoning ev \<noteq> [] \<or> ev_role ev \<noteq> [] \<or> ev_tools ev \<noteq> [])"

definition write_one :: "client_out \<Rightarrow> string \<Rightarrow> Event \<Rightarrow> SSEWriter \<Rightarrow> sse_error option \<times> SSEWriter" where
  "write_one out fallback ev w =
    (case write_event (co_write_fails out) fallback (co_unix out (sw_writes w)) ev w of
       (True, w') \<Rightarrow> (None, w') | (False, w') \<Rightarrow> (Some EmitError, w'))"

fun write_all :: "client_out \<Rightarrow> string \<Rightarrow> Event list \<Rightarrow> SSEWriter \<Rightarrow> sse_error option \<times> SSEWriter" where
  "write_all out fallback [] w = (None, w)"
| "write_all out fallback (ev # evs) w = (case write_one out fallback ev w of
     (Some e, w') \<Rightarrow> (Some e, w')
   | (None, w') \<Rightarrow> write_all out fallback evs w')"

fun write_routed ::
  "client_out \<Rightarrow> string \<Rightarrow> Event list \<Rightarrow> SSEWriter \<Rightarrow> bool \<Rightarrow> sse_error option \<times> SSEWriter \<times> bool" where
  "write_routed out fallback [] w saw = (None, w, saw)"
| "write_routed out fallback (ev # evs) w saw =
    (let saw = (saw \<or> counts_as_output ev) in
     case write_one out fallback ev w of
       (Some e, w') \<Rightarrow> (Some e, w', saw)
     | (None, w') \<Rightarrow> write_routed out fallback evs w' saw)"

definition emit_stream :: "client_out \<Rightarrow> string \<Rightarrow> stream_state emitter" where
  "emit_stream out fallback ev s =
    (if ev_kind ev = ''done'' then
       (let (router, ps) = finalize (ss_router s);
            (e, w) = write_all out fallback (final_events ev ps @ [ev]) (ss_writer s)
        in (e, s\<lparr>ss_router := router, ss_writer := w\<rparr>))
     else
       (let (router, evs) = route (ss_router s) ev;
            (e, w, saw) = write_routed out fallback evs (ss_writer s) (ss_saw s)
        in (e, \<lparr>ss_router = router, ss_writer = w, ss_saw = saw\<rparr>)))"

text \<open>The callback of a complete answer never fails.\<close>

definition emit_accumulate :: "(ThinkingRouter \<times> Accumulator) emitter" where
  "emit_accumulate ev s =
    (let (router, acc) = s in
     if ev_kind ev = ''done'' then
       (let (router, ps) = finalize router in (None, router, acc_run (final_events ev ps) acc))
     else (let (router, evs) = route router ev in (None, router, acc_run evs acc)))"

section \<open>\<open>relay\<close>\<close>

definition stream_headers :: "(string \<times> string) list" where
  "stream_headers = [(''Content-Type'', ''text/event-stream''), (''Cache-Control'', ''no-cache''),
     (''X-Accel-Buffering'', ''no'')]"

text \<open>The write of a frame whose error nobody looks at.\<close>

definition write_blind :: "client_out \<Rightarrow> sse_frame \<Rightarrow> SSEWriter \<Rightarrow> SSEWriter" where
  "write_blind out f w = snd (write_frame (co_write_fails out) w f)"

definition failure_frame :: "string \<Rightarrow> string \<Rightarrow> bool \<Rightarrow> sse_frame" where
  "failure_frame typ msg saw = FrameData
    (JObj [(''error'', JObj [(''message'', JStr msg), (''partial'', JBool saw), (''type'', JStr typ)])])"

text \<open>The reply, and the status that \<open>relay\<close> returns for the log: after the header of a streamed
  answer has been written they differ where the stream fails.\<close>

definition relay_stream ::
  "(sse_error \<Rightarrow> string) \<Rightarrow> client_out \<Rightarrow> string \<Rightarrow> stream_end \<Rightarrow> bool \<Rightarrow> Model \<Rightarrow> Reply \<times> int" where
  "relay_stream detail out body fin include_usage model =
    (if \<not> co_flusher out then
       (write_error 500 ''streaming_unsupported'' ''HTTP writer does not support streaming'', 500)
     else
       (let (err, s) = parse_sse (emit_stream out (md_id model)) body fin
              \<lparr>ss_router = new_router, ss_writer = new_writer include_usage, ss_saw = False\<rparr>;
            (w, status) = (case err of
               None \<Rightarrow> (ss_writer s, 200)
             | Some e \<Rightarrow>
               (let (status, typ, msg) = stream_failure detail e;
                    w = write_blind out (failure_frame typ msg (ss_saw s)) (ss_writer s);
                    w = (if sw_done w then w else write_blind out FrameDone w)
                in (w, status)))
        in (\<lparr>rp_status = 200, rp_headers = stream_headers, rp_body = BodyStream (sw_out w)\<rparr>, status)))"

definition relay_whole ::
  "(sse_error \<Rightarrow> string) \<Rightarrow> client_out \<Rightarrow> string \<Rightarrow> stream_end \<Rightarrow> Model \<Rightarrow> Reply \<times> int" where
  "relay_whole detail out body fin model =
    (let (err, router, acc) = parse_sse emit_accumulate body fin (new_router, new_accumulator) in
     case err of
       Some e \<Rightarrow> (let (status, typ, msg) = stream_failure detail e in (write_error status typ msg, status))
     | None \<Rightarrow> (write_json 200 (snd (response acc (md_id model) (co_unix out 0))), 200))"

definition relay ::
  "(sse_error \<Rightarrow> string) \<Rightarrow> client_out \<Rightarrow> string \<Rightarrow> stream_end \<Rightarrow> ChatRequest \<Rightarrow> Model \<Rightarrow> Reply \<times> int" where
  "relay detail out body fin req model =
    (if cr_stream req then relay_stream detail out body fin (cr_include_usage req) model
     else relay_whole detail out body fin model)"

section \<open>Which events the reader emits\<close>

text \<open>A property of the events of every payload, and of the last event, holds of all that is
  emitted.\<close>

locale event_law =
  fixes P :: "Event \<Rightarrow> bool"
  assumes payload_law: "parse_payload p = Inr (evs, d) \<Longrightarrow> list_all P evs"
    and done_law: "P done_event"
begin

lemma deliver_law:
  assumes "deliver collect p (r, evs) = (e, r', evs')" and "list_all P evs"
  shows "list_all P evs'"
  using assms payload_law [of p] done_law
  by (auto simp: deliver_def Let_def collecting.emit_all_collect collect_def
      split: sum.splits if_splits prod.splits)

lemma consume_law:
  assumes "consume collect p (r, evs) = (e, r', evs')" and "list_all P evs"
  shows "list_all P evs'"
  using assms deliver_law done_law
  by (auto simp: consume_def Let_def collect_def split: if_splits)

lemma on_line_law:
  assumes "on_line collect l (r, evs) = (e, r', evs')" and "list_all P evs"
  shows "list_all P evs'"
  using assms consume_law by (auto simp: on_line_def Let_def split: if_splits)

lemma at_end_law:
  assumes "at_end fin rest collect (r, evs) = (e, r', evs')" and "list_all P evs"
  shows "list_all P evs'"
  using assms on_line_law [of rest r evs]
  by (auto simp: at_end_def split: stream_end.splits prod.splits option.splits if_splits)

lemma read_loop_law:
  "read_loop collect fin rest ls (r, evs) = (e, r', evs') \<Longrightarrow> list_all P evs \<Longrightarrow> list_all P evs'"
proof (induction ls arbitrary: r evs)
  case Nil
  then show ?case by (auto simp: read_loop.simps split: if_splits dest: at_end_law)
next
  case (Cons l ls)
  obtain e1 r1 evs1 where step: "on_line collect l (r, evs) = (e1, r1, evs1)" using prod_cases3 by blast
  with on_line_law Cons.prems(2) have "list_all P evs1" by blast
  with Cons.IH [of r1 evs1] Cons.prems step show ?case
    by (auto simp: read_loop.simps split: option.splits if_splits)
qed

lemma parse_sse_law: "parse_sse collect body fin [] = (e, evs) \<Longrightarrow> list_all P evs"
  using read_loop_law [of fin _ _ new_reader "[]"]
  by (fastforce simp: parse_sse_def Let_def split: prod.splits)

end

text \<open>Texts and usage never come in one event.\<close>

definition event_shape :: "Event \<Rightarrow> bool" where
  "event_shape ev \<longleftrightarrow> (ev_kind ev = ''usage'' \<or> ev_usage ev = None) \<and>
    (ev_kind ev = ''delta'' \<or> ev_content ev = [] \<and> ev_reasoning ev = [])"

lemma choice_events_shape: "choice_events ck cr chs = Inr evs \<Longrightarrow> list_all event_shape evs"
  by (induction chs arbitrary: evs) (auto simp: rbind_Inr_iff event_shape_def split: option.splits)

interpretation reader_events: event_law event_shape
proof unfold_locales
  show "list_all event_shape evs" if "parse_payload p = Inr (evs, d)" for p evs d
    using that
    by (auto simp: parse_payload_def parse_envelope_def parse_inner_def chunk_events_def rbind_Inr_iff
        Let_def dest!: choice_events_shape split: json_verdict.splits option.splits if_splits)
      (auto simp: event_shape_def)
  show "event_shape done_event" by (simp add: event_shape_def done_event_def)
qed

text \<open>The reader that is done holds nothing back, and it is not done where it reports an error,
  unless the network failed.\<close>

definition done_clean :: "reader \<Rightarrow> bool" where
  "done_clean r \<longleftrightarrow> (rd_done r \<longrightarrow> rd_incomplete r = [])"

lemma deliver_done:
  assumes "deliver collect p (r, evs) = (e, r', evs')" and "\<not> rd_done r"
  shows "done_clean r' \<and> (rd_done r' \<longrightarrow> e = None)"
  using assms
  by (auto simp: deliver_def Let_def collecting.emit_all_collect collect_def done_clean_def
      split: sum.splits if_splits prod.splits)

lemma consume_done:
  assumes "consume collect p (r, evs) = (e, r', evs')" and "\<not> rd_done r"
  shows "done_clean r' \<and> (rd_done r' \<longrightarrow> e = None)"
  using assms deliver_done [of p r] deliver_done [of _ "r\<lparr>rd_incomplete := rd_incomplete r @ p\<rparr>"]
  by (auto simp: consume_def Let_def collect_def done_clean_def split: if_splits)

lemma on_line_done:
  assumes "on_line collect l (r, evs) = (e, r', evs')" and "\<not> rd_done r"
  shows "done_clean r' \<and> (rd_done r' \<longrightarrow> e = None)"
  using assms consume_done by (auto simp: on_line_def Let_def done_clean_def split: if_splits)

text \<open>The exception: the connection breaks after a line without a line feed that is not a data line.
  If such a line completes an envelope that holds \<open>[DONE]\<close>, the reader is done and reports the error.\<close>

definition broken_tail :: "stream_end \<Rightarrow> string \<Rightarrow> bool" where
  "broken_tail fin rest \<longleftrightarrow> (\<exists>e. fin = AtReadError e) \<and> \<not> has_prefix (trim_right_crlf rest) ''data:''"

lemma at_end_done:
  assumes "at_end fin rest collect (r, evs) = (e, r', evs')" and "\<not> rd_done r" and "\<not> broken_tail fin rest"
  shows "rd_done r' \<longrightarrow> e = None"
proof -
  obtain e1 r1 evs1 where step: "on_line collect rest (r, evs) = (e1, r1, evs1)" using prod_cases3 by blast
  from on_line_done [OF this assms(2)] have "done_clean r1" "rd_done r1 \<longrightarrow> e1 = None" by simp_all
  with assms step show ?thesis
    by (auto simp: at_end_def broken_tail_def done_clean_def split: stream_end.splits option.splits if_splits)
qed

lemma read_loop_done:
  "read_loop collect fin rest ls (r, evs) = (e, r', evs') \<Longrightarrow> \<not> broken_tail fin rest \<Longrightarrow> rd_done r' \<longrightarrow> e = None"
proof (induction ls arbitrary: r evs)
  case Nil
  then show ?case by (auto simp: read_loop.simps split: if_splits dest: at_end_done)
next
  case (Cons l ls)
  show ?case
  proof (cases "rd_done r")
    case True
    with Cons.prems show ?thesis by (auto simp: read_loop.simps)
  next
    case False
    obtain e1 r1 evs1 where step: "on_line collect l (r, evs) = (e1, r1, evs1)" using prod_cases3 by blast
    from on_line_done [OF step False] Cons.IH [of r1 evs1] Cons.prems False step show ?thesis
      by (auto simp: read_loop.simps split: option.splits)
  qed
qed

section \<open>The text of an answer\<close>

definition json_member :: "string \<Rightarrow> json \<Rightarrow> json option" where
  "json_member k j = (case j of JObj ms \<Rightarrow> map_of ms k | _ \<Rightarrow> None)"

text \<open>The text \<open>choices[0].outer.k\<close> of an answer, empty where there is none.\<close>

definition text_at :: "string \<Rightarrow> string \<Rightarrow> json \<Rightarrow> string" where
  "text_at outer k j = (case json_member ''choices'' j of
      Some (JArr [c]) \<Rightarrow>
        (case json_member outer c of
           Some d \<Rightarrow> (case json_member k d of Some (JStr s) \<Rightarrow> s | _ \<Rightarrow> [])
         | None \<Rightarrow> [])
    | _ \<Rightarrow> [])"

fun frame_text :: "string \<Rightarrow> sse_frame \<Rightarrow> string" where
  "frame_text k (FrameData j) = text_at ''delta'' k j"
| "frame_text k FrameDone = []"

definition stream_text :: "string \<Rightarrow> Reply \<Rightarrow> string" where
  "stream_text k r = (case rp_body r of BodyStream fs \<Rightarrow> concat (map (frame_text k) fs) | _ \<Rightarrow> [])"

definition whole_text :: "string \<Rightarrow> Reply \<Rightarrow> string" where
  "whole_text k r = (case rp_body r of BodyJSON j \<Rightarrow> text_at ''message'' k j | _ \<Rightarrow> [])"

lemma chunk_text:
  assumes "event_shape ev"
  shows "frame_text ''content'' (FrameData (chunk_json ev fb now)) = ev_content ev"
    and "frame_text ''reasoning_content'' (FrameData (chunk_json ev fb now)) = ev_reasoning ev"
proof -
  have none: "ev_content ev = [] \<and> ev_reasoning ev = []" if "ev_usage ev \<noteq> None"
    using assms that by (auto simp: event_shape_def)
  show "frame_text ''content'' (FrameData (chunk_json ev fb now)) = ev_content ev"
    using none by (cases "ev_usage ev = None"; cases "ev_content ev = []")
      (simp_all add: chunk_json_def Let_def text_at_def json_member_def opt_member_def)
  show "frame_text ''reasoning_content'' (FrameData (chunk_json ev fb now)) = ev_reasoning ev"
    using none by (cases "ev_usage ev = None"; cases "ev_reasoning ev = []"; cases "ev_content ev = []")
      (simp_all add: chunk_json_def Let_def text_at_def json_member_def opt_member_def)
qed

lemma response_text:
  "text_at ''message'' ''content'' (snd (response a fb now)) = acc_content a"
  "text_at ''message'' ''reasoning_content'' (snd (response a fb now)) = acc_reasoning a"
  by (cases "acc_content a = []"; cases "acc_tools a = []"; cases "acc_reasoning a = []";
      simp add: response_def Let_def text_at_def json_member_def opt_member_def)+

section \<open>The callbacks as sinks\<close>

text \<open>The router over a stream without its last event.\<close>

fun route_run :: "ThinkingRouter \<Rightarrow> Event list \<Rightarrow> ThinkingRouter \<times> Event list" where
  "route_run p [] = (p, [])"
| "route_run p (ev # evs) =
    (let (q, out) = route p ev; (r, outs) = route_run q evs in (r, out @ outs))"

lemma piece_event_shape: "event_shape ev \<Longrightarrow> ev_kind ev = ''delta'' \<Longrightarrow> event_shape (piece_event ev pc)"
  by (auto simp: event_shape_def piece_event_def)

lemma piece_event_kind [simp]: "ev_kind (piece_event ev pc) = ev_kind ev"
  by (simp add: piece_event_def)

lemma piece_event_usage [simp]: "ev_usage (piece_event ev pc) = ev_usage ev"
  by (simp add: piece_event_def)

lemma route_delta:
  assumes "ev_kind ev = ''delta''" and "route p ev = (q, out)"
  shows "list_all (\<lambda>x. ev_kind x = ''delta'' \<and> ev_usage x = ev_usage ev) out"
proof -
  obtain p1 ps1 where f1: "feed p (ev_reasoning ev) True = (p1, ps1)" by fastforce
  obtain p2 ps2 where f2: "feed p1 (ev_content ev) False = (p2, ps2)" by fastforce
  show ?thesis using assms
    by (cases "ev_role ev = []"; cases "ev_tools ev = []"; cases "ev_finish ev = None")
      (auto simp: route_def Let_def f1 f2 list_all_iff split: if_splits)
qed

lemma route_shape:
  assumes "event_shape ev" and "ev_kind ev \<noteq> ''done''" and "route p ev = (q, out)"
  shows "list_all event_shape out \<and> not_done out"
proof (cases "ev_kind ev = ''delta''")
  case True
  then show ?thesis using route_delta [OF True assms(3)] assms(1)
    by (auto simp: list_all_iff not_done_def event_shape_def)
next
  case False
  then show ?thesis using assms by (auto simp: route_def)
qed

lemma route_run_shape:
  "list_all event_shape evs \<Longrightarrow> not_done evs \<Longrightarrow> list_all event_shape (snd (route_run p evs)) \<and>
   not_done (snd (route_run p evs))"
proof (induction evs arbitrary: p)
  case Nil
  then show ?case by simp
next
  case (Cons ev evs)
  obtain q out where r: "route p ev = (q, out)" by fastforce
  from Cons.IH [of q] Cons.prems route_shape [OF _ _ r] r show ?case
    by (simp add: split_beta)
qed

lemma final_events_shape:
  "list_all event_shape (final_events done_event ps) \<and> not_done (final_events done_event ps)"
  by (auto simp: final_events_def list_all_iff not_done_def done_event_def event_shape_def piece_event_def)

definition no_fails :: "client_out \<Rightarrow> client_out" where
  "no_fails out = out\<lparr>co_write_fails := (\<lambda>_. False)\<rparr>"

text \<open>Writing to a client that is there: what is added to the frames.\<close>

definition wrote :: "SSEWriter \<Rightarrow> Event list \<Rightarrow> SSEWriter \<Rightarrow> bool" where
  "wrote w evs w' \<longleftrightarrow> (\<exists>fs. sw_out w' = sw_out w @ fs \<and> FrameDone \<notin> set fs \<and> sw_done w' = sw_done w \<and>
     concat (map (frame_text ''content'') fs) = concat (map ev_content evs) \<and>
     concat (map (frame_text ''reasoning_content'') fs) = concat (map ev_reasoning evs))"

lemma wrote_Nil: "wrote w [] w"
  by (simp add: wrote_def)

lemma wrote_append:
  assumes "wrote w xs w1" and "wrote w1 ys w2"
  shows "wrote w (xs @ ys) w2"
proof -
  obtain fs gs where "sw_out w1 = sw_out w @ fs" "sw_out w2 = sw_out w1 @ gs" "FrameDone \<notin> set (fs @ gs)"
    "sw_done w2 = sw_done w"
    "concat (map (frame_text ''content'') (fs @ gs)) = concat (map ev_content (xs @ ys))"
    "concat (map (frame_text ''reasoning_content'') (fs @ gs)) = concat (map ev_reasoning (xs @ ys))"
    using assms by (auto simp: wrote_def)
  then show ?thesis unfolding wrote_def by (intro exI [of _ "fs @ gs"]) auto
qed

lemma write_one_wrote:
  assumes "event_shape ev" and "ev_kind ev \<noteq> ''done''"
  shows "\<exists>w'. write_one (no_fails out) fb ev w = (None, w') \<and> wrote w [ev] w'"
  using assms chunk_text [OF assms(1)]
  by (auto simp: write_one_def write_event_def write_frame_def no_fails_def wrote_def Let_def event_shape_def)

lemma write_routed_wrote:
  "list_all event_shape evs \<Longrightarrow> not_done evs \<Longrightarrow>
   \<exists>w' saw'. write_routed (no_fails out) fb evs w saw = (None, w', saw') \<and> wrote w evs w'"
proof (induction evs arbitrary: w saw)
  case Nil
  then show ?case by (simp add: wrote_Nil)
next
  case (Cons ev evs)
  obtain w1 where one: "write_one (no_fails out) fb ev w = (None, w1)" "wrote w [ev] w1"
    using write_one_wrote [of ev out fb w] Cons.prems by auto
  obtain w2 saw2 where "write_routed (no_fails out) fb evs w1 (saw \<or> counts_as_output ev) = (None, w2, saw2)"
    "wrote w1 evs w2" using Cons.IH Cons.prems by fastforce
  with one wrote_append [OF one(2)] show ?case by (simp add: Let_def)
qed

lemma write_all_wrote:
  "list_all event_shape evs \<Longrightarrow> not_done evs \<Longrightarrow>
   \<exists>w'. write_all (no_fails out) fb (evs @ rest) w = write_all (no_fails out) fb rest w' \<and> wrote w evs w'"
proof (induction evs arbitrary: w)
  case Nil
  then show ?case by (auto intro: wrote_Nil)
next
  case (Cons ev evs)
  obtain w1 where one: "write_one (no_fails out) fb ev w = (None, w1)" "wrote w [ev] w1"
    using write_one_wrote [of ev out fb w] Cons.prems by auto
  obtain w2 where "write_all (no_fails out) fb (evs @ rest) w1 = write_all (no_fails out) fb rest w2"
    "wrote w1 evs w2" using Cons.IH Cons.prems by fastforce
  with one wrote_append [OF one(2)] show ?case by (intro exI [of _ w2]) auto
qed

lemma write_one_ok: "fst (write_one (no_fails out) fb ev w) = None"
  by (simp add: write_one_def write_event_def write_frame_def no_fails_def Let_def)

lemma write_all_ok: "fst (write_all (no_fails out) fb evs w) = None"
  by (induction evs arbitrary: w)
    (auto split: option.splits prod.splits dest: arg_cong [where f = fst] simp: write_one_ok)

lemma write_routed_ok: "fst (write_routed (no_fails out) fb evs w saw) = None"
  by (induction evs arbitrary: w saw)
    (auto simp: Let_def write_one_ok split: option.splits prod.splits dest: arg_cong [where f = fst])

lemma writer_inv_write_one: "writer_inv w \<Longrightarrow> writer_inv (snd (write_one out fb ev w))"
  using writer_inv_write_event [of w "co_write_fails out" fb "co_unix out (sw_writes w)" ev]
  by (cases "write_event (co_write_fails out) fb (co_unix out (sw_writes w)) ev w")
    (auto simp: write_one_def split: bool.splits)

lemma writer_inv_write_all: "writer_inv w \<Longrightarrow> writer_inv (snd (write_all out fb evs w))"
proof (induction evs arbitrary: w)
  case (Cons ev evs)
  then show ?case using writer_inv_write_one [of w out fb ev]
    by (auto split: prod.splits option.splits)
qed simp

lemma writer_inv_write_routed: "writer_inv w \<Longrightarrow> writer_inv (fst (snd (write_routed out fb evs w saw)))"
proof (induction evs arbitrary: w saw)
  case (Cons ev evs)
  then show ?case using writer_inv_write_one [of w out fb ev]
    by (auto simp: Let_def split: prod.splits option.splits)
qed simp

interpretation client_sink: event_sink "emit_stream out fb" "\<lambda>s. writer_inv (ss_writer s)" for out fb
proof unfold_locales
  fix s :: stream_state and ev
  assume "writer_inv (ss_writer s)"
  then show "writer_inv (ss_writer (snd (emit_stream out fb ev s)))"
    using writer_inv_write_all [of "ss_writer s" out fb] writer_inv_write_routed [of "ss_writer s" out fb]
    by (auto simp: emit_stream_def Let_def split: prod.splits) (metis fst_conv snd_conv)+
qed

interpretation stream_sink: total_sink "emit_stream (no_fails out) fb" "\<lambda>_. True" for out fb
  by unfold_locales
    (auto simp: emit_stream_def Let_def split: prod.splits
      dest: arg_cong [where f = fst] simp: write_all_ok write_routed_ok)

interpretation whole_sink: total_sink emit_accumulate "\<lambda>(router, acc). acc_inv acc"
  by unfold_locales (auto simp: emit_accumulate_def Let_def split: prod.splits intro: acc_inv_run)

section \<open>A whole stream\<close>

lemma whole_run:
  "not_done evs \<Longrightarrow> whole_sink.run evs (p, acc) =
     (fst (route_run p evs), acc_run (snd (route_run p evs)) acc)"
  unfolding whole_sink.run_def
proof (induction evs arbitrary: p acc)
  case Nil
  then show ?case by simp
next
  case (Cons ev evs)
  obtain q out where r: "route p ev = (q, out)" by fastforce
  with Cons show ?case by (simp add: emit_accumulate_def split_beta)
qed

lemma stream_run:
  "list_all event_shape evs \<Longrightarrow> not_done evs \<Longrightarrow>
   \<exists>w saw. stream_sink.run out fb evs s = \<lparr>ss_router = fst (route_run (ss_router s) evs), ss_writer = w, ss_saw = saw\<rparr> \<and>
     wrote (ss_writer s) (snd (route_run (ss_router s) evs)) w"
  unfolding stream_sink.run_def
proof (induction evs arbitrary: s)
  case Nil
  show ?case by (rule exI [of _ "ss_writer s"], rule exI [of _ "ss_saw s"]) (simp add: wrote_Nil)
next
  case (Cons ev evs)
  obtain q evs1 where r: "route (ss_router s) ev = (q, evs1)" by fastforce
  have sh: "list_all event_shape evs1" "not_done evs1"
    using route_shape [OF _ _ r] Cons.prems by simp_all
  obtain w saw where wr: "write_routed (no_fails out) fb evs1 (ss_writer s) (ss_saw s) = (None, w, saw)"
    "wrote (ss_writer s) evs1 w" using write_routed_wrote [OF sh] by blast
  let ?s = "\<lparr>ss_router = q, ss_writer = w, ss_saw = saw\<rparr>"
  have step: "snd (emit_stream (no_fails out) fb ev s) = ?s"
    using r wr Cons.prems by (simp add: emit_stream_def)
  from Cons.IH [of ?s] Cons.prems obtain w' saw' where
    "fold (\<lambda>ev s. snd (emit_stream (no_fails out) fb ev s)) evs ?s =
      \<lparr>ss_router = fst (route_run q evs), ss_writer = w', ss_saw = saw'\<rparr>"
    "wrote w (snd (route_run q evs)) w'" by auto
  with step r wrote_append [OF wr(2)] show ?case by (simp add: split_beta)
qed

text \<open>The last event: the pieces the router held back, and the last frame.\<close>

lemma stream_done:
  "\<exists>w. snd (emit_stream (no_fails out) fb done_event s) =
      s\<lparr>ss_router := fst (finalize (ss_router s)), ss_writer := snd (write_one (no_fails out) fb done_event w)\<rparr> \<and>
    wrote (ss_writer s) (final_events done_event (snd (finalize (ss_router s)))) w"
proof -
  let ?evs = "final_events done_event (snd (finalize (ss_router s)))"
  obtain w where w: "write_all (no_fails out) fb (?evs @ [done_event]) (ss_writer s) =
      write_all (no_fails out) fb [done_event] w" "wrote (ss_writer s) ?evs w"
    using write_all_wrote final_events_shape by blast
  moreover have "write_all (no_fails out) fb [done_event] w = write_one (no_fails out) fb done_event w"
    using write_one_ok [of out fb done_event w] by (auto split: prod.splits option.splits)
  ultimately show ?thesis
    by (intro exI [of _ w]) (simp add: emit_stream_def split_beta)
qed

lemma write_done:
  "\<not> sw_done w \<Longrightarrow> sw_out (snd (write_one (no_fails out) fb done_event w)) = sw_out w @ [FrameDone] \<and>
   sw_done (snd (write_one (no_fails out) fb done_event w))"
  by (simp add: write_one_def write_event_def write_frame_def no_fails_def Let_def)

definition stream_start :: "bool \<Rightarrow> stream_state" where
  "stream_start inc = \<lparr>ss_router = new_router, ss_writer = new_writer inc, ss_saw = False\<rparr>"

text \<open>The whole stream, in terms of the events a list collects.\<close>

lemma stream_frames:
  assumes "parse_sse collect body fin [] = (e, xs @ lst)" and "not_done xs" and "lst = [] \<or> lst = [done_event]"
  shows "\<exists>fs s. parse_sse (emit_stream (no_fails out) fb) body fin (stream_start inc) = (e, s) \<and>
     FrameDone \<notin> set fs \<and> sw_out (ss_writer s) = fs @ (if lst = [] then [] else [FrameDone]) \<and>
     sw_done (ss_writer s) = (lst \<noteq> []) \<and>
     (\<forall>router acc. whole_sink.run (xs @ lst) (new_router, new_accumulator) = (router, acc) \<longrightarrow>
        concat (map (frame_text ''content'') fs) = acc_content acc \<and>
        concat (map (frame_text ''reasoning_content'') fs) = acc_reasoning acc)"
proof -
  let ?out = "snd (route_run new_router xs)"
  have shape: "list_all event_shape xs" using reader_events.parse_sse_law [OF assms(1)] by simp
  obtain w saw where run: "stream_sink.run out fb xs (stream_start inc) =
      \<lparr>ss_router = fst (route_run new_router xs), ss_writer = w, ss_saw = saw\<rparr>"
    and w: "wrote (new_writer inc) ?out w"
    using stream_run [OF shape assms(2), of out fb "stream_start inc"] by (auto simp: stream_start_def)
  have whole: "whole_sink.run xs (new_router, new_accumulator) =
      (fst (route_run new_router xs), acc_run ?out new_accumulator)" by (rule whole_run [OF assms(2)])
  show ?thesis
  proof (cases "lst = []")
    case True
    obtain fs where "sw_out w = fs" "FrameDone \<notin> set fs" "\<not> sw_done w"
      "concat (map (frame_text ''content'') fs) = concat (map ev_content ?out)"
      "concat (map (frame_text ''reasoning_content'') fs) = concat (map ev_reasoning ?out)"
      using w by (auto simp: wrote_def new_writer_def)
    with True whole run show ?thesis
      using stream_sink.parse_sse_run [of out fb body fin "stream_start inc"] assms(1)
      by (intro exI [of _ fs]) (auto simp: acc_run_content acc_run_reasoning new_accumulator_def)
  next
    case False
    with assms(3) have lst: "lst = [done_event]" by simp
    let ?fin = "finalize (fst (route_run new_router xs))"
    obtain w2 where step: "snd (emit_stream (no_fails out) fb done_event
        \<lparr>ss_router = fst (route_run new_router xs), ss_writer = w, ss_saw = saw\<rparr>) =
        \<lparr>ss_router = fst ?fin, ss_writer = snd (write_one (no_fails out) fb done_event w2), ss_saw = saw\<rparr>"
      and w2: "wrote w (final_events done_event (snd ?fin)) w2"
      using stream_done [of out fb "\<lparr>ss_router = fst (route_run new_router xs), ss_writer = w, ss_saw = saw\<rparr>"] by auto
    obtain fs where fs: "sw_out w2 = fs" "FrameDone \<notin> set fs" "\<not> sw_done w2"
      "concat (map (frame_text ''content'') fs) = concat (map ev_content (?out @ final_events done_event (snd ?fin)))"
      "concat (map (frame_text ''reasoning_content'') fs) = concat (map ev_reasoning (?out @ final_events done_event (snd ?fin)))"
      using wrote_append [OF w w2] by (auto simp: wrote_def new_writer_def)
    have "whole_sink.run (xs @ [done_event]) (new_router, new_accumulator) =
        (fst ?fin, acc_run (?out @ final_events done_event (snd ?fin)) new_accumulator)"
      unfolding whole_sink.run_simps whole by (simp add: emit_accumulate_def split_beta)
    moreover have "stream_sink.run out fb (xs @ [done_event]) (stream_start inc) =
        \<lparr>ss_router = fst ?fin, ss_writer = snd (write_one (no_fails out) fb done_event w2), ss_saw = saw\<rparr>"
      unfolding stream_sink.run_simps run by (rule step)
    ultimately show ?thesis
      using stream_sink.parse_sse_run [of out fb body fin "stream_start inc"] assms(1) fs write_done [OF fs(3)]
      by (intro exI [of _ fs] exI) (auto simp: lst acc_run_content acc_run_reasoning new_accumulator_def)
  qed
qed

lemma collected_form:
  obtains e xs lst where "parse_sse collect body fin [] = (e, xs @ lst)" and "not_done xs"
    and "lst = [] \<or> lst = [done_event]" and "e = None \<Longrightarrow> lst = [done_event]"
    and "\<not> broken_tail fin (snd (split_lines body)) \<Longrightarrow> e \<noteq> None \<Longrightarrow> lst = []"
proof -
  obtain ls rest where sp: "split_lines body = (ls, rest)" by fastforce
  obtain e r evs where loop: "read_loop collect fin rest ls (new_reader, []) = (e, r, evs)"
    using prod_cases3 by blast
  have p: "parse_sse collect body fin [] = (e, evs)" by (simp add: parse_sse_def sp loop)
  from read_loop_emitted [OF loop] have inv: "emitted_inv r evs" "e = None \<longrightarrow> rd_done r"
    by (simp_all add: emitted_inv_def new_reader_def)
  show ?thesis
  proof (cases "rd_done r")
    case True
    then obtain xs where "evs = xs @ [done_event]" "not_done xs" using inv(1) by (auto simp: emitted_inv_def)
    with that [of e xs "[done_event]"] p read_loop_done [OF loop] True sp show ?thesis by auto
  next
    case False
    with that [of e evs "[]"] p inv show ?thesis by (auto simp: emitted_inv_def)
  qed
qed

lemma no_fails_id: "(\<And>n. \<not> co_write_fails out n) \<Longrightarrow> no_fails out = out"
  by (simp add: no_fails_def fun_eq_iff)

lemma stream_failure_status: "fst (stream_failure detail e) \<noteq> 200"
  by (simp add: stream_failure_def split: sse_error.splits)

section \<open>Properties of the relay\<close>

text \<open>
  C2: a streamed answer and a complete one say the same.  For a client whose connection holds,
  the texts of the streamed deltas put together are the content and the reasoning of the
  message that the non-streaming answer has for the same upstream stream, and both are logged
  with the same status.
\<close>

theorem stream_equals_whole:
  assumes "co_flusher out" and "\<And>n. \<not> co_write_fails out n"
    and "relay detail out body fin (req\<lparr>cr_stream := True\<rparr>) model = (streamed, s1)"
    and "relay detail out body fin (req\<lparr>cr_stream := False\<rparr>) model = (whole, s2)"
  shows "s1 = s2 \<and> (s1 = 200 \<longrightarrow>
    stream_text ''content'' streamed = whole_text ''content'' whole \<and>
    stream_text ''reasoning_content'' streamed = whole_text ''reasoning_content'' whole)"
proof -
  have nf: "no_fails out = out" using assms(2) by (rule no_fails_id)
  obtain e xs lst where c: "parse_sse collect body fin [] = (e, xs @ lst)" "not_done xs"
    "lst = [] \<or> lst = [done_event]" "e = None \<Longrightarrow> lst = [done_event]" by (rule collected_form) blast
  obtain router acc where w: "whole_sink.run (xs @ lst) (new_router, new_accumulator) = (router, acc)"
    by fastforce
  have pw: "parse_sse emit_accumulate body fin (new_router, new_accumulator) = (e, router, acc)"
    using whole_sink.parse_sse_run [of body fin "(new_router, new_accumulator)"] c(1) w by simp
  obtain fs s where ps: "parse_sse (emit_stream out (md_id model)) body fin (stream_start (cr_include_usage req)) = (e, s)"
    "sw_out (ss_writer s) = fs @ (if lst = [] then [] else [FrameDone])" "FrameDone \<notin> set fs"
    "concat (map (frame_text ''content'') fs) = acc_content acc"
    "concat (map (frame_text ''reasoning_content'') fs) = acc_reasoning acc"
    using stream_frames [OF c(1-3), of out "md_id model" "cr_include_usage req"] w unfolding nf by blast
  show ?thesis
  proof (cases e)
    case None
    with c(4) ps have "stream_text ''content'' streamed = acc_content acc"
      "stream_text ''reasoning_content'' streamed = acc_reasoning acc" "s1 = 200"
      using assms(1,3) by (auto simp: relay_def relay_stream_def stream_start_def stream_text_def)
    moreover have "whole_text ''content'' whole = acc_content acc"
      "whole_text ''reasoning_content'' whole = acc_reasoning acc" "s2 = 200"
      using None pw assms(4)
      by (auto simp: relay_def relay_whole_def whole_text_def write_json_def response_text)
    ultimately show ?thesis by simp
  next
    case (Some err)
    then show ?thesis using ps(1) pw assms(1,3,4) stream_failure_status [of detail err]
      by (auto simp: relay_def relay_stream_def relay_whole_def stream_start_def Let_def split: prod.splits)
  qed
qed

definition steady_client :: client_out where
  "steady_client = \<lparr>co_write_fails = (\<lambda>_. False), co_flusher = True, co_unix = (\<lambda>_. 0)\<rparr>"

definition sample_request :: ChatRequest where
  "sample_request = \<lparr>cr_raw = [], cr_model = ''lite'', cr_messages = [], cr_tools = None, cr_stream = True,
     cr_include_usage = False, cr_session_key = []\<rparr>"

definition sample_stream_body :: string where
  "sample_stream_body = ''data: [DONE]'' @ [LF]"

theorem stream_equals_whole_witness:
  "case (relay (\<lambda>_. []) steady_client sample_stream_body AtEOF (sample_request\<lparr>cr_stream := True\<rparr>) lite_model,
         relay (\<lambda>_. []) steady_client sample_stream_body AtEOF (sample_request\<lparr>cr_stream := False\<rparr>) lite_model) of
     ((streamed, s1), (whole, s2)) \<Rightarrow> s1 = s2"
proof -
  let ?r = "\<lambda>b. relay (\<lambda>_. []) steady_client sample_stream_body AtEOF (sample_request\<lparr>cr_stream := b\<rparr>) lite_model"
  obtain streamed s1 whole s2 where r: "?r True = (streamed, s1)" "?r False = (whole, s2)"
    by (metis surj_pair)
  have "s1 = s2"
    using stream_equals_whole [OF _ _ r] by (simp add: steady_client_def)
  with r show ?thesis by simp
qed

text \<open>
  C25: a streamed answer has one \<open>[DONE]\<close>, at its end.  Where the client's connection can be flushed
  and holds, every streamed answer has exactly one frame \<open>[DONE]\<close>, however the upstream's stream
  goes: complete, malformed, idle, cancelled, cut off, broken off by a read error, or an error
  envelope.  Nothing comes after it, with one exception: where the connection to the upstream
  breaks after a line without a line feed that is not a data line, one error frame may follow.
\<close>

theorem stream_done_last:
  assumes "co_flusher out" and "\<And>n. \<not> co_write_fails out n"
  shows "\<exists>fs gs. rp_body (fst (relay_stream detail out body fin inc model)) = BodyStream (fs @ FrameDone # gs) \<and>
    FrameDone \<notin> set (fs @ gs) \<and>
    (gs = [] \<or> (\<exists>e. fin = AtReadError e) \<and> \<not> has_prefix (trim_right_crlf (snd (split_lines body))) ''data:'' \<and>
      (\<exists>kind msg saw. gs = [failure_frame kind msg saw]))"
proof -
  have nf: "no_fails out = out" using assms(2) by (rule no_fails_id)
  obtain e xs lst where c: "parse_sse collect body fin [] = (e, xs @ lst)" "not_done xs"
    "lst = [] \<or> lst = [done_event]" "e = None \<Longrightarrow> lst = [done_event]"
    "\<not> broken_tail fin (snd (split_lines body)) \<Longrightarrow> e \<noteq> None \<Longrightarrow> lst = []"
    by (rule collected_form) blast
  obtain fs s where ps: "parse_sse (emit_stream out (md_id model)) body fin (stream_start inc) = (e, s)"
    "FrameDone \<notin> set fs" "sw_out (ss_writer s) = fs @ (if lst = [] then [] else [FrameDone])"
    "sw_done (ss_writer s) = (lst \<noteq> [])"
    using stream_frames [OF c(1-3), of out "md_id model" inc] unfolding nf by blast
  show ?thesis
  proof (cases e)
    case None
    with ps c(4) assms(1) show ?thesis
      by (intro exI [of _ fs] exI [of _ "[]"]) (simp add: relay_stream_def stream_start_def)
  next
    case (Some err)
    obtain status kind msg where f: "stream_failure detail err = (status, kind, msg)" using prod_cases3 by blast
    let ?g = "failure_frame kind msg (ss_saw s)"
    have frames: "rp_body (fst (relay_stream detail out body fin inc model)) =
        BodyStream (sw_out (ss_writer s) @ ?g # (if lst = [] then [FrameDone] else []))"
      using Some ps(1,4) assms f
      by (simp add: relay_stream_def stream_start_def write_blind_def write_frame_def Let_def failure_frame_def)
    show ?thesis
    proof (cases "lst = []")
      case True
      with frames ps(2,3) show ?thesis
        by (intro exI [of _ "fs @ [?g]"] exI [of _ "[]"]) (simp add: failure_frame_def)
    next
      case False
      with c(5) Some have "broken_tail fin (snd (split_lines body))" by blast
      with False frames ps(2,3) show ?thesis
        by (intro exI [of _ fs] exI [of _ "[?g]"]) (auto simp: failure_frame_def broken_tail_def)
    qed
  qed
qed

theorem stream_done_last_witness:
  "\<exists>fs gs. rp_body (fst (relay_stream (\<lambda>_. []) steady_client ''data: {'' (AtReadError ''reset'') False lite_model)) =
      BodyStream (fs @ FrameDone # gs) \<and> FrameDone \<notin> set (fs @ gs) \<and> gs = []"
proof -
  have "has_prefix (trim_right_crlf (snd (split_lines ''data: {''))) ''data:''" by code_simp
  with stream_done_last [where out = steady_client and detail = "\<lambda>_. []" and body = "''data: {''"
      and fin = "AtReadError ''reset''" and inc = False and model = lite_model]
  show ?thesis by (fastforce simp: steady_client_def)
qed

text \<open>The exception occurs: an envelope with \<open>[DONE]\<close> whose second line is the last thing that
  arrives, without a line feed, before the connection breaks.\<close>

lemma error_after_done:
  "fst (parse_sse collect (''data: {'' @ [DQ] @ ''statusCodeValue'' @ [DQ] @ '':200,'' @ [LF, DQ] @ ''body'' @ [DQ] @ '':'' @
      [DQ] @ ''[DONE]'' @ [DQ] @ ''}'') (AtReadError ''reset'') []) = Some (ReadError ''reset'')
   \<and> snd (parse_sse collect (''data: {'' @ [DQ] @ ''statusCodeValue'' @ [DQ] @ '':200,'' @ [LF, DQ] @ ''body'' @ [DQ] @ '':'' @
      [DQ] @ ''[DONE]'' @ [DQ] @ ''}'') (AtReadError ''reset'') []) = [done_event]"
  by code_simp

text \<open>
  \<open>[DONE]\<close> is sent at most once, whichever writes to the client fail and however the
  stream goes.
\<close>

lemma stream_done_once:
  "case rp_body (fst (relay_stream detail out body fin inc model)) of
     BodyStream fs \<Rightarrow> length (filter (\<lambda>f. f = FrameDone) fs) \<le> 1
   | _ \<Rightarrow> True"
proof (cases "co_flusher out")
  case True
  have start: "writer_inv (ss_writer \<lparr>ss_router = new_router, ss_writer = new_writer inc, ss_saw = False\<rparr>)"
    by simp
  obtain e s where p: "parse_sse (emit_stream out (md_id model)) body fin
      \<lparr>ss_router = new_router, ss_writer = new_writer inc, ss_saw = False\<rparr> = (e, s)" by fastforce
  from client_sink.parse_sse_inv [OF start, of out "md_id model" body fin] p
  have inv: "writer_inv (ss_writer s)" by simp
  then show ?thesis using True p
    by (cases e) (auto simp: relay_stream_def write_blind_def write_frame_def Let_def failure_frame_def
        writer_inv_def split: prod.splits if_splits)
next
  case False
  then show ?thesis by (simp add: relay_stream_def write_error_def write_json_def)
qed

end
