(* ===== verification/GoUrl.thy ===== *)
theory GoUrl
  imports GoJson
begin

text \<open>
  What the program uses of \<open>net/url\<close>: \<open>url.Parse\<close> with the scheme, the host and the path of
  its result, and \<open>Values.Encode\<close> with \<open>QueryEscape\<close>.  The functions follow the package's own:
  \<open>getScheme\<close>, \<open>parseAuthority\<close>, \<open>parseHost\<close>, \<open>unescape\<close> and \<open>shouldEscape\<close>.  The user part
  is validated and dropped.
\<close>

section \<open>Escapes\<close>

datatype url_mode = EncodeHost | EncodeZone | EncodePath | EncodeUser | EncodeQuery | EncodeFragment

definition is_alnum :: "char \<Rightarrow> bool" where
  "is_alnum c \<longleftrightarrow> in_range 0x61 0x7A c \<or> in_range 0x41 0x5A c \<or> is_digit c"

fun reserved_escaped :: "url_mode \<Rightarrow> char \<Rightarrow> bool" where
  "reserved_escaped EncodePath c \<longleftrightarrow> c = CHR ''?''"
| "reserved_escaped EncodeUser c \<longleftrightarrow> c \<in> set ''@/?:''"
| "reserved_escaped EncodeFragment c \<longleftrightarrow> False"
| "reserved_escaped _ c \<longleftrightarrow> True"

definition should_escape :: "url_mode \<Rightarrow> char \<Rightarrow> bool" where
  "should_escape m c =
    (if is_alnum c then False
     else if (m = EncodeHost \<or> m = EncodeZone) \<and> c \<in> set (''!$&'' @ CHR 0x27 # ''()*+,;=:[]<>'' @ [DQ]) then False
     else if c \<in> set ''-_.~'' then False
     else if c \<in> set ''$&+,/:;=?@'' then reserved_escaped m c
     else if m = EncodeFragment \<and> c \<in> set ''!()*'' then False
     else True)"

text \<open>An escape a host or a zone may hold, by its two digits.\<close>

definition escape_allowed :: "url_mode \<Rightarrow> nat \<Rightarrow> bool" where
  "escape_allowed m v = (case m of
      EncodeHost \<Rightarrow> v \<ge> 0x80 \<or> v = 0x25
    | EncodeZone \<Rightarrow> v = 0x25 \<or> v = 0x20 \<or> \<not> should_escape EncodeHost (char_of v)
    | _ \<Rightarrow> True)"

fun unescape :: "url_mode \<Rightarrow> string \<Rightarrow> string option" where
  "unescape m [] = Some []"
| "unescape m (c # s) =
    (if c = CHR ''%'' then
       (case s of
          a # b # s' \<Rightarrow>
            (case (hex_val a, hex_val b) of
               (Some x, Some y) \<Rightarrow>
                 if escape_allowed m (x * 16 + y) then map_option ((#) (char_of (x * 16 + y))) (unescape m s')
                 else None
             | _ \<Rightarrow> None)
        | _ \<Rightarrow> None)
     else if (m = EncodeHost \<or> m = EncodeZone) \<and> of_char c < (0x80 :: nat) \<and> should_escape m c then None
     else map_option ((#) (if c = CHR ''+'' \<and> m = EncodeQuery then CHR '' '' else c)) (unescape m s))"

definition upper_hex :: "nat \<Rightarrow> char" where
  "upper_hex n = ''0123456789ABCDEF'' ! (n mod 16)"

fun query_escape :: "string \<Rightarrow> string" where
  "query_escape [] = []"
| "query_escape (c # s) =
    (if c = CHR '' '' then [CHR ''+'']
     else if should_escape EncodeQuery c then [CHR ''%'', upper_hex (of_char c div 16), upper_hex (of_char c)]
     else [c]) @ query_escape s"

text \<open>\<open>strings.Cut\<close> at a byte.\<close>

definition cut_at :: "char \<Rightarrow> string \<Rightarrow> string \<times> string" where
  "cut_at c s = (takeWhile (\<lambda>x. x \<noteq> c) s, drop 1 (dropWhile (\<lambda>x. x \<noteq> c) s))"

text \<open>\<open>strings.Split\<close> at a byte and \<open>strings.Join\<close>.\<close>

fun split_on :: "char \<Rightarrow> string \<Rightarrow> string list" where
  "split_on x [] = [[]]"
| "split_on x (c # s) =
    (if c = x then [] # split_on x s
     else (case split_on x s of [] \<Rightarrow> [[c]] | e # es \<Rightarrow> (c # e) # es))"

fun join_on :: "string \<Rightarrow> string list \<Rightarrow> string" where
  "join_on sep [] = []"
| "join_on sep [e] = e"
| "join_on sep (e # es) = e @ sep @ join_on sep es"

text \<open>\<open>Values.Encode\<close> of values with one entry each: the keys are sorted.\<close>

definition encode_pair :: "string \<times> string \<Rightarrow> string" where
  "encode_pair = (\<lambda>(k, v). query_escape k @ ''='' @ query_escape v)"

definition sort_values :: "(string \<times> string) list \<Rightarrow> (string \<times> string) list" where
  "sort_values vs = sort_key (\<lambda>(k, v). map of_char k :: nat list) vs"

definition encode_values :: "(string \<times> string) list \<Rightarrow> string" where
  "encode_values vs = join_on ''&'' (map encode_pair (sort_values vs))"

text \<open>The receiver's \<open>url.ParseQuery\<close>, for values without a semicolon.\<close>

definition decode_pair :: "string \<Rightarrow> (string \<times> string) option" where
  "decode_pair t =
    (case (unescape EncodeQuery (fst (cut_at (CHR ''='') t)), unescape EncodeQuery (snd (cut_at (CHR ''='') t))) of
       (Some k, Some v) \<Rightarrow> Some (k, v)
     | _ \<Rightarrow> None)"

definition decode_values :: "string \<Rightarrow> (string \<times> string) list option" where
  "decode_values q = those (map decode_pair (split_on (CHR ''&'') q))"

section \<open>url.Parse\<close>

record URL =
  ur_scheme :: string
  ur_host :: string
  ur_path :: string

fun get_scheme :: "string \<Rightarrow> string \<Rightarrow> (string \<times> string) option" where
  "get_scheme acc [] = Some ([], rev acc)"
| "get_scheme acc (c # s) =
    (if in_range 0x61 0x7A c \<or> in_range 0x41 0x5A c then get_scheme (c # acc) s
     else if (is_digit c \<or> c \<in> set ''+-.'') \<and> acc \<noteq> [] then get_scheme (c # acc) s
     else if c = CHR '':'' then (if acc = [] then None else Some (rev acc, s))
     else Some ([], rev acc @ c # s))"

text \<open>The last occurrence of a byte.\<close>

definition cut_last :: "char \<Rightarrow> string \<Rightarrow> (string \<times> string) option" where
  "cut_last c s = (if c \<in> set s
     then Some (rev (drop 1 (dropWhile (\<lambda>x. x \<noteq> c) (rev s))), rev (takeWhile (\<lambda>x. x \<noteq> c) (rev s)))
     else None)"

definition optional_port :: "string \<Rightarrow> bool" where
  "optional_port p \<longleftrightarrow> p = [] \<or> (hd p = CHR '':'' \<and> list_all is_digit (tl p))"

fun index_text :: "string \<Rightarrow> string \<Rightarrow> nat option" where
  "index_text [] p = (if p = [] then Some 0 else None)"
| "index_text (c # s) p = (if has_prefix (c # s) p then Some 0 else map_option Suc (index_text s p))"

definition parse_host :: "string \<Rightarrow> string option" where
  "parse_host host =
    (if has_prefix host ''['' then
       (case cut_last (CHR '']'') host of
          None \<Rightarrow> None
        | Some (inner, port) \<Rightarrow>
          if \<not> optional_port port then None
          else (case index_text inner ''%25'' of
              None \<Rightarrow> unescape EncodeHost host
            | Some z \<Rightarrow>
              (case (unescape EncodeHost (take z inner), unescape EncodeZone (drop z inner),
                     unescape EncodeHost (CHR '']'' # port)) of
                 (Some h, Some zn, Some p) \<Rightarrow> Some (h @ zn @ p)
               | _ \<Rightarrow> None)))
     else (case cut_last (CHR '':'') host of
         Some (h, port) \<Rightarrow> if list_all is_digit port then unescape EncodeHost host else None
       | None \<Rightarrow> unescape EncodeHost host))"

definition valid_userinfo :: "string \<Rightarrow> bool" where
  "valid_userinfo s = list_all (\<lambda>c. is_alnum c \<or> c \<in> set (''-._:~!$&'' @ CHR 0x27 # ''()*+,;=%@'')) s"

definition parse_authority :: "string \<Rightarrow> string option" where
  "parse_authority a = (case cut_last (CHR ''@'') a of
      None \<Rightarrow> parse_host a
    | Some (user, host) \<Rightarrow>
      (case parse_host host of
         None \<Rightarrow> None
       | Some h \<Rightarrow>
         if \<not> valid_userinfo user then None
         else (case (unescape EncodeUser (fst (cut_at (CHR '':'') user)),
                     unescape EncodeUser (snd (cut_at (CHR '':'') user))) of
             (Some _, Some _) \<Rightarrow> Some h
           | _ \<Rightarrow> None)))"

definition lower_letter :: "char \<Rightarrow> char" where
  "lower_letter c = (if in_range 0x41 0x5A c then char_of (of_char c + 0x20 :: nat) else c)"

text \<open>The rest without its query: a single question mark at the end is dropped too.\<close>

definition before_query :: "string \<Rightarrow> string" where
  "before_query rest = fst (cut_at (CHR ''?'') rest)"

definition finish_url :: "string \<Rightarrow> string \<Rightarrow> string \<Rightarrow> URL option" where
  "finish_url scheme host rest =
    map_option (\<lambda>p. \<lparr>ur_scheme = scheme, ur_host = host, ur_path = p\<rparr>) (unescape EncodePath rest)"

definition parse_rest :: "string \<Rightarrow> string \<Rightarrow> URL option" where
  "parse_rest scheme rest =
    (if \<not> has_prefix rest ''/'' \<and> scheme \<noteq> [] then Some \<lparr>ur_scheme = scheme, ur_host = [], ur_path = []\<rparr>
     else if \<not> has_prefix rest ''/'' \<and> CHR '':'' \<in> set (fst (cut_at (CHR ''/'') rest)) then None
     else if (scheme \<noteq> [] \<or> \<not> has_prefix rest ''///'') \<and> has_prefix rest ''//'' then
       (let a = takeWhile (\<lambda>c. c \<noteq> CHR ''/'') (drop 2 rest);
            rest' = dropWhile (\<lambda>c. c \<noteq> CHR ''/'') (drop 2 rest)
        in (case parse_authority a of
              None \<Rightarrow> None
            | Some host \<Rightarrow> finish_url scheme host rest'))
     else finish_url scheme [] rest)"

definition url_parse :: "string \<Rightarrow> URL option" where
  "url_parse raw =
    (let (u, frag) = cut_at (CHR ''#'') raw;
         checked = (\<lambda>r. if unescape EncodeFragment frag = None then None else Some r)
     in if list_ex (\<lambda>c. of_char c < (0x20 :: nat) \<or> c = CHR 0x7F) u then None
        else if u = ''*'' then checked \<lparr>ur_scheme = [], ur_host = [], ur_path = ''*''\<rparr>
        else (case get_scheme [] u of
            None \<Rightarrow> None
          | Some (scheme, rest) \<Rightarrow>
            Option.bind (parse_rest (map lower_letter scheme) (before_query rest)) checked))"

section \<open>Facts\<close>

lemma unescape_plain: "CHR ''%'' \<notin> set s \<Longrightarrow> m \<notin> {EncodeHost, EncodeZone, EncodeQuery} \<Longrightarrow> unescape m s = Some s"
  by (induction s) auto

lemma hex_val_upper: "hex_val (upper_hex n) = Some (n mod 16)"
proof -
  have "list_all (\<lambda>k. hex_val (''0123456789ABCDEF'' ! k) = Some k) [0..<16]" by code_simp
  then show ?thesis by (simp add: upper_hex_def list_all_iff)
qed

lemma query_escape_round: "unescape EncodeQuery (query_escape s @ t) = map_option ((@) s) (unescape EncodeQuery t)"
proof (induction s)
  case Nil
  then show ?case by (simp add: option.map_id0 [unfolded id_def] append_Nil fun_eq_iff)
next
  case (Cons c s)
  have c: "char_of (of_char c div 16 mod 16 * 16 + of_char c mod 16 :: nat) = c"
  proof -
    have "n < 256 \<Longrightarrow> n div 16 mod 16 * 16 + n mod 16 = n" for n :: nat
      using less_mult_imp_div_less [of n 16 16] by (simp add: mult.commute)
    from this [OF nat_of_char_less_256]
    have "of_char c div 16 mod 16 * 16 + of_char c mod 16 = (of_char c :: nat)" .
    then show ?thesis by simp
  qed
  have "should_escape EncodeQuery (CHR ''%'')" "should_escape EncodeQuery (CHR ''+'')" by code_simp+
  then show ?case
    using Cons.IH by (auto simp: hex_val_upper escape_allowed_def c option.map_comp o_def)
qed

lemma query_escape_set: "set (query_escape s) \<subseteq> {c. is_alnum c \<or> c \<in> set ''-_.~%+''}"
proof -
  have u: "is_alnum (upper_hex n)" for n
  proof -
    have "list_all (\<lambda>k. is_alnum (''0123456789ABCDEF'' ! k)) [0..<16]" by code_simp
    then show ?thesis by (simp add: upper_hex_def list_all_iff)
  qed
  show ?thesis by (induction s) (auto simp: u should_escape_def split: if_splits)
qed

lemma query_escape_back: "unescape EncodeQuery (query_escape s) = Some s"
  using query_escape_round [of s "[]"] by simp

lemma query_escape_clean: "CHR ''='' \<notin> set (query_escape s)" "CHR ''&'' \<notin> set (query_escape s)"
proof -
  have "CHR ''='' \<notin> {c. is_alnum c \<or> c \<in> set ''-_.~%+''}" "CHR ''&'' \<notin> {c. is_alnum c \<or> c \<in> set ''-_.~%+''}"
    by code_simp+
  then show "CHR ''='' \<notin> set (query_escape s)" "CHR ''&'' \<notin> set (query_escape s)"
    using query_escape_set by blast+
qed

lemma cut_at_first: "c \<notin> set s \<Longrightarrow> cut_at c (s @ c # t) = (s, t)"
  by (induction s) (auto simp: cut_at_def)

lemma split_on_prefix: "x \<notin> set e \<Longrightarrow> split_on x (e @ x # s) = e # split_on x s"
  by (induction e) auto

lemma split_on_single: "x \<notin> set e \<Longrightarrow> split_on x e = [e]"
  by (induction e) auto

lemma split_join: "es \<noteq> [] \<Longrightarrow> list_all (\<lambda>e. x \<notin> set e) es \<Longrightarrow> split_on x (join_on [x] es) = es"
  by (induction "[x]" es rule: join_on.induct) (simp_all add: split_on_prefix split_on_single)

lemma decode_encode_pair: "decode_pair (encode_pair kv) = Some kv"
  by (cases kv) (simp add: decode_pair_def encode_pair_def cut_at_first query_escape_clean query_escape_back)

text \<open>The receiver gets the values back, in the order of their keys.\<close>

lemma decode_encode_values: "vs \<noteq> [] \<Longrightarrow> decode_values (encode_values vs) = Some (sort_values vs)"
proof -
  assume "vs \<noteq> []"
  then have "sort_values vs \<noteq> []" by (metis length_0_conv length_sort sort_values_def)
  moreover have "list_all (\<lambda>e. CHR ''&'' \<notin> set e) (map encode_pair (sort_values vs))"
    by (auto simp: list_all_iff encode_pair_def query_escape_clean)
  ultimately have "split_on (CHR ''&'') (encode_values vs) = map encode_pair (sort_values vs)"
    by (simp add: encode_values_def split_join)
  moreover have "those (map (decode_pair \<circ> encode_pair) kvs) = Some kvs" for kvs
    by (induction kvs) (simp_all add: decode_encode_pair)
  ultimately show ?thesis by (simp add: decode_values_def)
qed

end
