(* ===== verification/Config.thy ===== *)
theory Config
  imports GoTime GoUrl
begin

text \<open>
  \<open>internal/config/config.go\<close>: the configuration, its defaults, its decoding from JSON and
  its validation.  \<open>net.SplitHostPort\<close> and \<open>net.ParseIP\<close> are written out, and so
  are the functions of \<open>path/filepath\<close> that place the credentials file, on a Unix system;
  \<open>url.Parse\<close> is in theory \<open>GoUrl\<close>.
\<close>

section \<open>The configuration\<close>

record Config =
  cf_listen :: string
  cf_credentials_file :: string
  cf_transport :: string
  cf_proxy_url :: string
  cf_session_header :: string
  cf_max_request_bytes :: int
  cf_connect_timeout :: duration
  cf_response_timeout :: duration
  cf_stream_idle_timeout :: duration
  cf_total_request_timeout :: duration
  cf_catalog_ttl :: duration
  cf_cooldown_default :: duration
  cf_max_5xx_retries :: int
  cf_queue_max_rounds :: int
  cf_queue_wait_max :: duration
  cf_queue_wait_budget :: duration
  cf_queue_wait_jitter :: duration
  cf_cors_origins :: "string list"

definition default_config :: Config where
  "default_config = \<lparr>cf_listen = ''127.0.0.1:8080'', cf_credentials_file = ''credentials.json'',
     cf_transport = ''auto'', cf_proxy_url = [], cf_session_header = ''X-Session-Key'',
     cf_max_request_bytes = 8 * 2 ^ 20, cf_connect_timeout = 15 * second,
     cf_response_timeout = 30 * second, cf_stream_idle_timeout = 90 * second,
     cf_total_request_timeout = 10 * minute, cf_catalog_ttl = 60 * minute, cf_cooldown_default = minute,
     cf_max_5xx_retries = 1, cf_queue_max_rounds = 6, cf_queue_wait_max = 180 * second,
     cf_queue_wait_budget = 600 * second, cf_queue_wait_jitter = 2 * second, cf_cors_origins = []\<rparr>"

text \<open>\<open>Duration.UnmarshalJSON\<close> is also called for \<open>null\<close>, which it reads as the empty string.\<close>

definition dec_duration :: "duration dec" where
  "dec_duration j d = (case j of
      JStr s \<Rightarrow> parse_duration s
    | JNull \<Rightarrow> parse_duration []
    | _ \<Rightarrow> None)"

definition config_field :: "string \<Rightarrow> Config dec" where
  "config_field k j r =
    (if key_is ''listen'' k then map_option (\<lambda>x. r\<lparr>cf_listen := x\<rparr>) (dec_string j (cf_listen r))
     else if key_is ''credentials_file'' k then
       map_option (\<lambda>x. r\<lparr>cf_credentials_file := x\<rparr>) (dec_string j (cf_credentials_file r))
     else if key_is ''transport'' k then
       map_option (\<lambda>x. r\<lparr>cf_transport := x\<rparr>) (dec_string j (cf_transport r))
     else if key_is ''proxy_url'' k then
       map_option (\<lambda>x. r\<lparr>cf_proxy_url := x\<rparr>) (dec_string j (cf_proxy_url r))
     else if key_is ''session_header'' k then
       map_option (\<lambda>x. r\<lparr>cf_session_header := x\<rparr>) (dec_string j (cf_session_header r))
     else if key_is ''max_request_bytes'' k then
       map_option (\<lambda>x. r\<lparr>cf_max_request_bytes := x\<rparr>) (dec_int j (cf_max_request_bytes r))
     else if key_is ''connect_timeout'' k then
       map_option (\<lambda>x. r\<lparr>cf_connect_timeout := x\<rparr>) (dec_duration j (cf_connect_timeout r))
     else if key_is ''response_header_timeout'' k then
       map_option (\<lambda>x. r\<lparr>cf_response_timeout := x\<rparr>) (dec_duration j (cf_response_timeout r))
     else if key_is ''stream_idle_timeout'' k then
       map_option (\<lambda>x. r\<lparr>cf_stream_idle_timeout := x\<rparr>) (dec_duration j (cf_stream_idle_timeout r))
     else if key_is ''total_request_timeout'' k then
       map_option (\<lambda>x. r\<lparr>cf_total_request_timeout := x\<rparr>) (dec_duration j (cf_total_request_timeout r))
     else if key_is ''catalog_ttl'' k then
       map_option (\<lambda>x. r\<lparr>cf_catalog_ttl := x\<rparr>) (dec_duration j (cf_catalog_ttl r))
     else if key_is ''cooldown_default'' k then
       map_option (\<lambda>x. r\<lparr>cf_cooldown_default := x\<rparr>) (dec_duration j (cf_cooldown_default r))
     else if key_is ''max_5xx_retries'' k then
       map_option (\<lambda>x. r\<lparr>cf_max_5xx_retries := x\<rparr>) (dec_int j (cf_max_5xx_retries r))
     else if key_is ''queue_max_rounds'' k then
       map_option (\<lambda>x. r\<lparr>cf_queue_max_rounds := x\<rparr>) (dec_int j (cf_queue_max_rounds r))
     else if key_is ''queue_wait_max'' k then
       map_option (\<lambda>x. r\<lparr>cf_queue_wait_max := x\<rparr>) (dec_duration j (cf_queue_wait_max r))
     else if key_is ''queue_wait_budget'' k then
       map_option (\<lambda>x. r\<lparr>cf_queue_wait_budget := x\<rparr>) (dec_duration j (cf_queue_wait_budget r))
     else if key_is ''queue_wait_jitter'' k then
       map_option (\<lambda>x. r\<lparr>cf_queue_wait_jitter := x\<rparr>) (dec_duration j (cf_queue_wait_jitter r))
     else if key_is ''cors_origins'' k then
       map_option (\<lambda>x. r\<lparr>cf_cors_origins := x\<rparr>) (dec_list dec_string [] j (cf_cors_origins r))
     else Some r)"

definition dec_config :: "Config dec" where
  "dec_config = dec_struct config_field"

section \<open>Addresses\<close>

definition last_index :: "string \<Rightarrow> char \<Rightarrow> nat option" where
  "last_index s c = (case index_byte (rev s) c of None \<Rightarrow> None | Some i \<Rightarrow> Some (length s - 1 - i))"

text \<open>\<open>net.SplitHostPort\<close>.\<close>

definition split_host_port :: "string \<Rightarrow> (string \<times> string) option" where
  "split_host_port s = (case last_index s (CHR '':'') of
      None \<Rightarrow> None
    | Some i \<Rightarrow>
      if hd s = CHR ''['' then
        (case index_byte s (CHR '']'') of
           None \<Rightarrow> None
         | Some e \<Rightarrow>
           if e + 1 \<noteq> i then None
           else if CHR ''['' \<in> set (drop 1 s) \<or> CHR '']'' \<in> set (drop (e + 1) s) then None
           else Some (take (e - 1) (drop 1 s), drop (i + 1) s))
      else
        (if CHR '':'' \<in> set (take i s) \<or> CHR ''['' \<in> set s \<or> CHR '']'' \<in> set s then None
         else Some (take i s, drop (i + 1) s)))"

type_synonym ip = "int list"

definition decimal_octet :: "string \<Rightarrow> int option" where
  "decimal_octet s =
    (if s = [] \<or> \<not> list_all is_digit s \<or> (length s > 1 \<and> hd s = CHR ''0'') \<or> digits_val s > 255 then None
     else Some (digits_val s))"

fun split_on :: "char \<Rightarrow> string \<Rightarrow> string list" where
  "split_on c [] = [[]]"
| "split_on c (x # s) =
     (if x = c then [] # split_on c s
      else (case split_on c s of [] \<Rightarrow> [[x]] | p # ps \<Rightarrow> (x # p) # ps))"

definition parse_ipv4 :: "string \<Rightarrow> ip option" where
  "parse_ipv4 s = (case map decimal_octet (split_on (CHR ''.'') s) of
      [Some a, Some b, Some c, Some d] \<Rightarrow> Some [a, b, c, d]
    | _ \<Rightarrow> None)"

definition hex_group :: "string \<Rightarrow> int" where
  "hex_group ds = fold (\<lambda>c n. n * 16 + (case hex_val c of Some v \<Rightarrow> int v | None \<Rightarrow> 0)) ds 0"

abbreviation is_hex :: "char \<Rightarrow> bool" where "is_hex c \<equiv> hex_val c \<noteq> None"

text \<open>The groups after the part already read, whose bytes are \<open>b\<close>; \<open>e\<close> is the position of the
  ellipsis.  The first part of the result is what is left of the text.\<close>

function ipv6_groups :: "string \<Rightarrow> ip \<Rightarrow> nat option \<Rightarrow> (string \<times> ip \<times> nat option) option" where
  "ipv6_groups s b e =
    (if length b \<ge> 16 then Some (s, b, e)
     else (let ds = takeWhile is_hex s; r = dropWhile is_hex s in
       if ds = [] \<or> length ds > 4 then None
       else if r \<noteq> [] \<and> hd r = CHR ''.'' then
         (if (e = None \<and> length b \<noteq> 12) \<or> length b + 4 > 16 then None
          else (case parse_ipv4 s of None \<Rightarrow> None | Some q \<Rightarrow> Some ([], b @ q, e)))
       else (let b = b @ [hex_group ds div 256, hex_group ds mod 256] in
         if r = [] then Some ([], b, e)
         else if hd r \<noteq> CHR '':'' \<or> length r = 1 then None
         else (let r = tl r in
           if hd r = CHR '':'' then
             (if e \<noteq> None then None
              else if tl r = [] then Some ([], b, Some (length b))
              else ipv6_groups (tl r) b (Some (length b)))
           else ipv6_groups r b e))))"
  by pat_completeness auto
termination
proof (relation "measure (\<lambda>(s, b, e). length s)", goal_cases)
  case 1
  then show ?case by simp
next
  case (2 s b e ds r b' r')
  have "length (dropWhile is_hex s) \<le> length s" by (rule length_dropWhile_le)
  with 2 show ?case by (cases "dropWhile is_hex s") auto
next
  case (3 s b e ds r b' r')
  have "length (dropWhile is_hex s) \<le> length s" by (rule length_dropWhile_le)
  with 3 show ?case by (cases "dropWhile is_hex s") auto
qed

declare ipv6_groups.simps [simp del]

definition parse_ipv6 :: "string \<Rightarrow> ip option" where
  "parse_ipv6 s =
    (if CHR ''%'' \<in> set s then None
     else if s = ''::'' then Some (replicate 16 0)
     else (let (s, e) = (if has_prefix s ''::'' then (drop 2 s, Some 0) else (s, None)) in
       (case ipv6_groups s [] e of
          None \<Rightarrow> None
        | Some (rest, b, e) \<Rightarrow>
          if rest \<noteq> [] then None
          else if length b < 16 then
            (case e of
               None \<Rightarrow> None
             | Some k \<Rightarrow> Some (take k b @ replicate (16 - length b) 0 @ drop k b))
          else if e \<noteq> None then None
          else Some b)))"

text \<open>\<open>net.ParseIP\<close>: four or sixteen bytes.  The first separator decides.\<close>

definition parse_ip :: "string \<Rightarrow> ip option" where
  "parse_ip s = (case dropWhile (\<lambda>c. c \<noteq> CHR ''.'' \<and> c \<noteq> CHR '':'' \<and> c \<noteq> CHR ''%'') s of
      [] \<Rightarrow> None
    | c # _ \<Rightarrow>
      if c = CHR ''.'' then parse_ipv4 s
      else if c = CHR '':'' then parse_ipv6 s
      else None)"

definition is_loopback :: "ip \<Rightarrow> bool" where
  "is_loopback a =
    (if length a = 4 then a ! 0 = 127
     else if take 12 a = replicate 10 0 @ [255, 255] then a ! 12 = 127
     else a = replicate 15 0 @ [1])"

section \<open>Validation\<close>

datatype config_error =
    BadTransport
  | BadListen
  | ListenNotIP
  | BadRequestLimit
  | BadProxy
  | OpenWithoutKey
  | ConfigUnreadable
  | ConfigUnparsable

definition validate_config :: "Config \<Rightarrow> config_error option" where
  "validate_config c =
    (if cf_transport c \<noteq> ''auto'' \<and> cf_transport c \<noteq> ''bearer'' \<and> cf_transport c \<noteq> ''cosy'' then Some BadTransport
     else (case split_host_port (cf_listen c) of
         None \<Rightarrow> Some BadListen
       | Some (host, port) \<Rightarrow>
         if parse_ip host = None then Some ListenNotIP
         else if cf_max_request_bytes c < 1024 \<or> cf_max_request_bytes c > 64 * 2 ^ 20 then Some BadRequestLimit
         else if cf_proxy_url c \<noteq> [] \<and>
             (case url_parse (cf_proxy_url c) of
                None \<Rightarrow> True
              | Some u \<Rightarrow> (ur_scheme u \<noteq> ''http'' \<and> ur_scheme u \<noteq> ''https'') \<or> ur_host u = [])
         then Some BadProxy
         else None))"

definition validate_serve :: "string \<Rightarrow> Config \<Rightarrow> config_error option" where
  "validate_serve api_key c = (case validate_config c of
      Some e \<Rightarrow> Some e
    | None \<Rightarrow>
      (case split_host_port (cf_listen c) of
         None \<Rightarrow> Some BadListen
       | Some (host, port) \<Rightarrow>
         if (case parse_ip host of None \<Rightarrow> True | Some a \<Rightarrow> \<not> is_loopback a) \<and> api_key = [] then Some OpenWithoutKey
         else None))"

definition is_abs_path :: "string \<Rightarrow> bool" where
  "is_abs_path p \<longleftrightarrow> has_prefix p ''/''"

text \<open>\<open>filepath.Clean\<close>, \<open>filepath.Dir\<close> and \<open>filepath.Join\<close>; the elements already kept come in
  reverse.\<close>

fun clean_elements :: "bool \<Rightarrow> string list \<Rightarrow> string list \<Rightarrow> string list" where
  "clean_elements rooted kept [] = rev kept"
| "clean_elements rooted kept (e # es) =
    (if e = [] \<or> e = ''.'' then clean_elements rooted kept es
     else if e = ''..'' then
       (if kept \<noteq> [] \<and> hd kept \<noteq> ''..'' then clean_elements rooted (tl kept) es
        else if rooted then clean_elements rooted kept es
        else clean_elements rooted (e # kept) es)
     else clean_elements rooted (e # kept) es)"

definition clean_path :: "string \<Rightarrow> string" where
  "clean_path p =
    (let rooted = is_abs_path p; q = join_on ''/'' (clean_elements rooted [] (split_on (CHR ''/'') p))
     in if rooted then ''/'' @ q else if q = [] then ''.'' else q)"

definition path_dir :: "string \<Rightarrow> string" where
  "path_dir p = clean_path (rev (dropWhile (\<lambda>c. c \<noteq> CHR ''/'') (rev p)))"

definition path_join :: "string \<Rightarrow> string \<Rightarrow> string" where
  "path_join d f = clean_path (d @ ''/'' @ f)"

text \<open>\<open>read\<close> gives the bytes of a file.\<close>

definition load_config ::
  "(string \<Rightarrow> string option) \<Rightarrow> string \<Rightarrow> config_error + Config" where
  "load_config read path =
    (let checked = (\<lambda>c. case validate_config c of Some e \<Rightarrow> Inl e | None \<Rightarrow> Inr c) in
     if path = [] then checked default_config
     else (case read path of
         None \<Rightarrow> Inl ConfigUnreadable
       | Some b \<Rightarrow>
         (case json_parse b of
            JOk j \<Rightarrow>
              (case dec_config j default_config of
                 None \<Rightarrow> Inl ConfigUnparsable
               | Some c \<Rightarrow>
                 checked (if is_abs_path (cf_credentials_file c) then c
                          else c\<lparr>cf_credentials_file := path_join (path_dir path) (cf_credentials_file c)\<rparr>))
          | _ \<Rightarrow> Inl ConfigUnparsable)))"

section \<open>Properties\<close>

lemma parse_ipv4_shape: "parse_ipv4 s = Some a \<Longrightarrow> length a = 4"
  by (auto simp: parse_ipv4_def split: list.splits option.splits)

lemma default_config_valid: "validate_config default_config = None"
proof -
  have "split_host_port ''127.0.0.1:8080'' = Some (''127.0.0.1'', ''8080'')" by code_simp
  moreover have "parse_ip ''127.0.0.1'' = Some [127, 0, 0, 1]" by code_simp
  ultimately show ?thesis by (simp add: validate_config_def default_config_def)
qed

text \<open>
  C33: the server is not opened to the network without a key.  A configuration that passes
  the check of \<open>serve\<close> has an API key or listens on a loopback address, and the request
  limit is between 1 KiB and 64 MiB; the defaults pass it without a key.
\<close>

theorem serve_needs_key:
  assumes "validate_serve api_key c = None"
  shows "(api_key \<noteq> [] \<or> (\<exists>host port a. split_host_port (cf_listen c) = Some (host, port) \<and>
      parse_ip host = Some a \<and> is_loopback a))
    \<and> 1024 \<le> cf_max_request_bytes c \<and> cf_max_request_bytes c \<le> 64 * 2 ^ 20
    \<and> cf_transport c \<in> {''auto'', ''bearer'', ''cosy''}"
  using assms
  by (auto simp: validate_serve_def validate_config_def split: option.splits if_splits)

theorem serve_needs_key_witness:
  "cf_transport default_config \<in> {''auto'', ''bearer'', ''cosy''}"
proof -
  have "split_host_port ''127.0.0.1:8080'' = Some (''127.0.0.1'', ''8080'')" by code_simp
  moreover have "parse_ip ''127.0.0.1'' = Some [127, 0, 0, 1]" by code_simp
  ultimately have "validate_serve [] default_config = None"
    using default_config_valid by (simp add: validate_serve_def default_config_def is_loopback_def)
  from serve_needs_key [OF this] show ?thesis by blast
qed

end
