(* ===== verification/Services.thy ===== *)
theory Services
  imports Relay Config
begin

text \<open>
  The \<open>Server\<close> of \<open>internal/server/server.go\<close>: what it is given when it is made, the state it
  keeps, and \<open>pickTransport\<close>.  Its world \<open>'w\<close> is everything outside: the network, the clock,
  the random numbers.  A request runs on its own here; what several requests do to the pool and
  the credentials file at once is in theory \<open>Pool\<close>.
\<close>

section \<open>What the server is given\<close>

text \<open>\<open>sc_wait\<close> waits for a timer or for the end of the request's context, whose error it then
  gives; \<open>sc_deliver\<close> is what the reading goroutine delivers of an upstream body, and how that
  ends; the texts of errors that come from outside are \<open>sc_detail\<close>, \<open>sc_invalid\<close> and so on.\<close>

record ('e, 'w) services =
  sc_config :: Config
  sc_api_key :: string
  sc_refresher :: "('e, 'w) refresher option"
  sc_store :: "Store option"
  sc_io :: io_env
  sc_http :: "'w http"
  sc_sign :: "'w signer"
  sc_bearer :: "'w ChatTransport"
  sc_cosy :: "'w ChatTransport"
  sc_quota :: "(Account \<Rightarrow> 'w \<Rightarrow> (string + string) \<times> 'w) option"
  sc_clock :: "'w \<Rightarrow> int"
  sc_sleep :: "duration \<Rightarrow> 'w \<Rightarrow> 'w"
  sc_rand :: "int \<Rightarrow> 'w \<Rightarrow> int \<times> 'w"
  sc_wait :: "duration \<Rightarrow> 'w \<Rightarrow> string option \<times> 'w"
  sc_deliver :: "UpstreamResponse \<Rightarrow> 'w \<Rightarrow> (string \<times> stream_end) \<times> 'w"
  sc_detail :: "sse_error \<Rightarrow> string"
  sc_invalid :: "request_error \<Rightarrow> string"
  sc_unsupported :: "capability_error \<Rightarrow> string"
  sc_catalog_text :: "catalog_error \<Rightarrow> string"
  sc_fresh_text :: "'e fresh_error \<Rightarrow> string"
  sc_date_text :: "int \<Rightarrow> string"
  sc_time_text :: "instant \<Rightarrow> string"
  sc_float_text :: float_text

section \<open>What the server keeps\<close>

record 'w Server =
  sr_pool :: Pool
  sr_catalog :: Catalog
  sr_files :: files
  sr_cache :: "string \<Rightarrow> string option"
  sr_ready :: bool
  sr_degraded :: bool
  sr_ready_error :: string
  sr_world :: 'w

definition new_server :: "Pool \<Rightarrow> Catalog \<Rightarrow> files \<Rightarrow> 'w \<Rightarrow> 'w Server" where
  "new_server p c fs w = \<lparr>sr_pool = p, sr_catalog = c, sr_files = fs, sr_cache = (\<lambda>_. None),
     sr_ready = False, sr_degraded = False, sr_ready_error = [], sr_world = w\<rparr>"

definition server_now :: "('e, 'w) services \<Rightarrow> 'w Server \<Rightarrow> int" where
  "server_now sv s = sc_clock sv (sr_world s)"

definition on_pool :: "(Pool \<Rightarrow> Pool) \<Rightarrow> 'w Server \<Rightarrow> 'w Server" where
  "on_pool f s = s\<lparr>sr_pool := f (sr_pool s)\<rparr>"

text \<open>The calls of the components that the server makes, on its state.\<close>

definition server_select ::
  "('e, 'w) services \<Rightarrow> string \<Rightarrow> string set \<Rightarrow> 'w Server \<Rightarrow> (select_error + nat) \<times> 'w Server" where
  "server_select sv session excluded s =
    (let (r, p) = select (server_now sv s) session excluded (sr_pool s) in (r, s\<lparr>sr_pool := p\<rparr>))"

definition server_fresh ::
  "('e, 'w) services \<Rightarrow> nat \<Rightarrow> bool \<Rightarrow> 'w Server \<Rightarrow> (Account \<times> 'e fresh_error option) \<times> 'w Server" where
  "server_fresh sv i force s =
    (let (r, p, fs, w) = ensure_fresh (sc_refresher sv) (sc_store sv) (sc_io sv) (server_now sv s) i force
           (sr_pool s) (sr_files s) (sr_world s)
     in (r, s\<lparr>sr_pool := p, sr_files := fs, sr_world := w\<rparr>))"

definition server_catalog ::
  "('e, 'w) services \<Rightarrow> Account \<Rightarrow> 'w Server \<Rightarrow> (CatalogSnapshot \<times> catalog_error option) \<times> 'w Server" where
  "server_catalog sv account s =
    (let (r, c, w) = catalog_get (sc_http sv) (sc_sign sv) (server_now sv s) account (sr_catalog s) (sr_world s)
     in (r, s\<lparr>sr_catalog := c, sr_world := w\<rparr>))"

section \<open>Transports\<close>

datatype transport_kind = Bearer | Cosy

fun kind_name :: "transport_kind \<Rightarrow> string" where
  "kind_name Bearer = ''bearer''"
| "kind_name Cosy = ''cosy''"

fun transport_of :: "('e, 'w) services \<Rightarrow> transport_kind \<Rightarrow> 'w ChatTransport" where
  "transport_of sv Bearer = sc_bearer sv"
| "transport_of sv Cosy = sc_cosy sv"

definition server_probe ::
  "('e, 'w) services \<Rightarrow> transport_kind \<Rightarrow> Account \<Rightarrow> 'w Server \<Rightarrow> call_error option \<times> 'w Server" where
  "server_probe sv k account s =
    (let (e, w) = ct_probe (transport_of sv k) account (sr_world s) in (e, s\<lparr>sr_world := w\<rparr>))"

definition server_chat ::
  "('e, 'w) services \<Rightarrow> transport_kind \<Rightarrow> Account \<Rightarrow> ChatRequest \<Rightarrow> Model \<Rightarrow> 'w Server \<Rightarrow>
   (call_error + UpstreamResponse) \<times> 'w Server" where
  "server_chat sv k account req model s =
    (let (r, w) = ct_chat (transport_of sv k) account req model (sr_world s) in (r, s\<lparr>sr_world := w\<rparr>))"

definition router_tiers :: "string list" where
  "router_tiers = [''auto'', ''ultimate'', ''performance'', ''efficient'', ''lite'']"

definition is_router_tier :: "string \<Rightarrow> bool" where
  "is_router_tier model \<longleftrightarrow> model \<in> set router_tiers"

text \<open>The class of a model key in \<open>pickTransport\<close>, where the empty key stands for a tier.\<close>

definition model_class :: "string \<Rightarrow> string" where
  "model_class model_key =
    (if model_key \<noteq> [] \<and> \<not> is_router_tier model_key then ''concrete:'' @ model_key else ''tier'')"

definition cache_key :: "Account \<Rightarrow> string \<Rightarrow> string" where
  "cache_key account cls = acc_id account @ ''|'' @ cls"

definition cache_transport :: "nat \<Rightarrow> string \<Rightarrow> transport_kind \<Rightarrow> 'w Server \<Rightarrow> 'w Server" where
  "cache_transport i key k s = on_pool (on_entry i (set_transport (kind_name k)))
    (s\<lparr>sr_cache := (sr_cache s)(key \<mapsto> kind_name k)\<rparr>)"

definition probe_and_cache ::
  "('e, 'w) services \<Rightarrow> nat \<Rightarrow> Account \<Rightarrow> string \<Rightarrow> transport_kind \<Rightarrow> 'w Server \<Rightarrow>
   (call_error + transport_kind) \<times> 'w Server" where
  "probe_and_cache sv i account key k s =
    (case server_probe sv k account s of
       (Some e, s) \<Rightarrow> (Inl e, s)
     | (None, s) \<Rightarrow> (Inr k, cache_transport i key k s))"

definition as_http_error :: "call_error \<Rightarrow> HTTPError option" where
  "as_http_error e = (case e of HttpFailed he \<Rightarrow> Some he | _ \<Rightarrow> None)"

definition pick_transport ::
  "('e, 'w) services \<Rightarrow> nat \<Rightarrow> Account \<Rightarrow> string \<Rightarrow> 'w Server \<Rightarrow> (call_error + transport_kind) \<times> 'w Server" where
  "pick_transport sv i account model_key s =
    (let forced = cf_transport (sc_config sv); key = cache_key account (model_class model_key);
         cached = sr_cache s key; probe = probe_and_cache sv i account key in
     if forced = ''bearer'' then
       (if cached = Some ''bearer'' then (Inr Bearer, s) else probe Bearer s)
     else if forced = ''cosy'' then
       (if cached = Some ''cosy'' then (Inr Cosy, s) else probe Cosy s)
     else if cached = Some ''bearer'' then (Inr Bearer, s)
     else if cached = Some ''cosy'' then (Inr Cosy, s)
     else if model_class model_key \<noteq> ''tier'' then probe Cosy s
     else (case probe Bearer s of
         (Inr k, s) \<Rightarrow> (Inr k, s)
       | (Inl e, s) \<Rightarrow>
         (case as_http_error e of
            Some he \<Rightarrow> if he_status he = 404 then probe Cosy s else (Inl e, s)
          | None \<Rightarrow> (Inl e, s))))"

end
