(* ===== verification/ChatLoop.thy ===== *)
theory ChatLoop
  imports Services
begin

text \<open>
  \<open>chat\<close> of \<open>internal/server/server.go\<close>: one turn of the loop over the accounts, what it decides
  from the error of the upstream call, and the loop itself, which is total because every turn
  that goes on uses up an account or a round of the queue.  A panic is a value of its own.
\<close>

section \<open>Errors of a call\<close>

fun call_error_text :: "call_error \<Rightarrow> string" where
  "call_error_text (HttpFailed he) = http_error_text he"
| "call_error_text (NetFailed e) = e"
| "call_error_text (SignFailed e) = e"
| "call_error_text BadModelConfig = ''invalid cached model_config''"

definition error_status :: "call_error + 'a \<Rightarrow> int option" where
  "error_status r = (case r of
      Inl e \<Rightarrow> map_option he_status (as_http_error e)
    | Inr _ \<Rightarrow> None)"

fun select_error_text :: "select_error \<Rightarrow> string" where
  "select_error_text NoHealthyAccount = ''no healthy Qoder account is available''"
| "select_error_text IndexPanic = []"

definition max_duration :: "duration \<Rightarrow> duration \<Rightarrow> duration" where
  "max_duration a b = (if a > b then a else b)"

text \<open>\<open>random\<close> is the result of \<open>rand.Intn(100)\<close>.\<close>

definition backoff :: "int \<Rightarrow> int \<Rightarrow> duration" where
  "backoff n random = (100 * 2 ^ nat (min n 4) + random) * (10 ^ 6)"

section \<open>The upstream call of a turn\<close>

text \<open>The class under which the fallback is cached: unlike in \<open>pickTransport\<close>, the empty key counts
  as a concrete model here.\<close>

definition fallback_class :: "string \<Rightarrow> string" where
  "fallback_class model_key =
    (if is_router_tier model_key then ''tier'' else ''concrete:'' @ model_key)"

text \<open>A 401 refreshes the account and tries once more.\<close>

definition retry_unauthorized ::
  "('e, 'w) services \<Rightarrow> nat \<Rightarrow> Account \<Rightarrow> ChatRequest \<Rightarrow> Model \<Rightarrow> transport_kind \<Rightarrow>
   call_error + UpstreamResponse \<Rightarrow> 'w Server \<Rightarrow> (call_error + UpstreamResponse) \<times> Account \<times> 'w Server" where
  "retry_unauthorized sv i account req model k r s =
    (if error_status r \<noteq> Some 401 then (r, account, s)
     else
       (let ((fresh, ref_err), s) = server_fresh sv i True s;
            (r, account, s) = (if ref_err = None
              then (let (r, s) = server_chat sv k fresh req model s in (r, fresh, s))
              else (r, account, s));
            s = (if error_status r = Some 401 then on_pool (mark_auth_error i) s else s)
        in (r, account, s)))"

text \<open>A 404 or 405 of the Bearer route moves the account to COSY.\<close>

definition fall_back ::
  "('e, 'w) services \<Rightarrow> nat \<Rightarrow> Account \<Rightarrow> ChatRequest \<Rightarrow> Model \<Rightarrow> transport_kind \<Rightarrow>
   call_error + UpstreamResponse \<Rightarrow> 'w Server \<Rightarrow> (call_error + UpstreamResponse) \<times> 'w Server" where
  "fall_back sv i account req model k r s =
    (if error_status r \<in> {Some 404, Some 405} \<and> cf_transport (sc_config sv) = ''auto'' \<and>
        ct_name (transport_of sv k) = ''bearer''
     then server_chat sv Cosy account req model
            (cache_transport i (cache_key account (fallback_class (md_upstream_key model))) Cosy s)
     else (r, s))"

definition call_upstream ::
  "('e, 'w) services \<Rightarrow> nat \<Rightarrow> Account \<Rightarrow> ChatRequest \<Rightarrow> Model \<Rightarrow> transport_kind \<Rightarrow> 'w Server \<Rightarrow>
   (call_error + UpstreamResponse) \<times> Account \<times> 'w Server" where
  "call_upstream sv i account req model k s =
    (let (r, s) = server_chat sv k account req model s;
         (r, account, s) = retry_unauthorized sv i account req model k r s;
         (r, s) = fall_back sv i account req model k r s
     in (r, account, s))"

section \<open>What a turn decides\<close>

text \<open>The variables of the loop.\<close>

record Turn =
  tn_excluded :: "string set"
  tn_attempts :: int
  tn_retries :: int
  tn_quota :: "HTTPError option"
  tn_rounds :: int
  tn_waited :: int

definition first_turn :: Turn where
  "first_turn = \<lparr>tn_excluded = {}, tn_attempts = 0, tn_retries = 0, tn_quota = None, tn_rounds = 0, tn_waited = 0\<rparr>"

text \<open>\<open>Answer\<close> comes with the status for the log.\<close>

datatype verdict = Answer Reply int | Panic | Again

definition answer_error :: "int \<Rightarrow> string \<Rightarrow> string \<Rightarrow> verdict" where
  "answer_error status typ msg = Answer (write_error status typ msg) status"

definition quota_answer :: "HTTPError \<Rightarrow> verdict" where
  "quota_answer he = answer_error (he_status he) ''quota_exceeded'' (http_error_text he)"

text \<open>Whether the queue signal is waited for; the sums are 64 bits wide.\<close>

definition queue_admits :: "Config \<Rightarrow> Turn \<Rightarrow> duration \<Rightarrow> bool" where
  "queue_admits cfg tn qwait \<longleftrightarrow> qwait > 0 \<and> cf_queue_max_rounds cfg > 0 \<and>
     tn_rounds tn < cf_queue_max_rounds cfg \<and> qwait \<le> cf_queue_wait_max cfg \<and>
     wrap64 (tn_waited tn + qwait) \<le> cf_queue_wait_budget cfg"

text \<open>\<open>rand.Int63n\<close> panics for an argument that is not positive.\<close>

definition queue_wait ::
  "('e, 'w) services \<Rightarrow> Account \<Rightarrow> duration \<Rightarrow> Turn \<Rightarrow> 'w Server \<Rightarrow> verdict \<times> Turn \<times> 'w Server" where
  "queue_wait sv account qwait tn s =
    (let tn = tn\<lparr>tn_rounds := tn_rounds tn + 1\<rparr> in
     if cf_queue_wait_jitter (sc_config sv) \<le> 0 then (Panic, tn, s)
     else
       (let (n, w) = sc_rand sv (cf_queue_wait_jitter (sc_config sv)) (sr_world s);
            pause = wrap64 (qwait + (n + 1));
            tn = tn\<lparr>tn_waited := wrap64 (tn_waited tn + pause), tn_excluded := tn_excluded tn - {acc_id account},
                    tn_attempts := tn_attempts tn - 1\<rparr>;
            (ctx_err, w) = sc_wait sv pause w;
            s = s\<lparr>sr_world := w\<rparr>
        in (case ctx_err of
              Some e \<Rightarrow> (answer_error 504 ''queue_timeout'' (''upstream queue wait aborted: '' @ e), tn, s)
            | None \<Rightarrow> (Again, tn, s))))"

text \<open>The \<open>switch\<close> over the status of the error.\<close>

definition on_status ::
  "('e, 'w) services \<Rightarrow> nat \<Rightarrow> HTTPError \<Rightarrow> Turn \<Rightarrow> 'w Server \<Rightarrow> verdict \<times> Turn \<times> 'w Server" where
  "on_status sv i he tn s =
    (if he_status he = 401 then (Again, tn, on_pool (mark_auth_error i) s)
     else if he_status he = 403 then
       (if is_quota_error (he_message he) then (Again, tn\<lparr>tn_quota := Some he\<rparr>, s)
        else (Again, tn, on_pool (mark_disabled (server_now sv s) i ''Qoder returned 403'') s))
     else if he_status he = 429 then
       (Again, tn, on_pool (mark_cooldown (server_now sv s) i
          (max_duration (he_retry_after he) (cf_cooldown_default (sc_config sv)))) s)
     else if he_status he \<ge> 500 \<and> tn_retries tn < cf_max_5xx_retries (sc_config sv) then
       (let tn = tn\<lparr>tn_retries := tn_retries tn + 1\<rparr>;
            (n, w) = sc_rand sv 100 (sr_world s)
        in (Again, tn, s\<lparr>sr_world := sc_sleep sv (backoff (tn_retries tn) n) w\<rparr>))
     else
       (let status = (if he_status he < 400 \<or> he_status he > 599 then 502 else he_status he)
        in (answer_error status ''upstream_error'' (http_error_text he), tn, s)))"

definition on_call_error ::
  "('e, 'w) services \<Rightarrow> nat \<Rightarrow> Account \<Rightarrow> call_error \<Rightarrow> Turn \<Rightarrow> 'w Server \<Rightarrow> verdict \<times> Turn \<times> 'w Server" where
  "on_call_error sv i account e tn s =
    (let qwait = queue_wait_seconds (call_error_text e) in
     if queue_admits (sc_config sv) tn qwait then queue_wait sv account qwait tn s
     else (case as_http_error e of
         None \<Rightarrow> (answer_error 502 ''upstream_network_error'' (sanitize_snippet (call_error_text e) 256), tn, s)
       | Some he \<Rightarrow> on_status sv i he tn s))"

section \<open>A turn and the loop\<close>

text \<open>The part of a turn that has an account: its model, its transport, the call and the relay.\<close>

definition serve_account ::
  "('e, 'w) services \<Rightarrow> client_out \<Rightarrow> ChatRequest \<Rightarrow> nat \<Rightarrow> Account \<Rightarrow> Turn \<Rightarrow> 'w Server \<Rightarrow>
   verdict \<times> Turn \<times> 'w Server" where
  "serve_account sv out req i account tn s =
    (let ((snap, cat_err), s) = server_catalog sv account s in
     if cat_err \<noteq> None \<and> cs_models snap = [] then (Again, tn, s)
     else (case find_model (cs_models snap) (cr_model req) of
         None \<Rightarrow> (answer_error 400 ''model_not_found'' ''model is not available for the selected Qoder account'', tn, s)
       | Some model \<Rightarrow>
         (case validate_capabilities req model of
            Some e \<Rightarrow> (answer_error 400 ''unsupported_capability'' (sc_unsupported sv e), tn, s)
          | None \<Rightarrow>
            (case pick_transport sv i account (md_upstream_key model) s of
               (Inl _, s) \<Rightarrow> (Again, tn, s)
             | (Inr k, s) \<Rightarrow>
               (let (r, account, s) = call_upstream sv i account req model k s in
                case r of
                  Inl e \<Rightarrow> on_call_error sv i account e tn s
                | Inr up \<Rightarrow>
                  (let ((body, fin), w) = sc_deliver sv up (sr_world s);
                       (reply, status) = relay (sc_detail sv) out body fin req model
                   in (Answer reply status, tn, s\<lparr>sr_world := w\<rparr>)))))))"

definition chat_turn ::
  "('e, 'w) services \<Rightarrow> client_out \<Rightarrow> ChatRequest \<Rightarrow> Turn \<Rightarrow> 'w Server \<Rightarrow> verdict \<times> Turn \<times> 'w Server" where
  "chat_turn sv out req tn s =
    (case server_select sv (cr_session_key req) (tn_excluded tn) s of
       (Inl IndexPanic, s) \<Rightarrow> (Panic, tn, s)
     | (Inl NoHealthyAccount, s) \<Rightarrow>
       ((case tn_quota tn of
           Some he \<Rightarrow> quota_answer he
         | None \<Rightarrow> answer_error 503 ''no_account'' (select_error_text NoHealthyAccount)), tn, s)
     | (Inr i, s) \<Rightarrow>
       (let ((account, refresh_err), s) = server_fresh sv i False s;
            tn = tn\<lparr>tn_excluded := insert (acc_id account) (tn_excluded tn), tn_attempts := tn_attempts tn + 1\<rparr>
        in if refresh_err \<noteq> None then (Again, tn, on_pool (mark_auth_error i) s)
           else serve_account sv out req i account tn s))"

text \<open>The answer after the loop.\<close>

definition exhausted :: "Turn \<Rightarrow> verdict" where
  "exhausted tn = (case tn_quota tn of
      Some he \<Rightarrow> quota_answer he
    | None \<Rightarrow> answer_error 503 ''accounts_exhausted'' ''all available Qoder accounts failed before streaming began'')"

text \<open>What is left for the loop to use up: the rounds of the queue and the accounts.\<close>

definition turns_left :: "Config \<Rightarrow> int \<Rightarrow> Turn \<Rightarrow> nat" where
  "turns_left cfg max_accounts tn =
    nat (cf_queue_max_rounds cfg - tn_rounds tn) + nat (max_accounts - tn_attempts tn)"

lemma queue_wait_again:
  "queue_wait sv account qwait tn s = (Again, tn', s') \<Longrightarrow>
   tn_rounds tn' = tn_rounds tn + 1 \<and> tn_attempts tn' = tn_attempts tn - 1"
  by (auto simp: queue_wait_def Let_def answer_error_def split: if_splits prod.splits option.splits)

lemma on_status_turn:
  "on_status sv i he tn s = (v, tn', s') \<Longrightarrow> tn_rounds tn' = tn_rounds tn \<and> tn_attempts tn' = tn_attempts tn"
  by (auto simp: on_status_def Let_def split: if_splits prod.splits)

lemma on_call_error_again:
  assumes "on_call_error sv i account e tn s = (Again, tn', s')"
  shows "tn_rounds tn' = tn_rounds tn \<and> tn_attempts tn' = tn_attempts tn \<or>
    tn_rounds tn < cf_queue_max_rounds (sc_config sv) \<and>
    tn_rounds tn' = tn_rounds tn + 1 \<and> tn_attempts tn' = tn_attempts tn - 1"
  using assms queue_wait_again [of sv account] on_status_turn [of sv i]
  by (auto simp: on_call_error_def Let_def queue_admits_def answer_error_def split: if_splits option.splits)

lemma serve_account_again:
  assumes "serve_account sv out req i account tn s = (Again, tn', s')"
  shows "tn_rounds tn' = tn_rounds tn \<and> tn_attempts tn' = tn_attempts tn \<or>
    tn_rounds tn < cf_queue_max_rounds (sc_config sv) \<and>
    tn_rounds tn' = tn_rounds tn + 1 \<and> tn_attempts tn' = tn_attempts tn - 1"
  using assms on_call_error_again [of sv i]
  by (simp add: serve_account_def Let_def answer_error_def split: prod.splits if_splits option.splits sum.splits)

lemma chat_turn_again:
  assumes "chat_turn sv out req tn s = (Again, tn', s')"
  shows "tn_rounds tn' = tn_rounds tn \<and> tn_attempts tn' = tn_attempts tn + 1 \<or>
    tn_rounds tn < cf_queue_max_rounds (sc_config sv) \<and>
    tn_rounds tn' = tn_rounds tn + 1 \<and> tn_attempts tn' = tn_attempts tn"
proof -
  obtain r s1 where sel: "server_select sv (cr_session_key req) (tn_excluded tn) s = (r, s1)" by fastforce
  with assms obtain i where r: "r = Inr i"
    by (cases r) (auto simp: chat_turn_def quota_answer_def answer_error_def split: select_error.splits option.splits)
  obtain account err s2 where fr: "server_fresh sv i False s1 = ((account, err), s2)"
    by (metis surj_pair)
  let ?tn = "tn\<lparr>tn_excluded := insert (acc_id account) (tn_excluded tn), tn_attempts := tn_attempts tn + 1\<rparr>"
  show ?thesis
  proof (cases "err = None")
    case True
    with assms sel r fr have "serve_account sv out req i account ?tn s2 = (Again, tn', s')"
      by (simp add: chat_turn_def)
    from serve_account_again [OF this] show ?thesis by simp
  next
    case False
    with assms sel r fr show ?thesis by (auto simp: chat_turn_def)
  qed
qed

lemma turns_left_decreases:
  assumes "chat_turn sv out req tn s = (Again, tn', s')" and "tn_attempts tn < max_accounts"
  shows "turns_left (sc_config sv) max_accounts tn' < turns_left (sc_config sv) max_accounts tn"
  using chat_turn_again [OF assms(1)] assms(2) by (auto simp: turns_left_def)

function chat_loop ::
  "('e, 'w) services \<Rightarrow> client_out \<Rightarrow> ChatRequest \<Rightarrow> int \<Rightarrow> Turn \<Rightarrow> 'w Server \<Rightarrow> verdict \<times> 'w Server" where
  "chat_loop sv out req max_accounts tn s =
    (if tn_attempts tn < max_accounts then
       (case chat_turn sv out req tn s of
          (Again, tn', s') \<Rightarrow> chat_loop sv out req max_accounts tn' s'
        | (Answer reply status, tn', s') \<Rightarrow> (Answer reply status, s')
        | (Panic, tn', s') \<Rightarrow> (Panic, s'))
     else (exhausted tn, s))"
  by pat_completeness auto
termination
  by (relation "measure (\<lambda>(sv, out, req, max_accounts, tn, s). turns_left (sc_config sv) max_accounts tn)")
    (auto intro: turns_left_decreases [OF sym])

declare chat_loop.simps [simp del]

text \<open>Induction over the turns of one request.\<close>

lemma chat_loop_steps [case_names step]:
  assumes step: "\<And>tn s. (\<And>tn' s'. tn_attempts tn < max_accounts \<Longrightarrow>
      chat_turn sv out req tn s = (Again, tn', s') \<Longrightarrow> P tn' s') \<Longrightarrow> P tn s"
  shows "P tn s"
proof (induction "turns_left (sc_config sv) max_accounts tn" arbitrary: tn s rule: less_induct)
  case (less tn s)
  have "P tn' s'" if "tn_attempts tn < max_accounts" and "chat_turn sv out req tn s = (Again, tn', s')" for tn' s'
    using less.hyps [OF turns_left_decreases [OF that(2,1)]] .
  then show ?case by (rule step)
qed

section \<open>The loop ends\<close>

text \<open>The loop with a bound on its turns.\<close>

fun chat_loop_within ::
  "nat \<Rightarrow> ('e, 'w) services \<Rightarrow> client_out \<Rightarrow> ChatRequest \<Rightarrow> int \<Rightarrow> Turn \<Rightarrow> 'w Server \<Rightarrow>
   (verdict \<times> 'w Server) option" where
  "chat_loop_within n sv out req max_accounts tn s =
    (if tn_attempts tn < max_accounts then
       (case n of
          0 \<Rightarrow> None
        | Suc m \<Rightarrow>
          (case chat_turn sv out req tn s of
             (Again, tn', s') \<Rightarrow> chat_loop_within m sv out req max_accounts tn' s'
           | (Answer reply status, tn', s') \<Rightarrow> Some (Answer reply status, s')
           | (Panic, tn', s') \<Rightarrow> Some (Panic, s')))
     else Some (exhausted tn, s))"

declare chat_loop_within.simps [simp del]

lemma within_turns_left:
  "turns_left (sc_config sv) max_accounts tn \<le> n \<Longrightarrow>
   chat_loop_within n sv out req max_accounts tn s = Some (chat_loop sv out req max_accounts tn s)"
proof (induction n arbitrary: tn s)
  case 0
  then have "\<not> tn_attempts tn < max_accounts" by (simp add: turns_left_def)
  then show ?case by (simp add: chat_loop_within.simps chat_loop.simps)
next
  case (Suc n)
  show ?case
  proof (cases "tn_attempts tn < max_accounts")
    case True
    obtain v tn' s' where t: "chat_turn sv out req tn s = (v, tn', s')" using prod_cases3 by blast
    show ?thesis
    proof (cases v)
      case Again
      with turns_left_decreases [of sv out req tn s tn' s'] t True Suc.prems
      have "turns_left (sc_config sv) max_accounts tn' \<le> n" by fastforce
      from Suc.IH [OF this] Again t True show ?thesis
        by (simp add: chat_loop_within.simps [of "Suc n"] chat_loop.simps [of sv out req max_accounts tn])
    qed (simp_all add: t True chat_loop_within.simps chat_loop.simps)
  qed (simp add: chat_loop_within.simps chat_loop.simps)
qed

text \<open>
  C1: a chat request is answered after finitely many upstream attempts.  The loop over the
  accounts makes at most as many turns as there are accounts and rounds of the queue, whatever
  the upstream answers and however often it asks to wait.
\<close>

theorem chat_loop_bounded:
  "chat_loop_within (nat (cf_queue_max_rounds (sc_config sv)) + nat max_accounts) sv out req max_accounts first_turn s =
   Some (chat_loop sv out req max_accounts first_turn s)"
  by (rule within_turns_left) (simp add: turns_left_def first_turn_def)

section \<open>The turns of a request\<close>

text \<open>The states at the head of the loop.\<close>

inductive chat_reaches ::
  "('e, 'w) services \<Rightarrow> client_out \<Rightarrow> ChatRequest \<Rightarrow> int \<Rightarrow> 'w Server \<Rightarrow> Turn \<times> 'w Server \<Rightarrow> bool"
  for sv out req max_accounts s0 where
  start: "chat_reaches sv out req max_accounts s0 (first_turn, s0)"
| turn: "chat_reaches sv out req max_accounts s0 (tn, s) \<Longrightarrow> tn_attempts tn < max_accounts \<Longrightarrow>
    chat_turn sv out req tn s = (Again, tn', s') \<Longrightarrow> chat_reaches sv out req max_accounts s0 (tn', s')"

text \<open>What a turn that goes on does to the variables of the loop: an account is used up, with or
  without a counted failure, or a round of the queue is.\<close>

definition quota_seen :: "HTTPError \<Rightarrow> bool" where
  "quota_seen he \<longleftrightarrow> he_status he = 403 \<and> is_quota_error (he_message he)"

definition queued :: "('e, 'w) services \<Rightarrow> Turn \<Rightarrow> Turn \<Rightarrow> bool" where
  "queued sv tn tn' \<longleftrightarrow> (\<exists>qwait n w.
     queue_admits (sc_config sv) tn qwait \<and> qwait < 2 ^ 63 \<and>
     0 < cf_queue_wait_jitter (sc_config sv) \<and> n = fst (sc_rand sv (cf_queue_wait_jitter (sc_config sv)) w) \<and>
     tn_waited tn' = wrap64 (tn_waited tn + wrap64 (qwait + (n + 1))) \<and> tn_rounds tn' = tn_rounds tn + 1 \<and>
     tn_quota tn' = tn_quota tn)"

definition moved_on :: "Turn \<Rightarrow> Turn \<Rightarrow> bool" where
  "moved_on tn tn' \<longleftrightarrow> tn_waited tn' = tn_waited tn \<and> tn_rounds tn' = tn_rounds tn \<and>
     (tn_quota tn' = tn_quota tn \<or> (\<exists>he. tn_quota tn' = Some he \<and> quota_seen he))"

lemma queue_wait_seconds_less: "queue_wait_seconds m < 2 ^ 63"
  using wrap64_range by (auto simp: queue_wait_seconds_def Let_def split: option.splits)

lemma on_call_error_turn:
  assumes "on_call_error sv i account e tn s = (Again, tn', s')"
  shows "queued sv tn tn' \<or> moved_on tn tn'"
proof (cases "queue_admits (sc_config sv) tn (queue_wait_seconds (call_error_text e))")
  case True
  let ?q = "queue_wait_seconds (call_error_text e)"
  obtain n w where r: "sc_rand sv (cf_queue_wait_jitter (sc_config sv)) (sr_world s) = (n, w)" by fastforce
  from assms True have q: "queue_wait sv account ?q tn s = (Again, tn', s')" by (simp add: on_call_error_def)
  then have j: "0 < cf_queue_wait_jitter (sc_config sv)" by (auto simp: queue_wait_def Let_def split: if_splits)
  with q r have "tn_waited tn' = wrap64 (tn_waited tn + wrap64 (?q + (n + 1))) \<and> tn_rounds tn' = tn_rounds tn + 1 \<and>
      tn_quota tn' = tn_quota tn"
    by (auto simp: queue_wait_def Let_def answer_error_def split: prod.splits option.splits)
  then have "queued sv tn tn'"
    unfolding queued_def using True r j queue_wait_seconds_less [of "call_error_text e"]
    by (intro exI [of _ ?q] exI [of _ n] exI [of _ "sr_world s"]) auto
  then show ?thesis ..
next
  case False
  with assms show ?thesis
    by (auto simp: on_call_error_def on_status_def Let_def moved_on_def quota_seen_def answer_error_def
        split: option.splits if_splits prod.splits)
qed

lemma serve_account_turn:
  assumes "serve_account sv out req i account tn s = (Again, tn', s')"
  shows "queued sv tn tn' \<or> moved_on tn tn'"
  using assms on_call_error_turn [of sv i]
  by (simp add: serve_account_def Let_def answer_error_def moved_on_def
      split: prod.splits if_splits option.splits sum.splits)

lemma queued_attempt: "queued sv (tn\<lparr>tn_excluded := x, tn_attempts := n\<rparr>) tn' = queued sv tn tn'"
  by (simp add: queued_def queue_admits_def)

lemma chat_turn_turn:
  assumes "chat_turn sv out req tn s = (Again, tn', s')"
  shows "queued sv tn tn' \<or> moved_on tn tn'"
proof -
  obtain r s1 where sel: "server_select sv (cr_session_key req) (tn_excluded tn) s = (r, s1)" by fastforce
  with assms obtain i where r: "r = Inr i"
    by (cases r) (auto simp: chat_turn_def quota_answer_def answer_error_def split: select_error.splits option.splits)
  obtain account err s2 where fr: "server_fresh sv i False s1 = ((account, err), s2)"
    by (metis surj_pair)
  let ?tn = "tn\<lparr>tn_excluded := insert (acc_id account) (tn_excluded tn), tn_attempts := tn_attempts tn + 1\<rparr>"
  show ?thesis
  proof (cases "err = None")
    case True
    with assms sel r fr have "serve_account sv out req i account ?tn s2 = (Again, tn', s')"
      by (simp add: chat_turn_def)
    from serve_account_turn [OF this] show ?thesis by (simp add: queued_attempt moved_on_def)
  next
    case False
    with assms sel r fr show ?thesis by (auto simp: chat_turn_def moved_on_def)
  qed
qed

section \<open>Waiting for the queue\<close>

text \<open>What the bound on the waiting rests on: sums that fit in 64 bits, and \<open>rand.Int63n\<close>.\<close>

definition queue_config_ok :: "Config \<Rightarrow> bool" where
  "queue_config_ok cfg \<longleftrightarrow> 0 \<le> cf_queue_wait_budget cfg \<and> 0 \<le> cf_queue_wait_jitter cfg \<and>
     cf_queue_wait_max cfg + cf_queue_wait_budget cfg + cf_queue_wait_jitter cfg < 2 ^ 63"

definition rand_ok :: "(int \<Rightarrow> 'w \<Rightarrow> int \<times> 'w) \<Rightarrow> bool" where
  "rand_ok rand \<longleftrightarrow> (\<forall>n w. 0 < n \<longrightarrow> 0 \<le> fst (rand n w) \<and> fst (rand n w) < n)"

definition waiting_inv :: "Config \<Rightarrow> Turn \<Rightarrow> bool" where
  "waiting_inv cfg tn \<longleftrightarrow> 0 \<le> tn_waited tn \<and> tn_waited tn \<le> cf_queue_wait_budget cfg + cf_queue_wait_jitter cfg \<and>
     tn_rounds tn \<le> max 0 (cf_queue_max_rounds cfg)"

lemma waiting_inv_queued:
  assumes "queued sv tn tn'" and "waiting_inv (sc_config sv) tn" and "queue_config_ok (sc_config sv)"
    and "rand_ok (sc_rand sv)"
  shows "waiting_inv (sc_config sv) tn'"
proof -
  let ?c = "sc_config sv"
  obtain q n w where q: "queue_admits ?c tn q" and j: "0 < cf_queue_wait_jitter ?c"
    and n: "n = fst (sc_rand sv (cf_queue_wait_jitter ?c) w)"
    and waited: "tn_waited tn' = wrap64 (tn_waited tn + wrap64 (q + (n + 1)))" and rounds: "tn_rounds tn' = tn_rounds tn + 1"
    using assms(1) by (auto simp: queued_def)
  have n_range: "0 \<le> n" "n < cf_queue_wait_jitter ?c" using assms(4) j n by (auto simp: rand_ok_def)
  have pos: "0 < q" "q \<le> cf_queue_wait_max ?c" using q by (auto simp: queue_admits_def)
  have small: "0 \<le> tn_waited tn" "tn_waited tn + q < 2 ^ 63"
    using assms(2,3) pos by (auto simp: waiting_inv_def queue_config_ok_def)
  then have "wrap64 (tn_waited tn + q) = tn_waited tn + q" using pos by (intro wrap64_id) (auto simp: in64_def)
  with q have budget: "tn_waited tn + q \<le> cf_queue_wait_budget ?c" by (simp add: queue_admits_def)
  have "wrap64 (q + (n + 1)) = q + (n + 1)" using pos n_range small budget assms(3)
    by (intro wrap64_id) (auto simp: in64_def queue_config_ok_def)
  moreover have "wrap64 (tn_waited tn + (q + (n + 1))) = tn_waited tn + (q + (n + 1))"
    using pos n_range small budget assms(3) by (intro wrap64_id) (auto simp: in64_def queue_config_ok_def)
  ultimately have "tn_waited tn' = tn_waited tn + (q + (n + 1))" using waited by simp
  then show ?thesis using pos n_range small budget rounds q assms(2)
    by (auto simp: waiting_inv_def queue_admits_def)
qed

text \<open>
  C6: the waiting for the queue is bounded.  However often the upstream asks to wait, the waits
  of one request add up to at most \<open>QueueWaitBudget\<close> and one \<open>QueueWaitJitter\<close>, in at most
  \<open>QueueMaxRounds\<close> rounds, as long as the configured durations fit in 64 bits.
\<close>

theorem queue_waiting_bounded:
  assumes "chat_reaches sv out req max_accounts s0 (tn, s)" and "queue_config_ok (sc_config sv)"
    and "rand_ok (sc_rand sv)"
  shows "0 \<le> tn_waited tn \<and>
    tn_waited tn \<le> cf_queue_wait_budget (sc_config sv) + cf_queue_wait_jitter (sc_config sv) \<and>
    tn_rounds tn \<le> max 0 (cf_queue_max_rounds (sc_config sv))"
proof -
  have "waiting_inv (sc_config sv) tn" using assms(1)
  proof (induction "(tn, s)" arbitrary: tn s rule: chat_reaches.induct)
    case start
    then show ?case using assms(2) by (auto simp: waiting_inv_def queue_config_ok_def first_turn_def)
  next
    case (turn tn s tn' s')
    from chat_turn_turn [OF turn.hyps(4)] turn.hyps(2) waiting_inv_queued [OF _ _ assms(2,3)]
    show ?case by (auto simp: moved_on_def waiting_inv_def)
  qed
  then show ?thesis by (simp add: waiting_inv_def)
qed

text \<open>
  C40: a jitter that is not positive takes the request down.  The validation of the configuration
  never looks at \<open>queue_wait_jitter\<close>; with zero or less there, the first queue signal that is to
  be waited for makes \<open>rand.Int63n\<close> panic.
\<close>

theorem zero_jitter_panics:
  assumes "validate_config cfg = None" and "jitter \<le> 0"
    and "queue_admits cfg tn (queue_wait_seconds (call_error_text e))"
  shows "validate_config (cfg\<lparr>cf_queue_wait_jitter := jitter\<rparr>) = None \<and>
    fst (on_call_error (sv\<lparr>sc_config := cfg\<lparr>cf_queue_wait_jitter := jitter\<rparr>\<rparr>) i account e tn s) = Panic"
proof -
  have "validate_config (cfg\<lparr>cf_queue_wait_jitter := jitter\<rparr>) = validate_config cfg"
    by (simp add: validate_config_def)
  with assms show ?thesis by (simp add: on_call_error_def queue_wait_def queue_admits_def)
qed

section \<open>Quota rejections\<close>

lemma quota_reached:
  assumes "chat_reaches sv out req max_accounts s0 (tn, s)" and "tn_quota tn = Some he"
  shows "quota_seen he"
  using assms
proof (induction "(tn, s)" arbitrary: tn s he rule: chat_reaches.induct)
  case start
  then show ?case by (simp add: first_turn_def)
next
  case (turn tn s tn' s')
  from chat_turn_turn [OF turn.hyps(4)] turn.prems turn.hyps(2) show ?case
    by (auto simp: queued_def moved_on_def)
qed

text \<open>The type of an error reply.\<close>

definition error_type :: "Reply \<Rightarrow> string option" where
  "error_type r = (case rp_body r of
      BodyJSON j \<Rightarrow> (case json_member ''error'' j of
          Some e \<Rightarrow> (case json_member ''type'' e of Some (JStr t) \<Rightarrow> Some t | _ \<Rightarrow> None)
        | None \<Rightarrow> None)
    | _ \<Rightarrow> None)"

lemma error_type_write_error [simp]: "error_type (write_error status typ msg) = Some typ"
  by (simp add: error_type_def write_error_def write_json_def json_member_def)

definition starved :: "verdict \<Rightarrow> bool" where
  "starved v = (case v of
      Answer r _ \<Rightarrow> error_type r \<in> {Some ''no_account'', Some ''accounts_exhausted''}
    | _ \<Rightarrow> False)"

lemma starved_simps [simp]:
  "starved (answer_error status typ msg) \<longleftrightarrow> typ \<in> {''no_account'', ''accounts_exhausted''}"
  "\<not> starved Panic" "\<not> starved Again"
  by (simp_all add: starved_def answer_error_def)

lemma response_no_error: "json_member ''error'' (snd (response a fb now)) = None"
  by (auto simp: response_def Let_def json_member_def split: option.splits)

lemma error_type_others [simp]:
  "error_type (write_json st (snd (response a fb now))) = None"
  "error_type \<lparr>rp_status = st, rp_headers = hs, rp_body = BodyStream fs\<rparr> = None"
  by (simp_all add: error_type_def write_json_def response_no_error)

lemma relay_not_starved: "relay detail out body fin req model = (r, st) \<Longrightarrow> \<not> starved (Answer r st)"
  by (auto simp: relay_def relay_stream_def relay_whole_def Let_def starved_def stream_failure_def
      split: if_splits prod.splits option.splits sse_error.splits)

lemma serve_account_not_starved:
  assumes "serve_account sv out req i account tn s = (v, tn', s')"
  shows "\<not> starved v"
proof -
  have "\<not> starved v" if "on_call_error sv i a e t u = (v, tn', s')" for a e t u
    using that by (auto simp: on_call_error_def queue_wait_def on_status_def Let_def
        split: if_splits option.splits prod.splits)
  with assms relay_not_starved show ?thesis
    by (fastforce simp: serve_account_def Let_def split: prod.splits if_splits option.splits sum.splits)
qed

lemma quota_not_starved:
  "tn_quota tn \<noteq> None \<Longrightarrow> \<not> starved (fst (chat_loop sv out req max_accounts tn s))"
proof (induction sv out req max_accounts tn s rule: chat_loop.induct)
  case (1 sv out req max_accounts tn s)
  obtain he where he: "tn_quota tn = Some he" using "1.prems" by auto
  show ?case
  proof (cases "tn_attempts tn < max_accounts")
    case False
    then show ?thesis by (simp add: chat_loop.simps exhausted_def he quota_answer_def)
  next
    case True
    obtain v tn' s' where t: "chat_turn sv out req tn s = (v, tn', s')" using prod_cases3 by blast
    show ?thesis
    proof (cases v)
      case Again
      from chat_turn_turn [of sv out req tn s tn' s'] t Again he
      have "tn_quota tn' \<noteq> None" by (auto simp: queued_def moved_on_def)
      with "1.IH" [OF True t [symmetric]] True t Again show ?thesis
        by (simp add: chat_loop.simps [of sv out req max_accounts tn])
    next
      case (Answer r st)
      have "\<not> starved v" using t he serve_account_not_starved [of sv out req]
        by (auto simp: chat_turn_def quota_answer_def Let_def split: prod.splits sum.splits select_error.splits if_splits)
      with True t Answer show ?thesis by (simp add: chat_loop.simps)
    next
      case Panic
      with True t show ?thesis by (simp add: chat_loop.simps)
    qed
  qed
qed

text \<open>
  A quota rejection decides the answer.  Once an account has been rejected for the model's
  quota, the request is never answered with a 503 for want of accounts: when no account is
  left, the answer is the rejection itself with its status 403.
\<close>

lemma quota_decides:
  assumes "chat_reaches sv out req max_accounts s0 (tn, s)" and "tn_quota tn = Some he"
  shows "exhausted tn = Answer (write_error 403 ''quota_exceeded'' (http_error_text he)) 403 \<and>
    is_quota_error (he_message he) \<and>
    \<not> starved (fst (chat_loop sv out req max_accounts tn s))"
  using quota_reached [OF assms] quota_not_starved [of tn] assms(2)
  by (simp add: exhausted_def quota_answer_def answer_error_def quota_seen_def)

section \<open>A small server\<close>

text \<open>A server with one account for the concrete instances: no network but an upstream that
  answers every call with one error, and a world that counts those calls.\<close>

definition failing_transport :: "string \<Rightarrow> call_error \<Rightarrow> nat ChatTransport" where
  "failing_transport name e = \<lparr>ct_name = name, ct_probe = (\<lambda>a w. (None, w)),
     ct_chat = (\<lambda>a req model w. (Inl e, Suc w))\<rparr>"

definition sample_services :: "call_error \<Rightarrow> (auth_error, nat) services" where
  "sample_services e = \<lparr>sc_config = default_config, sc_api_key = [], sc_refresher = None, sc_store = None,
     sc_io = env_failing [], sc_http = (\<lambda>rq w. (Inl [], w)), sc_sign = (\<lambda>_ _ _ w. (Inl [], w)),
     sc_bearer = failing_transport ''bearer'' e, sc_cosy = failing_transport ''cosy'' e, sc_quota = None,
     sc_clock = (\<lambda>_. 0), sc_sleep = (\<lambda>_ w. w), sc_rand = (\<lambda>n w. (0, w)), sc_wait = (\<lambda>_ w. (None, w)),
     sc_deliver = (\<lambda>up w. ((up_body up, AtEOF), w)), sc_detail = (\<lambda>_. []), sc_invalid = (\<lambda>_. []),
     sc_unsupported = (\<lambda>_. []), sc_catalog_text = (\<lambda>_. []), sc_fresh_text = (\<lambda>_. []), sc_date_text = (\<lambda>_. []), sc_time_text = (\<lambda>_. []),
     sc_float_text = (\<lambda>s. Some s)\<rparr>"

abbreviation sample_user_account :: Account where
  "sample_user_account \<equiv> sample_account ''global-u'' ''u''"

definition sample_server :: "nat Server" where
  "sample_server = new_server (new_pool [sample_user_account]) (new_catalog minute) (\<lambda>_. None) 0"

definition upstream_error :: "int \<Rightarrow> string \<Rightarrow> call_error" where
  "upstream_error status message = HttpFailed \<lparr>he_status = status, he_message = message, he_retry_after = 0\<rparr>"

lemma sample_select:
  "server_select (sample_services e) [] {} sample_server =
    (Inr 0, sample_server\<lparr>sr_pool := (new_pool [sample_user_account])\<lparr>pl_rr := 1\<rparr>\<rparr>)"
  by (simp add: server_select_def server_now_def sample_server_def new_server_def sample_services_def
      select_def candidates_def snapshot_all_def snapshot_def new_pool_def new_entry_def Let_def go_mod_def wrap64_def)

definition tried :: "nat Server" where
  "tried = sample_server\<lparr>sr_pool := (new_pool [sample_user_account])\<lparr>pl_rr := 1\<rparr>,
     sr_catalog := (new_catalog minute)\<lparr>ct_snapshot := \<lparr>cs_models = [lite_model], cs_fetched_at = Some 0,
       cs_account_id = ''global-u'', cs_degraded = True, cs_last_error = Some (CatSign [])\<rparr>\<rparr>\<rparr>"

lemma sample_fresh:
  "server_fresh (sample_services e) 0 False (sample_server\<lparr>sr_pool := (new_pool [sample_user_account])\<lparr>pl_rr := 1\<rparr>\<rparr>) =
    ((sample_user_account, None), sample_server\<lparr>sr_pool := (new_pool [sample_user_account])\<lparr>pl_rr := 1\<rparr>\<rparr>)"
  by (simp add: server_fresh_def server_now_def sample_server_def new_server_def sample_services_def
      ensure_fresh_def new_pool_def new_entry_def Let_def sample_account_def)

lemma sample_catalog:
  "server_catalog (sample_services e) sample_user_account
     (sample_server\<lparr>sr_pool := (new_pool [sample_user_account])\<lparr>pl_rr := 1\<rparr>\<rparr>) =
    ((\<lparr>cs_models = [lite_model], cs_fetched_at = Some 0, cs_account_id = ''global-u'', cs_degraded = True,
       cs_last_error = Some (CatSign [])\<rparr>, Some (CatSign [])), tried)"
  by (simp add: server_catalog_def server_now_def sample_server_def new_server_def sample_services_def tried_def
      catalog_get_def snapshot_fresh_def new_catalog_def catalog_fetch_def for_region_def catalog_update_def
      Let_def sample_account_def)

text \<open>The first turn, as far as what is decided from the error.\<close>

definition called :: "nat Server" where
  "called = cache_transport 0 ''global-u|tier'' Bearer tried\<lparr>sr_world := 1\<rparr>"

definition tried_turn :: Turn where
  "tried_turn = first_turn\<lparr>tn_excluded := {''global-u''}, tn_attempts := 1\<rparr>"

lemma sample_turn:
  assumes "error_status (Inl e :: call_error + UpstreamResponse) \<notin> {Some 401, Some 404, Some 405}"
  shows "chat_turn (sample_services e) out sample_request first_turn sample_server =
    on_call_error (sample_services e) 0 sample_user_account e tried_turn called"
proof -
  have m: "md_id lite_model = cr_model sample_request"
    by (simp add: sample_request_def lite_model_def)
  have v: "validate_capabilities sample_request lite_model = None"
    by (simp add: validate_capabilities_def sample_request_def check_thinking_def Let_def)
  have cls: "model_class (md_upstream_key lite_model) = ''tier''"
    by (simp add: model_class_def lite_model_def is_router_tier_def router_tiers_def)
  have p: "pick_transport (sample_services e) 0 sample_user_account (md_upstream_key lite_model) tried =
      (Inr Bearer, cache_transport 0 ''global-u|tier'' Bearer tried)"
    by (simp add: pick_transport_def cls cache_key_def sample_services_def default_config_def sample_account_def
        probe_and_cache_def server_probe_def failing_transport_def Let_def tried_def sample_server_def new_server_def)
  have c: "call_upstream (sample_services e) 0 sample_user_account sample_request lite_model Bearer
      (cache_transport 0 ''global-u|tier'' Bearer tried) = (Inl e, sample_user_account, called)"
    using assms
    by (simp add: call_upstream_def server_chat_def sample_services_def failing_transport_def Let_def called_def
        retry_unauthorized_def fall_back_def cache_transport_def on_pool_def tried_def sample_server_def new_server_def)
  have "acc_id sample_user_account = ''global-u''" "cr_session_key sample_request = []"
    by (simp_all add: sample_account_def sample_request_def)
  then show ?thesis
    by (simp add: chat_turn_def serve_account_def sample_select sample_fresh sample_catalog m v p c
        first_turn_def tried_turn_def)
qed

definition quota_error :: call_error where
  "quota_error = upstream_error 403 (DQ # ''pricingUrl'' @ [DQ])"

definition queue_error :: call_error where
  "queue_error = upstream_error 403 ''queueType, retryAfterSeconds: 2''"

lemma sample_errors:
  "queue_wait_seconds (call_error_text quota_error) = 0"
  "is_quota_error (DQ # ''pricingUrl'' @ [DQ])"
  "queue_wait_seconds (call_error_text queue_error) = 2 * second"
  by code_simp+

text \<open>The states after the first turn.\<close>

lemma quota_turn:
  "chat_turn (sample_services quota_error) out sample_request first_turn sample_server =
    (Again, tried_turn\<lparr>tn_quota := Some \<lparr>he_status = 403, he_message = DQ # ''pricingUrl'' @ [DQ], he_retry_after = 0\<rparr>\<rparr>,
     called)"
proof -
  have "error_status (Inl quota_error :: call_error + UpstreamResponse) \<notin> {Some 401, Some 404, Some 405}"
    by (simp add: error_status_def as_http_error_def quota_error_def upstream_error_def)
  note turn = sample_turn [OF this, of out]
  have "on_call_error (sample_services quota_error) 0 sample_user_account quota_error tried_turn called =
      (Again, tried_turn\<lparr>tn_quota := Some \<lparr>he_status = 403, he_message = DQ # ''pricingUrl'' @ [DQ], he_retry_after = 0\<rparr>\<rparr>,
       called)"
    using sample_errors(1,2)
    by (simp add: on_call_error_def queue_admits_def on_status_def as_http_error_def quota_error_def upstream_error_def)
  with turn show ?thesis by simp
qed

lemma queue_turn:
  "\<exists>s'. chat_turn (sample_services queue_error) out sample_request first_turn sample_server =
    (Again, tried_turn\<lparr>tn_excluded := {}, tn_attempts := 0, tn_rounds := 1, tn_waited := 2 * second + 1\<rparr>, s')"
proof -
  have "error_status (Inl queue_error :: call_error + UpstreamResponse) \<notin> {Some 401, Some 404, Some 405}"
    by (simp add: error_status_def as_http_error_def queue_error_def upstream_error_def)
  note turn = sample_turn [OF this, of out]
  show ?thesis unfolding turn
    by (simp add: on_call_error_def sample_errors queue_admits_def queue_wait_def sample_services_def
        default_config_def tried_turn_def first_turn_def wrap64_def sample_account_def Let_def)
qed

theorem queue_waiting_bounded_witness:
  "tn_waited (tried_turn\<lparr>tn_excluded := {}, tn_attempts := 0, tn_rounds := 1, tn_waited := 2 * second + 1\<rparr>)
    \<le> 602 * second"
proof -
  let ?sv = "sample_services queue_error"
  obtain s' where t: "chat_turn ?sv steady_client sample_request first_turn sample_server =
      (Again, tried_turn\<lparr>tn_excluded := {}, tn_attempts := 0, tn_rounds := 1, tn_waited := 2 * second + 1\<rparr>, s')"
    using queue_turn by blast
  have "chat_reaches ?sv steady_client sample_request 1 sample_server
      (tried_turn\<lparr>tn_excluded := {}, tn_attempts := 0, tn_rounds := 1, tn_waited := 2 * second + 1\<rparr>, s')"
    by (rule chat_reaches.turn [OF chat_reaches.start _ t]) (simp add: first_turn_def)
  from queue_waiting_bounded [OF this] show ?thesis
    by (simp add: sample_services_def default_config_def queue_config_ok_def rand_ok_def)
qed

theorem zero_jitter_panics_witness:
  "fst (on_call_error ((sample_services queue_error)\<lparr>sc_config := default_config\<lparr>cf_queue_wait_jitter := 0\<rparr>\<rparr>) 0
      sample_user_account queue_error first_turn sample_server) = Panic"
proof -
  have q: "queue_admits default_config first_turn (queue_wait_seconds (call_error_text queue_error))"
    by (simp add: sample_errors queue_admits_def default_config_def first_turn_def wrap64_def)
  show ?thesis by (rule zero_jitter_panics [OF default_config_valid _ q, THEN conjunct2]) simp
qed

lemma quota_decides_witness:
  "\<not> starved (fst (chat_loop (sample_services quota_error) steady_client sample_request 1
      (tried_turn\<lparr>tn_quota := Some \<lparr>he_status = 403, he_message = DQ # ''pricingUrl'' @ [DQ], he_retry_after = 0\<rparr>\<rparr>) called))"
proof -
  let ?sv = "sample_services quota_error"
  have "chat_reaches ?sv steady_client sample_request 1 sample_server
      (tried_turn\<lparr>tn_quota := Some \<lparr>he_status = 403, he_message = DQ # ''pricingUrl'' @ [DQ], he_retry_after = 0\<rparr>\<rparr>, called)"
    by (rule chat_reaches.turn [OF chat_reaches.start _ quota_turn]) (simp add: first_turn_def)
  from quota_decides [OF this] show ?thesis by simp
qed

text \<open>
  The retry of a server error never reaches an account twice.  The account stays excluded,
  so with one account and a retry configured, an upstream that answers with a 5xx status is
  called once, the client waits for the backoff, and the upstream's status becomes a 503.
\<close>

lemma server_error_not_retried:
  assumes "500 \<le> status" and "queue_wait_seconds (call_error_text (upstream_error status message)) \<le> 0"
  shows "\<exists>s'. chat_loop (sample_services (upstream_error status message)) out sample_request 1 first_turn sample_server =
      (answer_error 503 ''accounts_exhausted'' ''all available Qoder accounts failed before streaming began'', s') \<and>
    sr_world s' = 1"
proof -
  let ?e = "upstream_error status message" and ?sv = "sample_services (upstream_error status message)"
  have "error_status (Inl ?e :: call_error + UpstreamResponse) \<notin> {Some 401, Some 404, Some 405}"
    using assms(1) by (simp add: error_status_def as_http_error_def upstream_error_def)
  note turn = sample_turn [OF this, of out]
  have "on_call_error ?sv 0 sample_user_account ?e tried_turn called = (Again, tried_turn\<lparr>tn_retries := 1\<rparr>, called)"
    using assms
    by (simp add: on_call_error_def queue_admits_def on_status_def as_http_error_def upstream_error_def
        sample_services_def default_config_def tried_turn_def first_turn_def called_def cache_transport_def
        on_pool_def tried_def sample_server_def new_server_def)
  with turn have "chat_loop ?sv out sample_request 1 first_turn sample_server =
      chat_loop ?sv out sample_request 1 (tried_turn\<lparr>tn_retries := 1\<rparr>) called"
    by (simp add: chat_loop.simps [of ?sv out sample_request 1 first_turn]) (simp add: first_turn_def)
  also have "\<dots> = (exhausted (tried_turn\<lparr>tn_retries := 1\<rparr>), called)"
    by (simp add: chat_loop.simps tried_turn_def first_turn_def)
  finally show ?thesis by (simp add: exhausted_def tried_turn_def first_turn_def called_def)
qed

lemma server_error_not_retried_witness:
  "fst (chat_loop (sample_services (upstream_error 502 ''bad gateway'')) steady_client sample_request 1 first_turn sample_server) =
    answer_error 503 ''accounts_exhausted'' ''all available Qoder accounts failed before streaming began''"
proof -
  have "queue_wait_seconds (call_error_text (upstream_error 502 ''bad gateway'')) \<le> 0" by code_simp
  from server_error_not_retried [OF _ this, of steady_client] show ?thesis by auto
qed

end
