(* ===== verification/ChatInvariant.thy ===== *)
theory ChatInvariant
  imports ChatLoop
begin

text \<open>
  What a chat request keeps of the server's state.  The locale states the contract once: a
  predicate on the server that the few operations of the pool, the catalog and the transport
  cache keep is kept by \<open>pickTransport\<close>, by the call of the upstream and by the whole loop.
  It is interpreted for the identities of the accounts, for the transport cache, and for the
  accounts that are suspended.
\<close>

section \<open>The entries stay\<close>

abbreviation server_entries :: "'w Server \<Rightarrow> Entry list" where
  "server_entries s \<equiv> pl_entries (sr_pool s)"

lemma entries_kept [simp]:
  "server_entries (s\<lparr>sr_world := w\<rparr>) = server_entries s"
  "server_entries (s\<lparr>sr_catalog := c\<rparr>) = server_entries s"
  "length (server_entries (on_pool (on_entry i f) s)) = length (server_entries s)"
  "length (server_entries (cache_transport i key k s)) = length (server_entries s)"
  by (simp_all add: on_pool_def cache_transport_def)

lemma server_select_length:
  "server_select sv session excluded s = (r, s') \<Longrightarrow> length (server_entries s') = length (server_entries s)"
  by (auto simp: server_select_def split: prod.splits dest!: arg_cong [where f = "\<lambda>x. length (pl_entries (snd x))"])

lemma server_select_index:
  assumes "server_select sv session excluded s = (Inr i, s')"
  shows "i < length (server_entries s')"
proof -
  obtain p where sel: "select (server_now sv s) session excluded (sr_pool s) = (Inr i, p)"
    and s': "s' = s\<lparr>sr_pool := p\<rparr>"
    using assms by (auto simp: server_select_def split: prod.splits)
  from candidates_healthy(1) [OF select_candidate [OF sel]] server_select_length [OF assms]
  show ?thesis by simp
qed

lemma server_fresh_length:
  "server_fresh sv i force s = (r, s') \<Longrightarrow> length (server_entries s') = length (server_entries s)"
  by (auto simp: server_fresh_def split: prod.splits
      dest!: arg_cong [where f = "\<lambda>x. length (pl_entries (fst (snd x)))"])

section \<open>The contract\<close>

text \<open>The only caching of Bearer that an automatic choice makes: for the router's tiers.\<close>

definition may_cache :: "('e, 'w) services \<Rightarrow> string \<Rightarrow> transport_kind \<Rightarrow> bool" where
  "may_cache sv cls k \<longleftrightarrow> k = Cosy \<or> cf_transport (sc_config sv) = ''bearer'' \<or> cls = ''tier''"

text \<open>\<open>ok\<close> holds of the accounts that the pool hands out, \<open>errors\<close> of what the upstream answers.\<close>

locale server_invariant =
  fixes sv :: "('e, 'w) services"
    and Inv :: "'w Server \<Rightarrow> bool"
    and ok :: "Account \<Rightarrow> bool"
    and errors :: "call_error \<Rightarrow> bool"
  assumes inv_select: "Inv s \<Longrightarrow> server_select sv session excluded s = (r, s') \<Longrightarrow> Inv s'"
    and inv_fresh: "Inv s \<Longrightarrow> i < length (server_entries s) \<Longrightarrow>
      server_fresh sv i force s = ((a, err), s') \<Longrightarrow> Inv s' \<and> ok a"
    and inv_world: "Inv s \<Longrightarrow> Inv (s\<lparr>sr_world := w\<rparr>)"
    and inv_catalog: "Inv s \<Longrightarrow> Inv (s\<lparr>sr_catalog := c\<rparr>)"
    and inv_cache: "Inv s \<Longrightarrow> ok a \<Longrightarrow> may_cache sv cls k \<Longrightarrow> Inv (cache_transport i (cache_key a cls) k s)"
    and inv_auth_error: "Inv s \<Longrightarrow> Inv (on_pool (mark_auth_error i) s)"
    and inv_disabled: "Inv s \<Longrightarrow> errors (HttpFailed he) \<Longrightarrow> he_status he = 403 \<Longrightarrow> \<not> is_quota_error (he_message he) \<Longrightarrow>
      Inv (on_pool (mark_disabled now i reason) s)"
    and inv_cooldown: "Inv s \<Longrightarrow> errors (HttpFailed he) \<Longrightarrow> he_status he = 429 \<Longrightarrow>
      Inv (on_pool (mark_cooldown now i d) s)"
    and chat_errors: "ct_chat (transport_of sv k) a req model w = (Inl e, w') \<Longrightarrow> errors e"
begin

lemma probe_inv:
  assumes "probe_and_cache sv i a (cache_key a cls) k s = (r, s')" and "Inv s" and "ok a" and "may_cache sv cls k"
  shows "Inv s'"
  using assms inv_world [of s] inv_cache [OF inv_world, of s a cls k]
  by (auto simp: probe_and_cache_def server_probe_def Let_def split: prod.splits option.splits)

lemma pick_inv:
  assumes "pick_transport sv i a model_key s = (r, s')" and "Inv s" and "ok a"
  shows "Inv s'"
proof -
  let ?cls = "model_class model_key"
  note cosy = probe_inv [where cls = ?cls and k = Cosy and i = i, OF _ _ assms(3)]
  note bearer = probe_inv [where cls = ?cls and k = Bearer and i = i, OF _ _ assms(3)]
  show ?thesis using assms(1,2) cosy bearer
    by (auto simp: pick_transport_def Let_def may_cache_def split: if_splits prod.splits sum.splits option.splits)
qed

lemma server_chat_inv: "server_chat sv k a req model s = (r, s') \<Longrightarrow> Inv s \<Longrightarrow> Inv s'"
  using inv_world [of s] by (auto simp: server_chat_def split: prod.splits)

lemma server_chat_error: "server_chat sv k a req model s = (Inl e, s') \<Longrightarrow> errors e"
  using chat_errors [of k a req model "sr_world s"] by (auto simp: server_chat_def split: prod.splits)

lemma server_chat_length:
  "server_chat sv k a req model s = (r, s') \<Longrightarrow> length (server_entries s') = length (server_entries s)"
  by (auto simp: server_chat_def split: prod.splits)

lemma pick_length:
  "pick_transport sv i a model_key s = (r, s') \<Longrightarrow> length (server_entries s') = length (server_entries s)"
  by (auto simp: pick_transport_def Let_def probe_and_cache_def server_probe_def
      split: if_splits prod.splits sum.splits option.splits)

lemma retry_inv:
  assumes "retry_unauthorized sv i a req model k r s = (r', a', s')" and "Inv s" and "ok a"
    and "i < length (server_entries s)" and "\<And>e. r = Inl e \<Longrightarrow> errors e"
  shows "Inv s' \<and> ok a' \<and> (\<forall>e. r' = Inl e \<longrightarrow> errors e)"
proof (cases "error_status r = Some 401")
  case True
  obtain b err s1 where f: "server_fresh sv i True s = ((b, err), s1)" by (metis surj_pair)
  have s1: "Inv s1" "ok b" using inv_fresh [OF assms(2,4) f] by simp_all
  obtain r2 s2 where c: "server_chat sv k b req model s1 = (r2, s2)" by fastforce
  have "Inv s2" "\<And>e. r2 = Inl e \<Longrightarrow> errors e" using server_chat_inv [OF c s1(1)] server_chat_error c by auto
  with True assms f c s1 inv_auth_error show ?thesis
    by (auto simp: retry_unauthorized_def Let_def split: if_splits)
next
  case False
  with assms show ?thesis by (simp add: retry_unauthorized_def)
qed

lemma fall_back_inv:
  assumes "fall_back sv i a req model k r s = (r', s')" and "Inv s" and "ok a" and "\<And>e. r = Inl e \<Longrightarrow> errors e"
  shows "Inv s' \<and> (\<forall>e. r' = Inl e \<longrightarrow> errors e)"
proof -
  have "Inv (cache_transport i (cache_key a (fallback_class (md_upstream_key model))) Cosy s)"
    using inv_cache [OF assms(2,3)] by (simp add: may_cache_def)
  from server_chat_inv [OF _ this] assms server_chat_error show ?thesis
    by (auto simp: fall_back_def split: if_splits)
qed

lemma call_inv:
  assumes "call_upstream sv i a req model k s = (r, a', s')" and "Inv s" and "ok a" and "i < length (server_entries s)"
  shows "Inv s' \<and> ok a' \<and> (\<forall>e. r = Inl e \<longrightarrow> errors e)"
proof -
  obtain r1 s1 where c: "server_chat sv k a req model s = (r1, s1)" by fastforce
  obtain r2 a2 s2 where u: "retry_unauthorized sv i a req model k r1 s1 = (r2, a2, s2)" using prod_cases3 by blast
  obtain r3 s3 where b: "fall_back sv i a2 req model k r2 s2 = (r3, s3)" by fastforce
  have "i < length (server_entries s1)" using server_chat_length [OF c] assms(4) by simp
  moreover have "\<And>e. r1 = Inl e \<Longrightarrow> errors e" using server_chat_error c by auto
  ultimately have s2: "Inv s2" "ok a2" "\<And>e. r2 = Inl e \<Longrightarrow> errors e"
    using retry_inv [OF u server_chat_inv [OF c assms(2)] assms(3)] by auto
  from fall_back_inv [OF b s2] assms(1) s2(2) show ?thesis by (auto simp: call_upstream_def c u b)
qed

lemma on_status_inv:
  assumes "on_status sv i he tn s = (v, tn', s')" and "Inv s" and "errors (HttpFailed he)"
  shows "Inv s'"
  using assms inv_auth_error [OF assms(2)] inv_disabled [OF assms(2,3)] inv_cooldown [OF assms(2,3)]
    inv_world [OF assms(2)]
  by (auto simp: on_status_def Let_def split: if_splits prod.splits)

lemma on_call_error_inv:
  assumes "on_call_error sv i a e tn s = (v, tn', s')" and "Inv s" and "errors e"
  shows "Inv s'"
  using assms on_status_inv [of i _ tn s v tn' s'] inv_world [OF assms(2)]
  by (auto simp: on_call_error_def queue_wait_def Let_def as_http_error_def
      split: if_splits option.splits prod.splits call_error.splits)

lemma serve_account_inv:
  assumes "serve_account sv out req i a tn s = (v, tn', s')" and "Inv s" and "ok a"
    and "i < length (server_entries s)"
  shows "Inv s'"
proof -
  obtain snap err s1 where cat: "server_catalog sv a s = ((snap, err), s1)" by (metis surj_pair)
  have s1: "Inv s1" "length (server_entries s1) = length (server_entries s)"
    using cat inv_world [OF inv_catalog [OF assms(2)]]
    by (auto simp: server_catalog_def split: prod.splits)
  show ?thesis
  proof (cases "err \<noteq> None \<and> cs_models snap = []")
    case True
    with assms(1) cat s1 show ?thesis by (simp add: serve_account_def)
  next
    case False
    note simp = serve_account_def cat False
    show ?thesis
    proof (cases "find_model (cs_models snap) (cr_model req)")
      case None
      with assms(1) s1 False cat show ?thesis by (auto simp: serve_account_def)
    next
      case (Some model)
      show ?thesis
      proof (cases "validate_capabilities req model")
        case (Some e)
        with assms(1) s1 False cat \<open>find_model _ _ = Some model\<close> show ?thesis by (auto simp: serve_account_def)
      next
        case None
        obtain p s2 where pick: "pick_transport sv i a (md_upstream_key model) s1 = (p, s2)" by fastforce
        have s2: "Inv s2" "i < length (server_entries s2)"
          using pick_inv [OF pick s1(1) assms(3)] pick_length [OF pick] s1(2) assms(4) by simp_all
        show ?thesis
        proof (cases p)
          case (Inl e)
          with assms(1) s2 False cat \<open>find_model _ _ = Some model\<close> None pick show ?thesis
            by (auto simp: serve_account_def)
        next
          case (Inr k)
          obtain r a2 s3 where call: "call_upstream sv i a req model k s2 = (r, a2, s3)" using prod_cases3 by blast
          from call_inv [OF call s2(1) assms(3) s2(2)] have s3: "Inv s3" "\<And>e. r = Inl e \<Longrightarrow> errors e" by auto
          show ?thesis
          proof (cases r)
            case (Inl e)
            with assms(1) False cat \<open>find_model _ _ = Some model\<close> None pick \<open>p = Inr k\<close> call
            have "on_call_error sv i a2 e tn s3 = (v, tn', s')" by (auto simp: serve_account_def)
            from on_call_error_inv [OF this s3(1) s3(2) [OF Inl]] show ?thesis .
          next
            case (Inr up)
            with assms(1) False cat \<open>find_model _ _ = Some model\<close> None pick \<open>p = Inr k\<close> call inv_world [OF s3(1)]
            show ?thesis by (auto simp: serve_account_def Let_def split: prod.splits)
          qed
        qed
      qed
    qed
  qed
qed

lemma chat_turn_inv:
  assumes "chat_turn sv out req tn s = (v, tn', s')" and "Inv s"
  shows "Inv s'"
proof -
  obtain r s1 where sel: "server_select sv (cr_session_key req) (tn_excluded tn) s = (r, s1)" by fastforce
  from inv_select [OF assms(2) sel] have s1: "Inv s1" .
  show ?thesis
  proof (cases r)
    case (Inl e)
    with assms(1) sel s1 show ?thesis by (auto simp: chat_turn_def split: select_error.splits)
  next
    case (Inr i)
    obtain a err s2 where f: "server_fresh sv i False s1 = ((a, err), s2)" by (metis surj_pair)
    have i: "i < length (server_entries s1)" using server_select_index sel Inr by simp
    from inv_fresh [OF s1 i f] have s2: "Inv s2" "ok a" by simp_all
    let ?tn = "tn\<lparr>tn_excluded := insert (acc_id a) (tn_excluded tn), tn_attempts := tn_attempts tn + 1\<rparr>"
    show ?thesis
    proof (cases "err = None")
      case True
      with assms(1) sel Inr f have "serve_account sv out req i a ?tn s2 = (v, tn', s')" by (simp add: chat_turn_def)
      from serve_account_inv [OF this s2] i server_fresh_length [OF f] show ?thesis by simp
    next
      case False
      with assms(1) sel Inr f inv_auth_error [OF s2(1)] show ?thesis by (auto simp: chat_turn_def)
    qed
  qed
qed

lemma chat_loop_inv: "Inv s \<Longrightarrow> Inv (snd (chat_loop sv out req max_accounts tn s))"
proof (induction tn s rule: chat_loop_steps [where max_accounts = max_accounts and sv = sv and out = out and req = req])
  case (step tn s)
  obtain v tn' s' where t: "chat_turn sv out req tn s = (v, tn', s')" using prod_cases3 by blast
  from chat_turn_inv [OF t step.prems] step.IH [of tn' s'] step.prems t show ?case
    by (cases v) (auto simp: chat_loop.simps [of sv out req max_accounts tn])
qed

end

section \<open>The identities of the accounts\<close>

text \<open>The server's refresher in production: the authentication client with the world's clock.\<close>

definition auth_refresher :: "'w http \<Rightarrow> ('w \<Rightarrow> int) \<Rightarrow> (auth_error, 'w) refresher" where
  "auth_refresher http clock a w = auth_refresh http (clock w) a w"

definition authenticated :: "(auth_error, 'w) services \<Rightarrow> (auth_error, 'w) services" where
  "authenticated sv = sv\<lparr>sc_refresher := Some (auth_refresher (sc_http sv) (sc_clock sv))\<rparr>"

lemma authenticated_simps [simp]:
  "sc_config (authenticated sv) = sc_config sv"
  "sc_refresher (authenticated sv) = Some (auth_refresher (sc_http sv) (sc_clock sv))"
  "transport_of (authenticated sv) k = transport_of sv k"
  by (cases k; simp add: authenticated_def)+

context refresher
begin

lemma fresh_id:
  "ensure_fresh (Some refresh) store env now i force p fs w = ((b, err), p', fs', w') \<Longrightarrow>
   acc_id b = acc_id (en_account (pl_entries p ! i))"
  using same_identity
  by (auto simp: ensure_fresh_def Let_def split: if_splits option.splits prod.splits sum.splits)

end

interpretation auth_refreshing: refresher "auth_refresher http clock" for http clock
  by unfold_locales (simp_all add: auth_refresher_def refresh_fields)

abbreviation server_ids :: "'w Server \<Rightarrow> string list" where
  "server_ids s \<equiv> map acc_id (pool_accounts (sr_pool s))"

lemma ids_on_pool [simp]:
  "server_ids (on_pool (mark_auth_error i) s) = server_ids s"
  "server_ids (on_pool (mark_disabled now i reason) s) = server_ids s"
  "server_ids (on_pool (mark_cooldown now i d) s) = server_ids s"
  "server_ids (cache_transport i key k s) = server_ids s"
  by (simp_all add: on_pool_def cache_transport_def)

lemma ids_select: "server_select sv session excluded s = (r, s') \<Longrightarrow> server_ids s' = server_ids s"
  by (auto simp: server_select_def split: prod.splits dest!: arg_cong [where f = "\<lambda>x. pool_accounts (snd x)"])

lemma ids_fresh:
  assumes "server_fresh (authenticated sv) i force s = ((a, err), s')" and "i < length (server_entries s)"
  shows "server_ids s' = server_ids s \<and> acc_id a \<in> set (server_ids s)"
proof -
  obtain p fs w where e: "ensure_fresh (Some (auth_refresher (sc_http sv) (sc_clock sv))) (sc_store (authenticated sv))
      (sc_io (authenticated sv)) (server_now (authenticated sv) s) i force (sr_pool s) (sr_files s) (sr_world s) =
      ((a, err), p, fs, w)" and s': "s' = s\<lparr>sr_pool := p, sr_files := fs, sr_world := w\<rparr>"
    using assms(1) by (auto simp: server_fresh_def split: prod.splits)
  have "acc_id a = acc_id (en_account (server_entries s ! i))" by (rule auth_refreshing.fresh_id [OF e])
  moreover have "en_account (server_entries s ! i) \<in> set (pool_accounts (sr_pool s))"
    using assms(2) by (simp add: pool_accounts_def)
  ultimately show ?thesis using auth_refreshing.ids_kept [OF e assms(2)] by (simp add: s')
qed

interpretation chat_ids: server_invariant "authenticated sv" "\<lambda>s. server_ids s = ids" "\<lambda>a. acc_id a \<in> set ids" "\<lambda>_. True"
  for sv ids
  by unfold_locales (auto dest: ids_select ids_fresh simp: ids_select)

text \<open>
  A chat request keeps the accounts.  Whatever the upstream, the token endpoint and the disk
  do during the request, the pool has the same accounts afterwards, in the same order.
\<close>

lemma chat_keeps_accounts:
  "map acc_id (pool_accounts (sr_pool (snd (chat_loop (authenticated sv) out req max_accounts tn s)))) =
   map acc_id (pool_accounts (sr_pool s))"
  by (rule chat_ids.chat_loop_inv) simp

section \<open>The transport cache\<close>

text \<open>No concrete model is cached for the Bearer transport.  The key of the cache is
  unambiguous as long as no identifier of an account has a bar in it.\<close>

definition bar_free :: "string \<Rightarrow> bool" where
  "bar_free ident \<longleftrightarrow> CHR ''|'' \<notin> set ident"

definition cache_ok :: "(string \<Rightarrow> string option) \<Rightarrow> bool" where
  "cache_ok c \<longleftrightarrow> (\<forall>ident key. bar_free ident \<longrightarrow> c (ident @ ''|'' @ ''concrete:'' @ key) \<noteq> Some ''bearer'')"

lemma split_bar: "bar_free a \<Longrightarrow> bar_free b \<Longrightarrow> a @ ''|'' @ x = b @ ''|'' @ y \<Longrightarrow> a = b \<and> x = y"
  by (auto simp: bar_free_def append_eq_append_conv2 append_eq_Cons_conv Cons_eq_append_conv)

lemma cache_ok_update:
  assumes "cache_ok c" and "bar_free (acc_id a)" and "may_cache sv cls k" and "cf_transport (sc_config sv) \<noteq> ''bearer''"
  shows "cache_ok (c(cache_key a cls \<mapsto> kind_name k))"
proof -
  have "ident @ ''|'' @ ''concrete:'' @ key \<noteq> cache_key a cls" if "bar_free ident" "kind_name k = ''bearer''" for ident key
    using assms that split_bar [of ident "acc_id a" "''concrete:'' @ key" cls]
    by (cases k) (auto simp: may_cache_def cache_key_def)
  with assms(1) show ?thesis by (auto simp: cache_ok_def)
qed

definition cache_inv :: "('e, 'w) services \<Rightarrow> 'w Server \<Rightarrow> bool" where
  "cache_inv sv s \<longleftrightarrow> list_all bar_free (server_ids s) \<and>
    (cf_transport (sc_config sv) \<noteq> ''bearer'' \<longrightarrow> cache_ok (sr_cache s))"

lemma cache_kept [simp]:
  "sr_cache (on_pool f s) = sr_cache s"
  by (simp add: on_pool_def)

lemma cache_select: "server_select sv session excluded s = (r, s') \<Longrightarrow> sr_cache s' = sr_cache s"
  by (auto simp: server_select_def split: prod.splits)

lemma cache_fresh: "server_fresh sv i force s = (r, s') \<Longrightarrow> sr_cache s' = sr_cache s"
  by (auto simp: server_fresh_def split: prod.splits)

lemma cache_inv_transport:
  assumes "cache_inv sv s" and "bar_free (acc_id a)" and "may_cache sv cls k"
  shows "cache_inv sv (cache_transport i (cache_key a cls) k s)"
  using assms cache_ok_update [of "sr_cache s" a sv cls k]
  by (simp add: cache_inv_def cache_transport_def on_pool_def)

interpretation chat_cache: server_invariant "authenticated sv" "cache_inv sv" "\<lambda>a. bar_free (acc_id a)" "\<lambda>_. True" for sv
proof unfold_locales
  show "cache_inv sv s' \<and> bar_free (acc_id a)"
    if "cache_inv sv s" "i < length (server_entries s)" "server_fresh (authenticated sv) i force s = ((a, err), s')"
    for s i force a err s'
    using ids_fresh [OF that(3,2)] cache_fresh [OF that(3)] that(1) by (auto simp: cache_inv_def list_all_iff)
  show "cache_inv sv (cache_transport i (cache_key a cls) k s)"
    if "cache_inv sv s" "bar_free (acc_id a)" "may_cache (authenticated sv) cls k" for s a cls k i
    using cache_inv_transport that by (simp add: may_cache_def)
qed (auto simp: cache_inv_def dest: ids_select cache_select)

lemma pick_concrete:
  assumes "cache_inv sv s" and "cf_transport (sc_config sv) = ''auto''" and "bar_free (acc_id a)"
    and "model_key \<noteq> []" and "\<not> is_router_tier model_key"
  shows "fst (pick_transport sv i a model_key s) \<noteq> Inr Bearer"
proof -
  have "sr_cache s (acc_id a @ ''|'' @ ''concrete:'' @ model_key) \<noteq> Some ''bearer''"
    using assms(1-3) by (auto simp: cache_inv_def cache_ok_def)
  then show ?thesis using assms(2,4,5)
    by (auto simp: pick_transport_def Let_def cache_key_def model_class_def probe_and_cache_def
        split: prod.splits option.splits)
qed

section \<open>Suspensions\<close>

definition suspended :: "Entry \<Rightarrow> bool" where
  "suspended e \<longleftrightarrow> en_state e = Cooldown \<or> en_state e = Disabled"

definition no_new_suspension :: "Entry list \<Rightarrow> Entry list \<Rightarrow> bool" where
  "no_new_suspension es es' \<longleftrightarrow> list_all2 (\<lambda>e e'. suspended e' \<longrightarrow> suspended e) es es'"

text \<open>The errors that say nothing against an account: quota rejections, and whatever is neither a
  403 nor a 429.\<close>

definition harmless :: "call_error \<Rightarrow> bool" where
  "harmless e = (case as_http_error e of
      None \<Rightarrow> True
    | Some he \<Rightarrow> he_status he \<noteq> 429 \<and> (he_status he = 403 \<longrightarrow> is_quota_error (he_message he)))"

text \<open>An upstream with those errors only.\<close>

definition harmless_transport :: "'w ChatTransport \<Rightarrow> 'w ChatTransport" where
  "harmless_transport t = t\<lparr>ct_chat := (\<lambda>a req model w. case ct_chat t a req model w of
     (Inl e, w') \<Rightarrow> (Inl (if harmless e then e else NetFailed []), w')
   | (Inr up, w') \<Rightarrow> (Inr up, w'))\<rparr>"

definition harmless_services :: "('e, 'w) services \<Rightarrow> ('e, 'w) services" where
  "harmless_services sv = sv\<lparr>sc_bearer := harmless_transport (sc_bearer sv), sc_cosy := harmless_transport (sc_cosy sv)\<rparr>"

lemma harmless_services_errors:
  "ct_chat (transport_of (harmless_services sv) k) a req model w = (Inl e, w') \<Longrightarrow> harmless e"
  by (cases k) (auto simp: harmless_services_def harmless_transport_def harmless_def as_http_error_def
      split: prod.splits sum.splits if_splits)

lemma harmless_services_id:
  assumes "\<And>k a req model w e w'. ct_chat (transport_of sv k) a req model w = (Inl e, w') \<Longrightarrow> harmless e"
  shows "harmless_services sv = sv"
proof -
  have "harmless_transport (transport_of sv k) = transport_of sv k" for k
  proof -
    have "(case ct_chat (transport_of sv k) a req model w of
        (Inl e, w') \<Rightarrow> (Inl (if harmless e then e else NetFailed []), w') | (Inr up, w') \<Rightarrow> (Inr up, w')) =
        ct_chat (transport_of sv k) a req model w" for a req model w
      using assms [of k a req model w] by (auto split: prod.splits sum.splits)
    then show ?thesis by (simp add: harmless_transport_def)
  qed
  from this [of Bearer] this [of Cosy] show ?thesis by (simp add: harmless_services_def)
qed

lemma suspension_update:
  "no_new_suspension es es' \<Longrightarrow> (\<And>e. suspended (f e) \<longrightarrow> suspended e) \<Longrightarrow>
   no_new_suspension es (if i < length es' then es'[i := f (es' ! i)] else es')"
  by (auto simp: no_new_suspension_def list_all2_conv_all_nth nth_list_update)

lemma suspension_on_entry:
  "no_new_suspension es (pl_entries p) \<Longrightarrow> (\<And>e. suspended (f e) \<longrightarrow> suspended e) \<Longrightarrow>
   no_new_suspension es (pl_entries (on_entry i f p))"
  using suspension_update [of es "pl_entries p" f i] by (simp add: on_entry_def split: if_splits)

lemma suspended_simps [simp]:
  "suspended (snapshot now e) \<longrightarrow> suspended e"
  "suspended (set_transport name e) = suspended e"
  "suspended (e\<lparr>en_last_error := x\<rparr>) = suspended e"
  "\<not> suspended (e\<lparr>en_account := b, en_state := Healthy\<rparr>)"
  "\<not> suspended (e\<lparr>en_state := AuthError\<rparr>)"
  by (auto simp: suspended_def snapshot_def set_transport_def)

lemma suspension_select:
  assumes "server_select sv session excluded s = (r, s')" and "no_new_suspension es (server_entries s)"
  shows "no_new_suspension es (server_entries s')"
proof -
  have "server_entries s' = map (snapshot (server_now sv s)) (server_entries s)"
    using assms(1) entries_select [of "server_now sv s" session excluded "sr_pool s"]
    by (auto simp: server_select_def snapshot_all_def split: prod.splits)
  then show ?thesis using assms(2) by (auto simp: no_new_suspension_def list_all2_conv_all_nth dest: mp [OF suspended_simps(1)])
qed

lemma suspension_fresh:
  assumes "server_fresh sv i force s = (r, s')" and "no_new_suspension es (server_entries s)"
  shows "no_new_suspension es (server_entries s')"
  using assms
  by (auto simp: server_fresh_def ensure_fresh_def Let_def intro!: suspension_on_entry
      split: prod.splits if_splits option.splits sum.splits)

interpretation chat_suspension: server_invariant "harmless_services sv" "\<lambda>s. no_new_suspension es (server_entries s)"
  "\<lambda>_. True" harmless for sv es
proof unfold_locales
  show "no_new_suspension es (server_entries (cache_transport i (cache_key a cls) k s))"
    if "no_new_suspension es (server_entries s)" for s a cls k i
    using that by (auto simp: cache_transport_def on_pool_def intro!: suspension_on_entry)
  show "no_new_suspension es (server_entries (on_pool (mark_auth_error i) s))"
    if "no_new_suspension es (server_entries s)" for s i
    using that by (auto simp: on_pool_def mark_auth_error_def intro!: suspension_on_entry)
  show "harmless e" if "ct_chat (transport_of (harmless_services sv) k) a req model w = (Inl e, w')" for k a req model w e w'
    by (rule harmless_services_errors [OF that])
qed (auto simp: harmless_def as_http_error_def dest: suspension_select suspension_fresh)

text \<open>
  C10: a quota rejection is not held against an account.  As long as the upstream refuses with
  quota rejections, or fails with anything but a 403 or a 429, a chat request suspends no
  account: every account that is in cooldown or disabled afterwards was so before.
\<close>

theorem quota_never_suspends:
  assumes "\<And>k a req model w e w'. ct_chat (transport_of sv k) a req model w = (Inl e, w') \<Longrightarrow> harmless e"
  shows "no_new_suspension (pl_entries (sr_pool s))
    (pl_entries (sr_pool (snd (chat_loop sv out req max_accounts tn s))))"
proof -
  have "no_new_suspension (server_entries s) (server_entries s)"
    by (simp add: no_new_suspension_def list_all2_conv_all_nth)
  note loop = chat_suspension.chat_loop_inv [OF this, of sv out req max_accounts tn]
  have "harmless_services sv = sv" by (rule harmless_services_id) (rule assms)
  with loop show ?thesis by simp
qed

theorem quota_never_suspends_witness:
  "no_new_suspension (pl_entries (sr_pool sample_server))
    (pl_entries (sr_pool (snd (chat_loop (sample_services quota_error) steady_client sample_request 1 first_turn sample_server))))"
proof (rule quota_never_suspends)
  have "harmless quota_error"
    using sample_errors(2) by (simp add: harmless_def quota_error_def upstream_error_def as_http_error_def)
  then show "harmless e" if "ct_chat (transport_of (sample_services quota_error) k) a req model w = (Inl e, w')" for k a req model w e w'
    using that by (cases k) (auto simp: sample_services_def failing_transport_def)
qed

section \<open>The accounts that are tried\<close>

lemma on_call_error_excluded:
  assumes "on_call_error sv i a e tn s = (Again, tn', s')"
  shows "tn_rounds tn < cf_queue_max_rounds (sc_config sv) \<and> tn_rounds tn' = tn_rounds tn + 1
    \<or> tn_rounds tn' = tn_rounds tn \<and> tn_excluded tn' = tn_excluded tn"
proof (cases "queue_admits (sc_config sv) tn (queue_wait_seconds (call_error_text e))")
  case True
  with assms have "queue_wait sv a (queue_wait_seconds (call_error_text e)) tn s = (Again, tn', s')"
    by (simp add: on_call_error_def)
  from queue_wait_again [OF this] True show ?thesis by (simp add: queue_admits_def)
next
  case False
  with assms show ?thesis
    by (auto simp: on_call_error_def on_status_def Let_def answer_error_def split: option.splits if_splits prod.splits)
qed

lemma serve_account_excluded:
  assumes "serve_account sv out req i a tn s = (Again, tn', s')"
  shows "tn_rounds tn < cf_queue_max_rounds (sc_config sv) \<and> tn_rounds tn' = tn_rounds tn + 1
    \<or> tn_rounds tn' = tn_rounds tn \<and> tn_excluded tn' = tn_excluded tn"
  using assms on_call_error_excluded [of sv i]
  by (simp add: serve_account_def Let_def answer_error_def split: prod.splits if_splits option.splits sum.splits)

text \<open>The identity of the account that a turn tries.\<close>

definition turn_account :: "('e, 'w) services \<Rightarrow> ChatRequest \<Rightarrow> Turn \<Rightarrow> 'w Server \<Rightarrow> string option" where
  "turn_account sv req tn s = (case server_select sv (cr_session_key req) (tn_excluded tn) s of
      (Inr i, s') \<Rightarrow> Some (acc_id (en_account (server_entries s' ! i)))
    | (Inl _, _) \<Rightarrow> None)"

text \<open>The accounts that a request tries, in order.\<close>

function chat_tries :: "('e, 'w) services \<Rightarrow> client_out \<Rightarrow> ChatRequest \<Rightarrow> int \<Rightarrow> Turn \<Rightarrow> 'w Server \<Rightarrow> string list" where
  "chat_tries sv out req mx tn s =
    (if tn_attempts tn < mx then
       (case turn_account sv req tn s of None \<Rightarrow> [] | Some x \<Rightarrow> [x]) @
       (case chat_turn sv out req tn s of
          (Again, tn', s') \<Rightarrow> chat_tries sv out req mx tn' s'
        | _ \<Rightarrow> [])
     else [])"
  by pat_completeness auto
termination
  by (relation "measure (\<lambda>(sv, out, req, mx, tn, s). turns_left (sc_config sv) mx tn)")
    (auto intro: turns_left_decreases [OF sym])

declare chat_tries.simps [simp del]

lemma turn_account_not_excluded:
  assumes "turn_account sv req tn s = Some x"
  shows "x \<notin> tn_excluded tn"
proof -
  obtain i s1 where sel: "server_select sv (cr_session_key req) (tn_excluded tn) s = (Inr i, s1)"
    and x: "x = acc_id (en_account (server_entries s1 ! i))"
    using assms by (auto simp: turn_account_def split: prod.splits sum.splits)
  obtain p where p: "select (server_now sv s) (cr_session_key req) (tn_excluded tn) (sr_pool s) = (Inr i, p)"
    and s1: "s1 = s\<lparr>sr_pool := p\<rparr>" using sel by (auto simp: server_select_def split: prod.splits)
  have "pl_entries p = pl_entries (snapshot_all (server_now sv s) (sr_pool s))"
    using entries_select [of "server_now sv s" "cr_session_key req" "tn_excluded tn" "sr_pool s"] p by simp
  with select_candidate [OF p] x s1 show ?thesis by (auto simp: candidates_def)
qed

lemma fresh_account_id:
  assumes "server_fresh (authenticated sv) i force s = ((a, err), s')"
  shows "acc_id a = acc_id (en_account (server_entries s ! i))"
  using assms auth_refreshing.fresh_id
  by (fastforce simp: server_fresh_def split: prod.splits)

lemma chat_turn_excluded:
  assumes "chat_turn (authenticated sv) out req tn s = (Again, tn', s')"
  shows "\<exists>x. turn_account (authenticated sv) req tn s = Some x \<and>
    (tn_rounds tn < cf_queue_max_rounds (sc_config sv) \<and> tn_rounds tn' = tn_rounds tn + 1
     \<or> tn_rounds tn' = tn_rounds tn \<and> tn_excluded tn' = insert x (tn_excluded tn))"
proof -
  obtain r s1 where sel: "server_select (authenticated sv) (cr_session_key req) (tn_excluded tn) s = (r, s1)" by fastforce
  with assms obtain i where r: "r = Inr i"
    by (cases r) (auto simp: chat_turn_def quota_answer_def answer_error_def split: select_error.splits option.splits)
  obtain a err s2 where f: "server_fresh (authenticated sv) i False s1 = ((a, err), s2)" by (metis surj_pair)
  have x: "turn_account (authenticated sv) req tn s = Some (acc_id a)"
    using sel r fresh_account_id [OF f] by (simp add: turn_account_def)
  let ?tn = "tn\<lparr>tn_excluded := insert (acc_id a) (tn_excluded tn), tn_attempts := tn_attempts tn + 1\<rparr>"
  show ?thesis
  proof (cases "err = None")
    case True
    with assms sel r f have "serve_account (authenticated sv) out req i a ?tn s2 = (Again, tn', s')"
      by (simp add: chat_turn_def)
    from serve_account_excluded [OF this] x show ?thesis by simp
  next
    case False
    with assms sel r f x show ?thesis by (auto simp: chat_turn_def)
  qed
qed

lemma chat_tries_again:
  assumes "tn_attempts tn < mx" and "chat_turn sv out req tn s = (Again, tn', s')" and "turn_account sv req tn s = Some y"
  shows "chat_tries sv out req mx tn s = y # chat_tries sv out req mx tn' s'"
  by (subst chat_tries.simps) (simp add: assms)

lemma chat_tries_last:
  assumes "tn_attempts tn < mx \<Longrightarrow> fst (chat_turn sv out req tn s) \<noteq> Again"
  shows "chat_tries sv out req mx tn s = [] \<or> (\<exists>y. turn_account sv req tn s = Some y \<and> chat_tries sv out req mx tn s = [y])"
proof (cases "tn_attempts tn < mx")
  case True
  obtain v tn' s' where "chat_turn sv out req tn s = (v, tn', s')" using prod_cases3 by blast
  with assms True show ?thesis
    by (cases "turn_account sv req tn s"; cases v) (simp_all add: chat_tries.simps [of sv out req mx tn s])
qed (simp add: chat_tries.simps)

lemma tries_bounded:
  "count_list (chat_tries (authenticated sv) out req mx tn s) x \<le>
     nat (cf_queue_max_rounds (sc_config sv) - tn_rounds tn) + (if x \<in> tn_excluded tn then 0 else 1)"
proof (induction tn s rule: chat_loop_steps [where max_accounts = mx and sv = "authenticated sv" and out = out and req = req])
  case (step tn s)
  note new = turn_account_not_excluded [of "authenticated sv" req tn s]
  show ?case
  proof (cases "tn_attempts tn < mx \<and> fst (chat_turn (authenticated sv) out req tn s) = Again")
    case True
    then obtain tn' s' where t: "tn_attempts tn < mx" "chat_turn (authenticated sv) out req tn s = (Again, tn', s')"
      by (metis prod.collapse)
    obtain y where y: "turn_account (authenticated sv) req tn s = Some y"
      and rounds: "tn_rounds tn < cf_queue_max_rounds (sc_config sv) \<and> tn_rounds tn' = tn_rounds tn + 1
         \<or> tn_rounds tn' = tn_rounds tn \<and> tn_excluded tn' = insert y (tn_excluded tn)"
      using chat_turn_excluded [OF t(2)] by blast
    have rest: "count_list (chat_tries (authenticated sv) out req mx tn' s') x \<le>
        nat (cf_queue_max_rounds (sc_config sv) - tn_rounds tn') + (if x \<in> tn_excluded tn' then 0 else 1)"
      by (rule step.IH [OF t])
    have "y \<notin> tn_excluded tn" using new y by blast
    from rounds show ?thesis
    proof
      assume r: "tn_rounds tn < cf_queue_max_rounds (sc_config sv) \<and> tn_rounds tn' = tn_rounds tn + 1"
      then have "nat (cf_queue_max_rounds (sc_config sv) - tn_rounds tn) =
          Suc (nat (cf_queue_max_rounds (sc_config sv) - tn_rounds tn'))" by linarith
      with rest \<open>y \<notin> _\<close> show ?thesis by (cases "x = y") (simp_all add: chat_tries_again [OF t y] split: if_splits)
    next
      assume "tn_rounds tn' = tn_rounds tn \<and> tn_excluded tn' = insert y (tn_excluded tn)"
      with rest \<open>y \<notin> _\<close> show ?thesis by (cases "x = y") (simp_all add: chat_tries_again [OF t y] split: if_splits)
    qed
  next
    case False
    with chat_tries_last [of tn mx "authenticated sv" out req s] new show ?thesis by auto
  qed
qed

text \<open>
  C9: a chat request tries an account once.  However the calls fail, and whatever is configured
  for the retries of server errors, no account is selected twice in one request, but for one more
  time for each configured round of the queue: what is retried after a failure is another account.
\<close>

theorem accounts_tried_once:
  "count_list (chat_tries (authenticated sv) out req mx first_turn s) x \<le> 1 + nat (cf_queue_max_rounds (sc_config sv))"
  using tries_bounded [of sv out req mx first_turn s x] by (simp add: first_turn_def)

end
