(* ===== verification/Server.thy ===== *)
theory Server
  imports ChatInvariant
begin

text \<open>
  The handlers of \<open>internal/server/server.go\<close>: priming, health and readiness, the models, the
  administration, the access control and the routing.  A request of a client is its method,
  path, headers (with canonical names), body and connection.  The queries of \<open>adminQuota\<close> run
  one after the other here, in the order of the pool.
\<close>

section \<open>Requests\<close>

record ClientRequest =
  cq_method :: string
  cq_path :: string
  cq_headers :: "(string \<times> string) list"
  cq_body :: string
  cq_body_error :: bool
  cq_out :: client_out

datatype outcome = Served Reply | Crashed

text \<open>\<open>textproto.CanonicalMIMEHeaderKey\<close>.\<close>

definition upper_ascii :: "char \<Rightarrow> char" where
  "upper_ascii c = (if in_range 0x61 0x7A c then char_of (of_char c - 0x20 :: nat) else c)"

definition lower_ascii :: "char \<Rightarrow> char" where
  "lower_ascii c = (if in_range 0x41 0x5A c then char_of (of_char c + 0x20 :: nat) else c)"

fun canonical_from :: "bool \<Rightarrow> string \<Rightarrow> string" where
  "canonical_from first [] = []"
| "canonical_from first (c # s) =
    (if first then upper_ascii c else lower_ascii c) # canonical_from (c = CHR ''-'') s"

definition header_char :: "char \<Rightarrow> bool" where
  "header_char c \<longleftrightarrow> is_digit c \<or> in_range 0x61 0x7A c \<or> in_range 0x41 0x5A c \<or>
     c \<in> set (CHR 0x27 # CHR 0x60 # ''!#$%&*+-.^_|~'')"

definition canonical_header :: "string \<Rightarrow> string" where
  "canonical_header k = (if list_all header_char k then canonical_from True k else k)"

definition header_get :: "ClientRequest \<Rightarrow> string \<Rightarrow> string" where
  "header_get rq k = get_header (cq_headers rq) (canonical_header k)"

section \<open>Readiness\<close>

definition set_ready :: "bool \<Rightarrow> bool \<Rightarrow> string option \<Rightarrow> 'w Server \<Rightarrow> 'w Server" where
  "set_ready ready degraded err s = s\<lparr>sr_ready := ready, sr_degraded := degraded,
     sr_ready_error := (case err of None \<Rightarrow> [] | Some e \<Rightarrow> sanitize_snippet e 256)\<rparr>"

text \<open>\<open>Prime\<close> panics where \<open>Select\<close> does.\<close>

definition prime :: "('e, 'w) services \<Rightarrow> 'w Server \<Rightarrow> bool \<times> 'w Server" where
  "prime sv s =
    (case server_select sv [] {} s of
       (Inl IndexPanic, s) \<Rightarrow> (False, s)
     | (Inl e, s) \<Rightarrow> (True, set_ready False False (Some (select_error_text e)) s)
     | (Inr i, s) \<Rightarrow>
       (let ((account, err), s) = server_fresh sv i False s in
        case err of
          Some e \<Rightarrow> (True, set_ready False False (Some (sc_fresh_text sv e)) s)
        | None \<Rightarrow>
          (let ((snap, fetch_err), s) = server_catalog sv account s;
               fetch_text = map_option (sc_catalog_text sv) fetch_err in
           if cs_models snap = [] then (True, set_ready False False fetch_text s)
           else (case pick_transport sv i account [] s of
               (Inl e, s) \<Rightarrow> (True, set_ready False (cs_degraded snap) (Some (call_error_text e)) s)
             | (Inr k, s) \<Rightarrow> (True, set_ready True (cs_degraded snap) fetch_text s)))))"

definition health :: Reply where
  "health = write_json 200 (JObj [(''status'', JStr ''ok'')])"

definition server_available :: "('e, 'w) services \<Rightarrow> 'w Server \<Rightarrow> nat \<times> 'w Server" where
  "server_available sv s =
    (let (n, p) = available (server_now sv s) (sr_pool s) in (n, s\<lparr>sr_pool := p\<rparr>))"

definition readiness :: "('e, 'w) services \<Rightarrow> 'w Server \<Rightarrow> Reply \<times> 'w Server" where
  "readiness sv s =
    (let (n, s) = server_available sv s; ready = (sr_ready s \<and> n > 0)
     in (write_json (if ready then 200 else 503)
           (JObj [(''available_accounts'', jint (int n)), (''degraded'', JBool (sr_degraded s)),
                  (''error'', JStr (sr_ready_error s)), (''ready'', JBool ready)]), s))"

section \<open>Administration\<close>

definition json_of_status :: "(instant \<Rightarrow> string) \<Rightarrow> Status \<Rightarrow> json" where
  "json_of_status time_text st = JObj
    ([(''id'', JStr (stat_id st)), (''region'', JStr (stat_region st)), (''state'', JStr (stat_state st))] @
     opt_member (stat_transport st \<noteq> []) ''transport'' (JStr (stat_transport st)) @
     opt_member (stat_last_error st \<noteq> []) ''last_error'' (JStr (stat_last_error st)) @
     [(''cooldown_until'', JStr (time_text (stat_cooldown_until st)))])"

definition admin_status :: "('e, 'w) services \<Rightarrow> 'w Server \<Rightarrow> Reply \<times> 'w Server" where
  "admin_status sv s =
    (let (sts, p) = statuses (server_now sv s) (sr_pool s);
         (n, s) = server_available sv (s\<lparr>sr_pool := p\<rparr>)
     in (write_json 200
           (JObj [(''accounts'', JArr (map (json_of_status (sc_time_text sv)) sts)), (''available'', jint (int n)),
                  (''catalog_degraded'', JBool (sr_degraded s)), (''catalog_error'', JStr (sr_ready_error s))]), s))"

text \<open>A \<open>float64\<close> is the text it is printed as.\<close>

record quotaRow =
  qr_account :: string
  qr_region :: string
  qr_state :: string
  qr_user_type :: string
  qr_total :: string
  qr_used :: string
  qr_remaining :: string
  qr_unit :: string
  qr_quota_exceeded :: bool
  qr_add_ons :: "json option"
  qr_error :: string

record userQuota =
  uq_total :: string
  uq_used :: string
  uq_remaining :: string
  uq_percentage :: string
  uq_unit :: string

record quotaPayload =
  qp_user_type :: string
  qp_exceeded :: bool
  qp_quota :: userQuota
  qp_outer :: "json option"

definition zero_payload :: quotaPayload where
  "zero_payload = \<lparr>qp_user_type = [], qp_exceeded = False,
     qp_quota = \<lparr>uq_total = ''0'', uq_used = ''0'', uq_remaining = ''0'', uq_percentage = ''0'', uq_unit = []\<rparr>,
     qp_outer = None\<rparr>"

definition dec_float :: "float_text \<Rightarrow> string dec" where
  "dec_float flt j old = (case j of JNull \<Rightarrow> Some old | JNum n \<Rightarrow> flt n | _ \<Rightarrow> None)"

definition dec_user_quota :: "float_text \<Rightarrow> userQuota dec" where
  "dec_user_quota flt = dec_struct (\<lambda>k j r.
     if key_is ''total'' k then map_option (\<lambda>x. r\<lparr>uq_total := x\<rparr>) (dec_float flt j (uq_total r))
     else if key_is ''used'' k then map_option (\<lambda>x. r\<lparr>uq_used := x\<rparr>) (dec_float flt j (uq_used r))
     else if key_is ''remaining'' k then map_option (\<lambda>x. r\<lparr>uq_remaining := x\<rparr>) (dec_float flt j (uq_remaining r))
     else if key_is ''percentage'' k then map_option (\<lambda>x. r\<lparr>uq_percentage := x\<rparr>) (dec_float flt j (uq_percentage r))
     else if key_is ''unit'' k then map_option (\<lambda>x. r\<lparr>uq_unit := x\<rparr>) (dec_string j (uq_unit r))
     else Some r)"

definition dec_payload :: "float_text \<Rightarrow> quotaPayload dec" where
  "dec_payload flt = dec_struct (\<lambda>k j r.
     if key_is ''userType'' k then map_option (\<lambda>x. r\<lparr>qp_user_type := x\<rparr>) (dec_string j (qp_user_type r))
     else if key_is ''isQuotaExceeded'' k then map_option (\<lambda>x. r\<lparr>qp_exceeded := x\<rparr>) (dec_bool j (qp_exceeded r))
     else if key_is ''userQuota'' k then map_option (\<lambda>x. r\<lparr>qp_quota := x\<rparr>) (dec_user_quota flt j (qp_quota r))
     else if key_is ''outerProviders'' k then map_option (\<lambda>x. r\<lparr>qp_outer := x\<rparr>) (dec_raw j (qp_outer r))
     else Some r)"

definition new_row :: "Account \<Rightarrow> EntryState \<Rightarrow> quotaRow" where
  "new_row a st = \<lparr>qr_account = anonymous_id a, qr_region = acc_region a, qr_state = state_name st,
     qr_user_type = [], qr_total = ''0'', qr_used = ''0'', qr_remaining = ''0'', qr_unit = [],
     qr_quota_exceeded = False, qr_add_ons = None, qr_error = []\<rparr>"

text \<open>What the goroutine of an account makes of the answer.\<close>

definition fill_row :: "float_text \<Rightarrow> string + string \<Rightarrow> quotaRow \<Rightarrow> quotaRow" where
  "fill_row flt answer row = (case answer of
      Inl e \<Rightarrow> row\<lparr>qr_error := sanitize_snippet e 200\<rparr>
    | Inr raw \<Rightarrow>
      (case unmarshal (dec_payload flt) zero_payload raw of
         None \<Rightarrow> row\<lparr>qr_error := ''unparseable quota payload''\<rparr>
       | Some uq \<Rightarrow> row\<lparr>qr_user_type := qp_user_type uq, qr_total := uq_total (qp_quota uq),
           qr_used := uq_used (qp_quota uq), qr_remaining := uq_remaining (qp_quota uq),
           qr_unit := uq_unit (qp_quota uq), qr_quota_exceeded := qp_exceeded uq,
           qr_add_ons := (if qp_outer uq \<in> {None, Some JNull} then None else qp_outer uq)\<rparr>))"

definition json_of_row :: "quotaRow \<Rightarrow> json" where
  "json_of_row r = JObj
    ([(''account'', JStr (qr_account r)), (''region'', JStr (qr_region r)), (''state'', JStr (qr_state r))] @
     opt_member (qr_user_type r \<noteq> []) ''user_type'' (JStr (qr_user_type r)) @
     [(''total'', JNum (qr_total r)), (''used'', JNum (qr_used r)), (''remaining'', JNum (qr_remaining r))] @
     opt_member (qr_unit r \<noteq> []) ''unit'' (JStr (qr_unit r)) @
     [(''quota_exceeded'', JBool (qr_quota_exceeded r))] @
     (case qr_add_ons r of None \<Rightarrow> [] | Some j \<Rightarrow> [(''add_on_packages'', j)]) @
     opt_member (qr_error r \<noteq> []) ''error'' (JStr (qr_error r)))"

fun quota_rows ::
  "float_text \<Rightarrow> (Account \<Rightarrow> 'w \<Rightarrow> (string + string) \<times> 'w) \<Rightarrow> (Account \<times> EntryState) list \<Rightarrow> 'w \<Rightarrow>
   quotaRow list \<times> 'w" where
  "quota_rows flt query [] w = ([], w)"
| "quota_rows flt query ((a, st) # es) w =
    (if st \<noteq> Healthy then
       (let (rows, w) = quota_rows flt query es w
        in ((new_row a st)\<lparr>qr_error := ''skipped: account '' @ state_name st\<rparr> # rows, w))
     else
       (let (answer, w) = query a w; (rows, w) = quota_rows flt query es w
        in (fill_row flt answer (new_row a st) # rows, w)))"

definition admin_quota :: "('e, 'w) services \<Rightarrow> 'w Server \<Rightarrow> Reply \<times> 'w Server" where
  "admin_quota sv s = (case sc_quota sv of
      None \<Rightarrow> (write_error 503 ''quota_unavailable'' ''no auth client configured'', s)
    | Some query \<Rightarrow>
      (let (es, p) = admin_entries (server_now sv s) (sr_pool s);
           (rows, w) = quota_rows (sc_float_text sv) query es (sr_world s);
           s = s\<lparr>sr_pool := p, sr_world := w\<rparr>
       in (write_json 200 (JObj [(''accounts'', (if rows = [] then JNull else JArr (map json_of_row rows))),
             (''checked_at'', JStr (sc_date_text sv (server_now sv s)))]), s)))"

section \<open>Access\<close>

definition presented_key :: "ClientRequest \<Rightarrow> string" where
  "presented_key rq =
    (let got = header_get rq ''X-API-Key'' in
     if got = [] \<and> has_prefix (header_get rq ''Authorization'') ''Bearer ''
     then trim_prefix (header_get rq ''Authorization'') ''Bearer '' else got)"

definition authorized :: "('e, 'w) services \<Rightarrow> ClientRequest \<Rightarrow> bool" where
  "authorized sv rq \<longleftrightarrow> sc_api_key sv = [] \<or> sha256 (sc_api_key sv) = sha256 (presented_key rq)"

definition unauthorized :: Reply where
  "unauthorized = write_error 401 ''invalid_api_key'' ''invalid proxy API key''"

text \<open>The headers that are added, and whether the request has been answered.\<close>

definition apply_cors :: "Config \<Rightarrow> ClientRequest \<Rightarrow> (string \<times> string) list \<times> bool" where
  "apply_cors cfg rq =
    (let origin = header_get rq ''Origin'' in
     if origin = [] \<or> origin \<notin> set (cf_cors_origins cfg) then ([], False)
     else ([(''Access-Control-Allow-Origin'', origin), (''Vary'', ''Origin''),
            (''Access-Control-Allow-Headers'', ''Authorization, Content-Type, X-API-Key, X-Session-Key''),
            (''Access-Control-Allow-Methods'', ''GET, POST, OPTIONS'')],
           cq_method rq = ''OPTIONS''))"

section \<open>Models and chat\<close>

definition json_of_model :: "int \<Rightarrow> Model \<Rightarrow> json" where
  "json_of_model now m = JObj
    [(''context_window'', jint (md_context_window m)), (''created'', jint now), (''display_name'', JStr (md_display_name m)),
     (''id'', JStr (md_id m)), (''is_reasoning'', JBool (md_is_reasoning m)), (''is_vl'', JBool (md_is_vl m)),
     (''object'', JStr ''model''), (''owned_by'', JStr ''qoder'')]"

definition unix_seconds :: "instant \<Rightarrow> int" where
  "unix_seconds t = (case t of None \<Rightarrow> - 62135596800 | Some n \<Rightarrow> n div second)"

text \<open>A catalog without models and without an error would be a nil dereference.\<close>

definition list_models :: "('e, 'w) services \<Rightarrow> 'w Server \<Rightarrow> outcome \<times> 'w Server" where
  "list_models sv s =
    (case server_select sv [] {} s of
       (Inl IndexPanic, s) \<Rightarrow> (Crashed, s)
     | (Inl e, s) \<Rightarrow> (Served (write_error 503 ''no_account'' (select_error_text e)), s)
     | (Inr i, s) \<Rightarrow>
       (let ((account, err), s) = server_fresh sv i False s in
        case err of
          Some e \<Rightarrow> (Served (write_error 502 ''auth_error'' (sc_fresh_text sv e)), s)
        | None \<Rightarrow>
          (let ((snap, fetch_err), s) = server_catalog sv account s in
           if cs_models snap = [] then
             ((case fetch_err of
                 None \<Rightarrow> Crashed
               | Some e \<Rightarrow> Served (write_error 502 ''catalog_error'' (sc_catalog_text sv e))), s)
           else
             (Served (write_json 200 (JObj
                [(''data'', JArr (map (json_of_model (unix_seconds (cs_fetched_at snap))) (cs_models snap))),
                 (''degraded'', JBool (cs_degraded snap)), (''object'', JStr ''list'')])), s))))"

fun request_error_text :: "(request_error \<Rightarrow> string) \<Rightarrow> request_error \<Rightarrow> string" where
  "request_error_text detail RequestNotJSON = ''invalid JSON: '' @ detail RequestNotJSON"
| "request_error_text detail ModelRequired = ''model is required''"
| "request_error_text detail MessagesRequired = ''messages must be a non-empty array''"

definition chat :: "('e, 'w) services \<Rightarrow> ClientRequest \<Rightarrow> 'w Server \<Rightarrow> outcome \<times> 'w Server" where
  "chat sv rq s =
    (if cq_body_error rq \<or> int (length (cq_body rq)) > cf_max_request_bytes (sc_config sv)
     then (Served (write_error 413 ''request_too_large'' ''request body exceeds configured limit''), s)
     else (case parse_chat_request (cq_body rq) of
         Inl e \<Rightarrow> (Served (write_error 400 ''invalid_request'' (request_error_text (sc_invalid sv) e)), s)
       | Inr req \<Rightarrow>
         (let req = req\<lparr>cr_session_key := header_get rq (cf_session_header (sc_config sv))\<rparr> in
          case chat_loop sv (cq_out rq) req (int (pool_count (sr_pool s))) first_turn s of
            (Answer reply status, s) \<Rightarrow> (Served reply, s)
          | (_, s) \<Rightarrow> (Crashed, s))))"

section \<open>Routing\<close>

datatype route_name = Health | Ready | Models | Chat | AdminStatus | AdminQuota | NotFound

definition route_of :: "ClientRequest \<Rightarrow> route_name" where
  "route_of rq =
    (if cq_method rq = ''GET'' \<and> cq_path rq = ''/healthz'' then Health
     else if cq_method rq = ''GET'' \<and> cq_path rq = ''/readyz'' then Ready
     else if cq_method rq = ''GET'' \<and> cq_path rq = ''/v1/models'' then Models
     else if cq_method rq = ''POST'' \<and> cq_path rq = ''/v1/chat/completions'' then Chat
     else if cq_method rq = ''GET'' \<and> cq_path rq = ''/admin/status'' then AdminStatus
     else if cq_method rq = ''GET'' \<and> cq_path rq = ''/admin/quota'' then AdminQuota
     else NotFound)"

definition public :: "route_name \<Rightarrow> bool" where
  "public r \<longleftrightarrow> r \<in> {Health, Ready, NotFound}"

definition served :: "Reply \<times> 'w Server \<Rightarrow> outcome \<times> 'w Server" where
  "served x = (Served (fst x), snd x)"

definition handle :: "('e, 'w) services \<Rightarrow> ClientRequest \<Rightarrow> 'w Server \<Rightarrow> outcome \<times> 'w Server" where
  "handle sv rq s =
    (if \<not> public (route_of rq) \<and> \<not> authorized sv rq then (Served unauthorized, s)
     else (case route_of rq of
         Health \<Rightarrow> (Served health, s)
       | Ready \<Rightarrow> served (readiness sv s)
       | Models \<Rightarrow> list_models sv s
       | Chat \<Rightarrow> chat sv rq s
       | AdminStatus \<Rightarrow> served (admin_status sv s)
       | AdminQuota \<Rightarrow> served (admin_quota sv s)
       | NotFound \<Rightarrow> (Served (write_error 404 ''not_found'' ''route not found''), s)))"

fun add_headers :: "(string \<times> string) list \<Rightarrow> outcome \<Rightarrow> outcome" where
  "add_headers hs (Served r) = Served (r\<lparr>rp_headers := hs @ rp_headers r\<rparr>)"
| "add_headers hs Crashed = Crashed"

definition serve_http :: "('e, 'w) services \<Rightarrow> ClientRequest \<Rightarrow> 'w Server \<Rightarrow> outcome \<times> 'w Server" where
  "serve_http sv rq s =
    (case apply_cors (sc_config sv) rq of
       (hs, True) \<Rightarrow> (Served \<lparr>rp_status = 204, rp_headers = hs, rp_body = BodyEmpty\<rparr>, s)
     | (hs, False) \<Rightarrow> (case handle sv rq s of (r, s) \<Rightarrow> (add_headers hs r, s)))"

text \<open>A history of the server: it is primed and it serves requests.\<close>

datatype server_event = Primed | Request ClientRequest

fun serve_event :: "('e, 'w) services \<Rightarrow> server_event \<Rightarrow> 'w Server \<Rightarrow> 'w Server" where
  "serve_event sv Primed s = snd (prime sv s)"
| "serve_event sv (Request rq) s = snd (serve_http sv rq s)"

definition serve_all :: "('e, 'w) services \<Rightarrow> server_event list \<Rightarrow> 'w Server \<Rightarrow> 'w Server" where
  "serve_all sv evs s = fold (serve_event sv) evs s"

section \<open>What every request keeps\<close>

locale server_history = server_invariant sv Inv ok errors
  for sv :: "('e, 'w) services" and Inv :: "'w Server \<Rightarrow> bool" and ok :: "Account \<Rightarrow> bool"
    and errors :: "call_error \<Rightarrow> bool" +
  assumes inv_snapshot: "Inv s \<Longrightarrow> Inv (on_pool (snapshot_all now) s)"
    and inv_ready: "Inv s \<Longrightarrow> Inv (s\<lparr>sr_ready := b, sr_degraded := d, sr_ready_error := e\<rparr>)"
begin

lemma set_ready_inv: "Inv s \<Longrightarrow> Inv (set_ready b d e s)"
  by (simp add: set_ready_def inv_ready)

lemma catalog_inv: "server_catalog sv a s = (r, s') \<Longrightarrow> Inv s \<Longrightarrow> Inv s'"
  using inv_world [OF inv_catalog] by (auto simp: server_catalog_def split: prod.splits)

lemma available_inv: "Inv s \<Longrightarrow> Inv (snd (server_available sv s))"
  using inv_snapshot by (simp add: server_available_def available_def Let_def on_pool_def)

lemma prime_inv: "Inv s \<Longrightarrow> Inv (snd (prime sv s))"
proof -
  assume inv: "Inv s"
  obtain r s1 where sel: "server_select sv [] {} s = (r, s1)" by fastforce
  from inv_select [OF inv sel] have s1: "Inv s1" .
  show ?thesis
  proof (cases r)
    case (Inl e)
    with sel s1 show ?thesis by (simp add: prime_def set_ready_inv split: select_error.splits)
  next
    case (Inr i)
    obtain a err s2 where f: "server_fresh sv i False s1 = ((a, err), s2)" by (metis surj_pair)
    from inv_fresh [OF s1 server_select_index [OF sel [unfolded Inr]] f] have s2: "Inv s2" "ok a" by simp_all
    obtain snap ferr s3 where c: "server_catalog sv a s2 = ((snap, ferr), s3)" by (metis surj_pair)
    obtain p s4 where k: "pick_transport sv i a [] s3 = (p, s4)" by fastforce
    from catalog_inv [OF c s2(1)] have s3: "Inv s3" .
    from pick_inv [OF k s3 s2(2)] have s4: "Inv s4" .
    from sel Inr f c k s2(1) s3 s4 show ?thesis
      by (auto simp: prime_def Let_def set_ready_inv split: option.splits sum.splits)
  qed
qed

lemma models_inv: "Inv s \<Longrightarrow> Inv (snd (list_models sv s))"
proof -
  assume inv: "Inv s"
  obtain r s1 where sel: "server_select sv [] {} s = (r, s1)" by fastforce
  from inv_select [OF inv sel] have s1: "Inv s1" .
  show ?thesis
  proof (cases r)
    case (Inl e)
    with sel s1 show ?thesis by (simp add: list_models_def split: select_error.splits)
  next
    case (Inr i)
    obtain a err s2 where f: "server_fresh sv i False s1 = ((a, err), s2)" by (metis surj_pair)
    from inv_fresh [OF s1 server_select_index [OF sel [unfolded Inr]] f] have s2: "Inv s2" by simp
    obtain snap ferr s3 where c: "server_catalog sv a s2 = ((snap, ferr), s3)" by (metis surj_pair)
    from sel Inr f c s2 catalog_inv [OF c s2] show ?thesis
      by (auto simp: list_models_def Let_def split: option.splits)
  qed
qed

lemma chat_inv: "Inv s \<Longrightarrow> Inv (snd (chat sv rq s))"
  using chat_loop_inv
  by (fastforce simp: chat_def Let_def split: sum.splits prod.splits verdict.splits dest: arg_cong [where f = snd])

lemma admin_inv: "Inv s \<Longrightarrow> Inv (snd (admin_status sv s)) \<and> Inv (snd (admin_quota sv s))"
proof
  assume inv: "Inv s"
  from inv_snapshot [OF inv, of "server_now sv s"] have snap: "Inv (s\<lparr>sr_pool := snapshot_all (server_now sv s) (sr_pool s)\<rparr>)"
    by (simp add: on_pool_def)
  from available_inv [OF this] show "Inv (snd (admin_status sv s))"
    by (simp add: admin_status_def statuses_def Let_def split_beta)
  from inv_world [OF snap] inv show "Inv (snd (admin_quota sv s))"
    by (auto simp: admin_quota_def admin_entries_def Let_def split: option.splits prod.splits)
qed

lemma serve_inv: "Inv s \<Longrightarrow> Inv (serve_event sv ev s)"
proof (cases ev)
  case (Request rq)
  assume inv: "Inv s"
  have "Inv (snd (handle sv rq s))"
    using inv chat_inv models_inv admin_inv available_inv
    by (auto simp: handle_def served_def readiness_def Let_def split_beta split: route_name.splits)
  with inv Request show ?thesis
    by (auto simp: serve_http_def split: prod.splits bool.splits)
qed (simp add: prime_inv)

lemma serve_all_inv: "Inv s \<Longrightarrow> Inv (serve_all sv evs s)"
  by (induction evs arbitrary: s) (simp_all add: serve_all_def serve_inv)

end

interpretation history_ids: server_history "authenticated sv" "\<lambda>s. server_ids s = ids" "\<lambda>a. acc_id a \<in> set ids" "\<lambda>_. True"
  for sv ids
  by unfold_locales (simp_all add: on_pool_def)

interpretation history_cache: server_history "authenticated sv" "cache_inv sv" "\<lambda>a. bar_free (acc_id a)" "\<lambda>_. True" for sv
  by unfold_locales (simp_all add: cache_inv_def on_pool_def)

section \<open>Properties of the server\<close>

text \<open>
  The accounts are the server's for good.  Over any history of priming and requests, with
  whatever answers from upstream, from the token endpoint and from the disk, the pool has the
  same accounts in the same order.
\<close>

lemma server_keeps_accounts:
  "map acc_id (pool_accounts (sr_pool (serve_all (authenticated sv) evs s))) = map acc_id (pool_accounts (sr_pool s))"
  by (rule history_ids.serve_all_inv) simp

text \<open>
  C3: concrete models go to COSY.  A server with automatic choice of the transport, whose
  accounts have no bar in their identifiers, never picks the Bearer transport for a model that
  is not a tier of the router, whatever requests it has served before.
\<close>

theorem concrete_models_use_cosy:
  assumes "cf_transport (sc_config sv) = ''auto''" and "\<forall>a \<in> set (pool_accounts p). bar_free (acc_id a)"
    and "bar_free (acc_id account)" and "model_key \<noteq> []" and "\<not> is_router_tier model_key"
  shows "fst (pick_transport (authenticated sv) i account model_key
    (serve_all (authenticated sv) evs (new_server p c fs w))) \<noteq> Inr Bearer"
proof -
  have "cache_inv sv (new_server p c fs w)"
    using assms(2) by (simp add: cache_inv_def new_server_def cache_ok_def list_all_iff)
  from history_cache.serve_all_inv [OF this, of evs]
  have "cache_inv (authenticated sv) (serve_all (authenticated sv) evs (new_server p c fs w))"
    by (simp add: cache_inv_def)
  from pick_concrete [OF this _ assms(3-5)] assms(1) show ?thesis by simp
qed

text \<open>Nothing but \<open>authorize\<close> looks at the key.\<close>

named_theorems keyless

lemma keyless_fields [keyless]:
  "sc_config (sv\<lparr>sc_api_key := k\<rparr>) = sc_config sv"
  "sc_refresher (sv\<lparr>sc_api_key := k\<rparr>) = sc_refresher sv"
  "sc_store (sv\<lparr>sc_api_key := k\<rparr>) = sc_store sv"
  "sc_io (sv\<lparr>sc_api_key := k\<rparr>) = sc_io sv"
  "sc_http (sv\<lparr>sc_api_key := k\<rparr>) = sc_http sv"
  "sc_sign (sv\<lparr>sc_api_key := k\<rparr>) = sc_sign sv"
  "sc_bearer (sv\<lparr>sc_api_key := k\<rparr>) = sc_bearer sv"
  "sc_cosy (sv\<lparr>sc_api_key := k\<rparr>) = sc_cosy sv"
  "sc_quota (sv\<lparr>sc_api_key := k\<rparr>) = sc_quota sv"
  "sc_clock (sv\<lparr>sc_api_key := k\<rparr>) = sc_clock sv"
  "sc_sleep (sv\<lparr>sc_api_key := k\<rparr>) = sc_sleep sv"
  "sc_rand (sv\<lparr>sc_api_key := k\<rparr>) = sc_rand sv"
  "sc_wait (sv\<lparr>sc_api_key := k\<rparr>) = sc_wait sv"
  "sc_deliver (sv\<lparr>sc_api_key := k\<rparr>) = sc_deliver sv"
  "sc_detail (sv\<lparr>sc_api_key := k\<rparr>) = sc_detail sv"
  "sc_invalid (sv\<lparr>sc_api_key := k\<rparr>) = sc_invalid sv"
  "sc_unsupported (sv\<lparr>sc_api_key := k\<rparr>) = sc_unsupported sv"
  "sc_catalog_text (sv\<lparr>sc_api_key := k\<rparr>) = sc_catalog_text sv"
  "sc_fresh_text (sv\<lparr>sc_api_key := k\<rparr>) = sc_fresh_text sv"
  "sc_date_text (sv\<lparr>sc_api_key := k\<rparr>) = sc_date_text sv"
  "sc_time_text (sv\<lparr>sc_api_key := k\<rparr>) = sc_time_text sv"
  "sc_float_text (sv\<lparr>sc_api_key := k\<rparr>) = sc_float_text sv"
  by simp_all

lemma keyless_transport_of [keyless]: "transport_of (sv\<lparr>sc_api_key := k\<rparr>) c = transport_of sv c"
  by (cases c) simp_all

lemma keyless_server_now [keyless]: "server_now (sv\<lparr>sc_api_key := k\<rparr>) = server_now sv"
  unfolding fun_eq_iff server_now_def keyless by simp

lemma keyless_server_select [keyless]: "server_select (sv\<lparr>sc_api_key := k\<rparr>) = server_select sv"
  unfolding fun_eq_iff server_select_def keyless by simp

lemma keyless_server_fresh [keyless]: "server_fresh (sv\<lparr>sc_api_key := k\<rparr>) = server_fresh sv"
  unfolding fun_eq_iff server_fresh_def keyless by simp

lemma keyless_server_catalog [keyless]: "server_catalog (sv\<lparr>sc_api_key := k\<rparr>) = server_catalog sv"
  unfolding fun_eq_iff server_catalog_def keyless by simp

lemma keyless_server_probe [keyless]: "server_probe (sv\<lparr>sc_api_key := k\<rparr>) = server_probe sv"
  unfolding fun_eq_iff server_probe_def keyless by simp

lemma keyless_server_chat [keyless]: "server_chat (sv\<lparr>sc_api_key := k\<rparr>) = server_chat sv"
  unfolding fun_eq_iff server_chat_def keyless by simp

lemma keyless_probe_and_cache [keyless]: "probe_and_cache (sv\<lparr>sc_api_key := k\<rparr>) = probe_and_cache sv"
  unfolding fun_eq_iff probe_and_cache_def keyless by simp

lemma keyless_pick_transport [keyless]: "pick_transport (sv\<lparr>sc_api_key := k\<rparr>) = pick_transport sv"
  unfolding fun_eq_iff pick_transport_def keyless by simp

lemma keyless_retry_unauthorized [keyless]: "retry_unauthorized (sv\<lparr>sc_api_key := k\<rparr>) = retry_unauthorized sv"
  unfolding fun_eq_iff retry_unauthorized_def keyless by simp

lemma keyless_fall_back [keyless]: "fall_back (sv\<lparr>sc_api_key := k\<rparr>) = fall_back sv"
  unfolding fun_eq_iff fall_back_def keyless by simp

lemma keyless_call_upstream [keyless]: "call_upstream (sv\<lparr>sc_api_key := k\<rparr>) = call_upstream sv"
  unfolding fun_eq_iff call_upstream_def keyless by simp

lemma keyless_queue_wait [keyless]: "queue_wait (sv\<lparr>sc_api_key := k\<rparr>) = queue_wait sv"
  unfolding fun_eq_iff queue_wait_def keyless by simp

lemma keyless_on_status [keyless]: "on_status (sv\<lparr>sc_api_key := k\<rparr>) = on_status sv"
  unfolding fun_eq_iff on_status_def keyless by simp

lemma keyless_on_call_error [keyless]: "on_call_error (sv\<lparr>sc_api_key := k\<rparr>) = on_call_error sv"
  unfolding fun_eq_iff on_call_error_def keyless by simp

lemma keyless_serve_account [keyless]: "serve_account (sv\<lparr>sc_api_key := k\<rparr>) = serve_account sv"
  unfolding fun_eq_iff serve_account_def keyless by simp

lemma keyless_chat_turn [keyless]: "chat_turn (sv\<lparr>sc_api_key := k\<rparr>) = chat_turn sv"
  unfolding fun_eq_iff chat_turn_def keyless by simp

lemma keyless_loop [keyless]:
  "chat_loop (sv\<lparr>sc_api_key := k\<rparr>) out req max_accounts tn s = chat_loop sv out req max_accounts tn s"
proof (induction tn s rule: chat_loop_steps [where max_accounts = max_accounts and sv = sv and out = out and req = req])
  case (step tn s)
  show ?case
    unfolding chat_loop.simps [of _ out req max_accounts tn s] keyless
    using step by (auto split: prod.splits verdict.splits)
qed

lemma keyless_handlers [keyless]:
  "list_models (sv\<lparr>sc_api_key := k\<rparr>) = list_models sv"
  "chat (sv\<lparr>sc_api_key := k\<rparr>) = chat sv"
  "readiness (sv\<lparr>sc_api_key := k\<rparr>) = readiness sv"
  "admin_status (sv\<lparr>sc_api_key := k\<rparr>) = admin_status sv"
  "admin_quota (sv\<lparr>sc_api_key := k\<rparr>) = admin_quota sv"
  unfolding fun_eq_iff list_models_def chat_def readiness_def admin_status_def admin_quota_def
    server_available_def keyless by simp_all

definition preflight :: "Config \<Rightarrow> ClientRequest \<Rightarrow> bool" where
  "preflight cfg rq \<longleftrightarrow> snd (apply_cors cfg rq)"

text \<open>
  C4: the key is a gate and nothing else.  A request to a protected route that does not present
  the key is answered with 401 and changes nothing, neither the server nor the world; every
  other request is handled as by a server without a key.
\<close>

theorem key_is_a_gate:
  "serve_http sv rq s =
    (if \<not> preflight (sc_config sv) rq \<and> \<not> public (route_of rq) \<and> \<not> authorized sv rq
     then (add_headers (fst (apply_cors (sc_config sv) rq)) (Served unauthorized), s)
     else serve_http (sv\<lparr>sc_api_key := []\<rparr>) rq s)"
proof (cases "preflight (sc_config sv) rq")
  case True
  then show ?thesis by (auto simp: serve_http_def preflight_def split: prod.splits bool.splits)
next
  case False
  then obtain hs where hs: "apply_cors (sc_config sv) rq = (hs, False)"
    by (cases "apply_cors (sc_config sv) rq") (simp add: preflight_def)
  have "handle (sv\<lparr>sc_api_key := []\<rparr>) rq s = handle sv rq s" if "public (route_of rq) \<or> authorized sv rq"
    using that unfolding handle_def authorized_def keyless by auto
  with False hs show ?thesis by (auto simp: serve_http_def handle_def)
qed

text \<open>
  The server is ready when it says so.  \<open>/readyz\<close> answers 200 exactly when the server has been
  primed and some account is healthy at that moment.
\<close>

lemma ready_iff:
  "rp_status (fst (readiness sv s)) = (if sr_ready s \<and>
      (\<exists>e \<in> set (pl_entries (sr_pool s)). en_state (snapshot (server_now sv s) e) = Healthy) then 200 else 503)"
  by (auto simp: readiness_def server_available_def available_def snapshot_all_def write_json_def Let_def
      filter_empty_conv)

definition without_secrets :: "Account \<Rightarrow> Account" where
  "without_secrets a = a\<lparr>acc_access_token := [], acc_refresh_token := []\<rparr>"

definition blank_entry :: "Entry \<Rightarrow> Entry" where
  "blank_entry e = e\<lparr>en_account := without_secrets (en_account e)\<rparr>"

lemma snapshot_blank [simp]: "snapshot now (blank_entry e) = blank_entry (snapshot now e)"
  by (simp add: snapshot_def blank_entry_def)

lemma status_blank [simp]: "status_of (blank_entry e) = status_of e"
  by (simp add: status_of_def blank_entry_def without_secrets_def anonymous_id_def)

lemma blank_state [simp]: "en_state (blank_entry e) = en_state e"
  by (simp add: blank_entry_def)

lemma length_filter_map: "length (filter P (map f xs)) = length (filter (\<lambda>x. P (f x)) xs)"
  by (induction xs) auto

text \<open>
  C26: the status page shows no secrets.  The answer of \<open>/admin/status\<close> is the same when the
  access tokens and the refresh tokens of all accounts are blanked out.
\<close>

theorem status_shows_no_secrets:
  "fst (admin_status sv s) = fst (admin_status sv (on_pool (on_entries (map blank_entry)) s))"
  by (simp add: admin_status_def statuses_def server_available_def available_def snapshot_all_def
      server_now_def on_pool_def Let_def length_filter_map o_def)

text \<open>
  A request that is refused for its body touches nothing.  A body over the limit or one that
  is no chat request is answered with 413 or 400 without an upstream call, a selection or any
  other change of the server or the world.
\<close>

lemma bad_body_changes_nothing:
  assumes "int (length (cq_body rq)) > cf_max_request_bytes (sc_config sv) \<or>
    (\<exists>e. parse_chat_request (cq_body rq) = Inl e)"
  shows "\<exists>r. chat sv rq s = (Served r, s) \<and> rp_status r \<in> {400, 413}"
  using assms by (auto simp: chat_def write_error_def write_json_def)

definition sample_client :: "string \<Rightarrow> string \<Rightarrow> string \<Rightarrow> ClientRequest" where
  "sample_client verb path body = \<lparr>cq_method = verb, cq_path = path, cq_headers = [], cq_body = body,
     cq_body_error = False, cq_out = steady_client\<rparr>"

lemma bad_body_changes_nothing_witness:
  "\<exists>r. chat (sample_services quota_error) (sample_client ''POST'' ''/v1/chat/completions'' ''{'') sample_server =
    (Served r, sample_server)"
proof -
  have "json_parse ''{'' = JEnd" by code_simp
  then have "parse_chat_request (cq_body (sample_client ''POST'' ''/v1/chat/completions'' ''{'')) = Inl RequestNotJSON"
    by (simp add: parse_chat_request_def sample_client_def)
  with bad_body_changes_nothing [where rq = "sample_client ''POST'' ''/v1/chat/completions'' ''{''"
      and sv = "sample_services quota_error" and s = sample_server]
  show ?thesis by blast
qed

theorem concrete_models_use_cosy_witness:
  "fst (pick_transport (authenticated (sample_services quota_error)) 0 (sample_account ''global-u'' ''u'') ''qwen3''
    (serve_all (authenticated (sample_services quota_error))
      [Primed, Request (sample_client ''GET'' ''/v1/models'' [])]
      (new_server (new_pool [sample_account ''global-u'' ''u'']) (new_catalog minute) (\<lambda>_. None) (0 :: nat)))) \<noteq> Inr Bearer"
proof (rule concrete_models_use_cosy)
  show "cf_transport (sc_config (sample_services quota_error)) = ''auto''"
    by (simp add: sample_services_def default_config_def)
  show "\<forall>a \<in> set (pool_accounts (new_pool [sample_account ''global-u'' ''u''])). bar_free (acc_id a)"
    by (simp add: new_pool_def pool_accounts_def new_entry_def sample_account_def bar_free_def)
qed (simp_all add: sample_account_def bar_free_def is_router_tier_def router_tiers_def)

end
