(* ===== verification/Md5.thy ===== *)
theory Md5
  imports Sha256
begin

text \<open>
  \<open>crypto/md5.Sum\<close> (RFC 1321) on bytes, over 32-bit words.  The program uses it for the COSY
  signature and the hash of the body.
\<close>

unbundle bit_operations_syntax

datatype md5_round = RoundF | RoundG | RoundH | RoundI

text \<open>The steps: the constant, the rotation, the word of the block and the round.\<close>

definition md5_steps :: "(32 word \<times> nat \<times> nat \<times> md5_round) list" where
  "md5_steps =
  [(0xd76aa478, 7, 0, RoundF), (0xe8c7b756, 12, 1, RoundF), (0x242070db, 17, 2, RoundF),
   (0xc1bdceee, 22, 3, RoundF), (0xf57c0faf, 7, 4, RoundF), (0x4787c62a, 12, 5, RoundF),
   (0xa8304613, 17, 6, RoundF), (0xfd469501, 22, 7, RoundF), (0x698098d8, 7, 8, RoundF),
   (0x8b44f7af, 12, 9, RoundF), (0xffff5bb1, 17, 10, RoundF), (0x895cd7be, 22, 11, RoundF),
   (0x6b901122, 7, 12, RoundF), (0xfd987193, 12, 13, RoundF), (0xa679438e, 17, 14, RoundF),
   (0x49b40821, 22, 15, RoundF), (0xf61e2562, 5, 1, RoundG), (0xc040b340, 9, 6, RoundG),
   (0x265e5a51, 14, 11, RoundG), (0xe9b6c7aa, 20, 0, RoundG), (0xd62f105d, 5, 5, RoundG),
   (0x02441453, 9, 10, RoundG), (0xd8a1e681, 14, 15, RoundG), (0xe7d3fbc8, 20, 4, RoundG),
   (0x21e1cde6, 5, 9, RoundG), (0xc33707d6, 9, 14, RoundG), (0xf4d50d87, 14, 3, RoundG),
   (0x455a14ed, 20, 8, RoundG), (0xa9e3e905, 5, 13, RoundG), (0xfcefa3f8, 9, 2, RoundG),
   (0x676f02d9, 14, 7, RoundG), (0x8d2a4c8a, 20, 12, RoundG), (0xfffa3942, 4, 5, RoundH),
   (0x8771f681, 11, 8, RoundH), (0x6d9d6122, 16, 11, RoundH), (0xfde5380c, 23, 14, RoundH),
   (0xa4beea44, 4, 1, RoundH), (0x4bdecfa9, 11, 4, RoundH), (0xf6bb4b60, 16, 7, RoundH),
   (0xbebfbc70, 23, 10, RoundH), (0x289b7ec6, 4, 13, RoundH), (0xeaa127fa, 11, 0, RoundH),
   (0xd4ef3085, 16, 3, RoundH), (0x04881d05, 23, 6, RoundH), (0xd9d4d039, 4, 9, RoundH),
   (0xe6db99e5, 11, 12, RoundH), (0x1fa27cf8, 16, 15, RoundH), (0xc4ac5665, 23, 2, RoundH),
   (0xf4292244, 6, 0, RoundI), (0x432aff97, 10, 7, RoundI), (0xab9423a7, 15, 14, RoundI),
   (0xfc93a039, 21, 5, RoundI), (0x655b59c3, 6, 12, RoundI), (0x8f0ccc92, 10, 3, RoundI),
   (0xffeff47d, 15, 10, RoundI), (0x85845dd1, 21, 1, RoundI), (0x6fa87e4f, 6, 8, RoundI),
   (0xfe2ce6e0, 10, 15, RoundI), (0xa3014314, 15, 6, RoundI), (0x4e0811a1, 21, 13, RoundI),
   (0xf7537e82, 6, 4, RoundI), (0xbd3af235, 10, 11, RoundI), (0x2ad7d2bb, 15, 2, RoundI),
   (0xeb86d391, 21, 9, RoundI)]"

definition rol :: "nat \<Rightarrow> 32 word \<Rightarrow> 32 word" where
  "rol n w = push_bit n w OR drop_bit (32 - n) w"

fun md5_mix :: "md5_round \<Rightarrow> 32 word \<Rightarrow> 32 word \<Rightarrow> 32 word \<Rightarrow> 32 word" where
  "md5_mix RoundF b c d = (b AND c) OR (NOT b AND d)"
| "md5_mix RoundG b c d = (d AND b) OR (NOT d AND c)"
| "md5_mix RoundH b c d = b XOR c XOR d"
| "md5_mix RoundI b c d = c XOR (b OR NOT d)"

fun md5_step :: "32 word list \<Rightarrow> 32 word \<times> nat \<times> nat \<times> md5_round \<Rightarrow> 32 word list \<Rightarrow> 32 word list" where
  "md5_step ws (k, r, g, f) [a, b, c, d] = [d, b + rol r (md5_mix f b c d + a + k + ws ! g), b, c]"
| "md5_step ws st hs = hs"

definition word_of_bytes_le :: "string \<Rightarrow> 32 word" where
  "word_of_bytes_le bs = word_of_bytes (rev bs)"

definition md5_block :: "string \<Rightarrow> 32 word list \<Rightarrow> 32 word list" where
  "md5_block b hs =
    map2 (+) hs (fold (md5_step (map word_of_bytes_le (chunks_of 4 b))) md5_steps hs)"

definition md5_pad :: "string \<Rightarrow> string" where
  "md5_pad s =
    (let zeros = (119 - length s mod 64) mod 64; bits = 8 * int (length s)
     in s @ CHR 0x80 # replicate zeros (CHR 0x00) @ map (\<lambda>i. char_of (bits div 2 ^ (8 * i))) [0..<8])"

definition md5 :: "string \<Rightarrow> string" where
  "md5 s = concat (map (\<lambda>w. rev (bytes_of_word w))
     (fold md5_block (chunks_of 64 (md5_pad s)) [0x67452301, 0xefcdab89, 0x98badcfe, 0x10325476]))"

lemma length_md5_step [simp]: "length (md5_step ws st hs) = length hs"
  by (induction ws st hs rule: md5_step.induct) simp_all

lemma length_md5_steps [simp]: "length (fold (md5_step ws) sts hs) = length hs"
  by (induction sts arbitrary: hs) simp_all

lemma length_md5_blocks [simp]: "length (fold md5_block bs hs) = length hs"
  by (induction bs arbitrary: hs) (simp_all add: md5_block_def)

lemma length_md5 [simp]: "length (md5 s) = 16"
proof -
  have "length (concat (map (\<lambda>w. rev (bytes_of_word w)) ws)) = 4 * length ws" for ws
    by (induction ws) simp_all
  then show ?thesis by (simp add: md5_def)
qed

end
