(* ===== verification/Aes.thy ===== *)
theory Aes
  imports Sha256
begin

text \<open>
  \<open>crypto/aes\<close> with a key of 128 bits (FIPS 197) and \<open>cipher.NewCBCEncrypter\<close>, over 8-bit words.
  The state is the list of its sixteen bytes, column by column.  The inverse cipher is not used
  by the program: it is what the receiver does.
\<close>

unbundle bit_operations_syntax

section \<open>The cipher\<close>

type_synonym byte = "8 word"

definition sbox :: "byte list" where
  "sbox =
  [0x63, 0x7c, 0x77, 0x7b, 0xf2, 0x6b, 0x6f, 0xc5, 0x30, 0x01, 0x67, 0x2b, 0xfe, 0xd7, 0xab, 0x76,
   0xca, 0x82, 0xc9, 0x7d, 0xfa, 0x59, 0x47, 0xf0, 0xad, 0xd4, 0xa2, 0xaf, 0x9c, 0xa4, 0x72, 0xc0,
   0xb7, 0xfd, 0x93, 0x26, 0x36, 0x3f, 0xf7, 0xcc, 0x34, 0xa5, 0xe5, 0xf1, 0x71, 0xd8, 0x31, 0x15,
   0x04, 0xc7, 0x23, 0xc3, 0x18, 0x96, 0x05, 0x9a, 0x07, 0x12, 0x80, 0xe2, 0xeb, 0x27, 0xb2, 0x75,
   0x09, 0x83, 0x2c, 0x1a, 0x1b, 0x6e, 0x5a, 0xa0, 0x52, 0x3b, 0xd6, 0xb3, 0x29, 0xe3, 0x2f, 0x84,
   0x53, 0xd1, 0x00, 0xed, 0x20, 0xfc, 0xb1, 0x5b, 0x6a, 0xcb, 0xbe, 0x39, 0x4a, 0x4c, 0x58, 0xcf,
   0xd0, 0xef, 0xaa, 0xfb, 0x43, 0x4d, 0x33, 0x85, 0x45, 0xf9, 0x02, 0x7f, 0x50, 0x3c, 0x9f, 0xa8,
   0x51, 0xa3, 0x40, 0x8f, 0x92, 0x9d, 0x38, 0xf5, 0xbc, 0xb6, 0xda, 0x21, 0x10, 0xff, 0xf3, 0xd2,
   0xcd, 0x0c, 0x13, 0xec, 0x5f, 0x97, 0x44, 0x17, 0xc4, 0xa7, 0x7e, 0x3d, 0x64, 0x5d, 0x19, 0x73,
   0x60, 0x81, 0x4f, 0xdc, 0x22, 0x2a, 0x90, 0x88, 0x46, 0xee, 0xb8, 0x14, 0xde, 0x5e, 0x0b, 0xdb,
   0xe0, 0x32, 0x3a, 0x0a, 0x49, 0x06, 0x24, 0x5c, 0xc2, 0xd3, 0xac, 0x62, 0x91, 0x95, 0xe4, 0x79,
   0xe7, 0xc8, 0x37, 0x6d, 0x8d, 0xd5, 0x4e, 0xa9, 0x6c, 0x56, 0xf4, 0xea, 0x65, 0x7a, 0xae, 0x08,
   0xba, 0x78, 0x25, 0x2e, 0x1c, 0xa6, 0xb4, 0xc6, 0xe8, 0xdd, 0x74, 0x1f, 0x4b, 0xbd, 0x8b, 0x8a,
   0x70, 0x3e, 0xb5, 0x66, 0x48, 0x03, 0xf6, 0x0e, 0x61, 0x35, 0x57, 0xb9, 0x86, 0xc1, 0x1d, 0x9e,
   0xe1, 0xf8, 0x98, 0x11, 0x69, 0xd9, 0x8e, 0x94, 0x9b, 0x1e, 0x87, 0xe9, 0xce, 0x55, 0x28, 0xdf,
   0x8c, 0xa1, 0x89, 0x0d, 0xbf, 0xe6, 0x42, 0x68, 0x41, 0x99, 0x2d, 0x0f, 0xb0, 0x54, 0xbb, 0x16]"

definition inv_sbox :: "byte list" where
  "inv_sbox =
  [0x52, 0x09, 0x6a, 0xd5, 0x30, 0x36, 0xa5, 0x38, 0xbf, 0x40, 0xa3, 0x9e, 0x81, 0xf3, 0xd7, 0xfb,
   0x7c, 0xe3, 0x39, 0x82, 0x9b, 0x2f, 0xff, 0x87, 0x34, 0x8e, 0x43, 0x44, 0xc4, 0xde, 0xe9, 0xcb,
   0x54, 0x7b, 0x94, 0x32, 0xa6, 0xc2, 0x23, 0x3d, 0xee, 0x4c, 0x95, 0x0b, 0x42, 0xfa, 0xc3, 0x4e,
   0x08, 0x2e, 0xa1, 0x66, 0x28, 0xd9, 0x24, 0xb2, 0x76, 0x5b, 0xa2, 0x49, 0x6d, 0x8b, 0xd1, 0x25,
   0x72, 0xf8, 0xf6, 0x64, 0x86, 0x68, 0x98, 0x16, 0xd4, 0xa4, 0x5c, 0xcc, 0x5d, 0x65, 0xb6, 0x92,
   0x6c, 0x70, 0x48, 0x50, 0xfd, 0xed, 0xb9, 0xda, 0x5e, 0x15, 0x46, 0x57, 0xa7, 0x8d, 0x9d, 0x84,
   0x90, 0xd8, 0xab, 0x00, 0x8c, 0xbc, 0xd3, 0x0a, 0xf7, 0xe4, 0x58, 0x05, 0xb8, 0xb3, 0x45, 0x06,
   0xd0, 0x2c, 0x1e, 0x8f, 0xca, 0x3f, 0x0f, 0x02, 0xc1, 0xaf, 0xbd, 0x03, 0x01, 0x13, 0x8a, 0x6b,
   0x3a, 0x91, 0x11, 0x41, 0x4f, 0x67, 0xdc, 0xea, 0x97, 0xf2, 0xcf, 0xce, 0xf0, 0xb4, 0xe6, 0x73,
   0x96, 0xac, 0x74, 0x22, 0xe7, 0xad, 0x35, 0x85, 0xe2, 0xf9, 0x37, 0xe8, 0x1c, 0x75, 0xdf, 0x6e,
   0x47, 0xf1, 0x1a, 0x71, 0x1d, 0x29, 0xc5, 0x89, 0x6f, 0xb7, 0x62, 0x0e, 0xaa, 0x18, 0xbe, 0x1b,
   0xfc, 0x56, 0x3e, 0x4b, 0xc6, 0xd2, 0x79, 0x20, 0x9a, 0xdb, 0xc0, 0xfe, 0x78, 0xcd, 0x5a, 0xf4,
   0x1f, 0xdd, 0xa8, 0x33, 0x88, 0x07, 0xc7, 0x31, 0xb1, 0x12, 0x10, 0x59, 0x27, 0x80, 0xec, 0x5f,
   0x60, 0x51, 0x7f, 0xa9, 0x19, 0xb5, 0x4a, 0x0d, 0x2d, 0xe5, 0x7a, 0x9f, 0x93, 0xc9, 0x9c, 0xef,
   0xa0, 0xe0, 0x3b, 0x4d, 0xae, 0x2a, 0xf5, 0xb0, 0xc8, 0xeb, 0xbb, 0x3c, 0x83, 0x53, 0x99, 0x61,
   0x17, 0x2b, 0x04, 0x7e, 0xba, 0x77, 0xd6, 0x26, 0xe1, 0x69, 0x14, 0x63, 0x55, 0x21, 0x0c, 0x7d]"

definition sub_byte :: "byte \<Rightarrow> byte" where
  "sub_byte b = sbox ! unat b"

definition inv_sub_byte :: "byte \<Rightarrow> byte" where
  "inv_sub_byte b = inv_sbox ! unat b"

definition permute :: "nat list \<Rightarrow> byte list \<Rightarrow> byte list" where
  "permute is s = map (\<lambda>i. s ! i) is"

definition row_shift :: "nat list" where
  "row_shift = [0, 5, 10, 15, 4, 9, 14, 3, 8, 13, 2, 7, 12, 1, 6, 11]"

definition inv_row_shift :: "nat list" where
  "inv_row_shift = [0, 13, 10, 7, 4, 1, 14, 11, 8, 5, 2, 15, 12, 9, 6, 3]"

text \<open>Multiplication by \<open>x\<close> in the field.\<close>

definition xtime :: "byte \<Rightarrow> byte" where
  "xtime b = push_bit 1 b XOR (if bit b 7 then 0x1b else 0)"

fun mix_columns :: "byte list \<Rightarrow> byte list" where
  "mix_columns (a # b # c # d # s) =
    (xtime a XOR xtime b XOR b XOR c XOR d) # (a XOR xtime b XOR xtime c XOR c XOR d) #
    (a XOR b XOR xtime c XOR xtime d XOR d) # (xtime a XOR a XOR b XOR c XOR xtime d) # mix_columns s"
| "mix_columns s = s"

text \<open>The products with 14, 11, 13 and 9.\<close>

definition times14 :: "byte \<Rightarrow> byte" where
  "times14 b = xtime (xtime (xtime b)) XOR xtime (xtime b) XOR xtime b"

definition times11 :: "byte \<Rightarrow> byte" where
  "times11 b = xtime (xtime (xtime b)) XOR xtime b XOR b"

definition times13 :: "byte \<Rightarrow> byte" where
  "times13 b = xtime (xtime (xtime b)) XOR xtime (xtime b) XOR b"

definition times9 :: "byte \<Rightarrow> byte" where
  "times9 b = xtime (xtime (xtime b)) XOR b"

fun inv_mix_columns :: "byte list \<Rightarrow> byte list" where
  "inv_mix_columns (a # b # c # d # s) =
    (times14 a XOR times11 b XOR times13 c XOR times9 d) # (times9 a XOR times14 b XOR times11 c XOR times13 d) #
    (times13 a XOR times9 b XOR times14 c XOR times11 d) # (times11 a XOR times13 b XOR times9 c XOR times14 d) #
    inv_mix_columns s"
| "inv_mix_columns s = s"

definition add_key :: "byte list \<Rightarrow> byte list \<Rightarrow> byte list" where
  "add_key k s = map2 (XOR) k s"

section \<open>The key schedule\<close>

definition next_key :: "byte \<Rightarrow> byte list \<Rightarrow> byte list" where
  "next_key rcon k =
    (let w0 = map2 (XOR) (take 4 k)
           [sub_byte (k ! 13) XOR rcon, sub_byte (k ! 14), sub_byte (k ! 15), sub_byte (k ! 12)];
         w1 = map2 (XOR) (take 4 (drop 4 k)) w0;
         w2 = map2 (XOR) (take 4 (drop 8 k)) w1;
         w3 = map2 (XOR) (drop 12 k) w2
     in w0 @ w1 @ w2 @ w3)"

fun round_keys :: "byte list \<Rightarrow> byte list \<Rightarrow> byte list list" where
  "round_keys [] k = []"
| "round_keys (r # rs) k = (let k' = next_key r k in k' # round_keys rs k')"

definition round_numbers :: "byte list" where
  "round_numbers = [0x01, 0x02, 0x04, 0x08, 0x10, 0x20, 0x40, 0x80, 0x1b]"

definition last_number :: byte where
  "last_number = 0x36"

definition last_key :: "byte list \<Rightarrow> byte list" where
  "last_key k = next_key last_number (last (round_keys round_numbers k))"

definition aes_round :: "byte list \<Rightarrow> byte list \<Rightarrow> byte list" where
  "aes_round k s = add_key k (mix_columns (permute row_shift (map sub_byte s)))"

definition aes_encrypt :: "byte list \<Rightarrow> byte list \<Rightarrow> byte list" where
  "aes_encrypt k b =
    (let s = fold aes_round (round_keys round_numbers k) (add_key k b)
     in add_key (last_key k) (permute row_shift (map sub_byte s)))"

definition inv_round :: "byte list \<Rightarrow> byte list \<Rightarrow> byte list" where
  "inv_round k s = map inv_sub_byte (permute inv_row_shift (inv_mix_columns (add_key k s)))"

definition aes_decrypt :: "byte list \<Rightarrow> byte list \<Rightarrow> byte list" where
  "aes_decrypt k b =
    (let s = map inv_sub_byte (permute inv_row_shift (add_key (last_key k) b))
     in add_key k (fold inv_round (rev (round_keys round_numbers k)) s))"

section \<open>Blocks of bytes\<close>

definition words_of :: "string \<Rightarrow> byte list" where
  "words_of s = map (\<lambda>c. of_nat (of_char c)) s"

definition chars_of :: "byte list \<Rightarrow> string" where
  "chars_of ws = map (\<lambda>w. char_of (unat w)) ws"

definition aes_block :: "string \<Rightarrow> string \<Rightarrow> string" where
  "aes_block k b = chars_of (aes_encrypt (words_of k) (words_of b))"

definition aes_unblock :: "string \<Rightarrow> string \<Rightarrow> string" where
  "aes_unblock k b = chars_of (aes_decrypt (words_of k) (words_of b))"

section \<open>The cipher can be undone\<close>

lemma sbox_check: "list_all (\<lambda>n. inv_sbox ! unat (sbox ! n) = of_nat n) [0..<256]"
  by code_simp

lemma sub_byte_undo [simp]: "inv_sub_byte (sub_byte b) = b"
proof -
  have "unat b < 256" using unsigned_less [of b, where ?'a = nat] by simp
  with sbox_check have "inv_sbox ! unat (sbox ! unat b) = of_nat (unat b)" by (simp add: list_all_iff)
  then show ?thesis by (simp add: inv_sub_byte_def sub_byte_def)
qed

lemma xtime_xor: "xtime (a XOR b) = xtime a XOR xtime b"
  by (auto simp: xtime_def push_bit_xor bit_xor_iff ac_simps)

lemma xor_cancel: "(a :: byte) XOR (a XOR b) = b"
  by (simp flip: xor.assoc)

lemma mix_undo: "4 dvd length s \<Longrightarrow> inv_mix_columns (mix_columns s) = s"
proof (induction s rule: mix_columns.induct)
  case (1 a b c d s)
  then have "4 dvd length s" by simp presburger
  with 1 show ?case
    by (simp add: times14_def times11_def times13_def times9_def xtime_xor xor.assoc xor.commute xor.left_commute xor_cancel)
qed auto

lemma length_mix [simp]: "length (mix_columns s) = length s"
  by (induction s rule: mix_columns.induct) simp_all

lemma length_permute [simp]: "length (permute is s) = length is"
  by (simp add: permute_def)

lemma length_row_shift [simp]: "length row_shift = 16" "length inv_row_shift = 16"
  by (simp_all add: row_shift_def inv_row_shift_def)

lemma permute_undo:
  assumes "length s = 16"
  shows "permute inv_row_shift (permute row_shift s) = s"
proof -
  have "permute inv_row_shift (permute row_shift s) = map ((!) s) [0..<16]"
    by (simp add: permute_def row_shift_def inv_row_shift_def upt_rec numeral_eq_Suc)
  then show ?thesis using map_nth [of s] assms by simp
qed

lemma length_add_key [simp]: "length (add_key k s) = min (length k) (length s)"
  by (simp add: add_key_def)

lemma add_key_undo: "length k = length s \<Longrightarrow> add_key k (add_key k s) = s"
  by (auto simp: add_key_def xor_cancel intro!: nth_equalityI)

lemma length_next_key [simp]: "length k = 16 \<Longrightarrow> length (next_key r k) = 16"
  by (simp add: next_key_def Let_def)

lemma round_keys_length: "length k = 16 \<Longrightarrow> list_all (\<lambda>k. length k = 16) (round_keys rs k)"
  by (induction rs arbitrary: k) (simp_all add: Let_def)

lemma length_last_key [simp]: "length k = 16 \<Longrightarrow> length (last_key k) = 16"
proof -
  assume k: "length k = 16"
  have "round_keys round_numbers k \<noteq> []" by (simp add: round_numbers_def Let_def)
  with round_keys_length [OF k, of round_numbers] have "length (last (round_keys round_numbers k)) = 16"
    by (simp add: list_all_iff)
  then show ?thesis by (simp add: last_key_def)
qed

lemma length_aes_round [simp]: "length k = 16 \<Longrightarrow> length (aes_round k s) = 16"
  by (simp add: aes_round_def)

lemma aes_round_undo:
  assumes "length k = 16" and "length s = 16"
  shows "inv_round k (aes_round k s) = s"
  using assms by (simp add: inv_round_def aes_round_def add_key_undo mix_undo permute_undo o_def)

lemma aes_rounds_undo:
  "list_all (\<lambda>k. length k = 16) ks \<Longrightarrow> length s = 16 \<Longrightarrow>
   fold inv_round (rev ks) (fold aes_round ks s) = s \<and> length (fold aes_round ks s) = 16"
  by (induction ks arbitrary: s) (simp_all add: aes_round_undo)

lemma aes_undo:
  assumes "length k = 16" and "length b = 16"
  shows "aes_decrypt k (aes_encrypt k b) = b \<and> length (aes_encrypt k b) = 16"
proof -
  let ?s = "fold aes_round (round_keys round_numbers k) (add_key k b)"
  have r: "fold inv_round (rev (round_keys round_numbers k)) ?s = add_key k b" "length ?s = 16"
    using aes_rounds_undo [OF round_keys_length [OF assms(1)], of "add_key k b" round_numbers] assms by simp_all
  have "map inv_sub_byte (permute inv_row_shift (add_key (last_key k) (aes_encrypt k b))) = ?s"
    using assms r(2) by (simp add: aes_encrypt_def Let_def add_key_undo permute_undo o_def)
  with r assms show ?thesis by (simp add: aes_decrypt_def add_key_undo aes_encrypt_def Let_def)
qed

lemma words_chars [simp]: "words_of (chars_of ws) = ws"
proof -
  have "of_nat (of_char (char_of (unat w) :: char)) = w" for w :: byte
  proof -
    have "unat w < 256" using unsigned_less [of w, where ?'a = nat] by simp
    then show ?thesis by simp
  qed
  then show ?thesis by (simp add: words_of_def chars_of_def o_def)
qed

lemma chars_words [simp]: "chars_of (words_of s) = s"
proof -
  have "char_of (unat (of_nat (of_char c) :: byte)) = c" for c :: char
  proof -
    have "of_char c < (256 :: nat)" by (rule nat_of_char_less_256)
    then show ?thesis by (simp add: unat_of_nat)
  qed
  then show ?thesis by (simp add: words_of_def chars_of_def o_def)
qed

lemma length_words [simp]: "length (words_of s) = length s" "length (chars_of ws) = length ws"
  by (simp_all add: words_of_def chars_of_def)

lemma aes_block_undo:
  assumes "length k = 16" and "length b = 16"
  shows "aes_unblock k (aes_block k b) = b" and "length (aes_block k b) = 16"
  using aes_undo [of "words_of k" "words_of b"] assms by (simp_all add: aes_block_def aes_unblock_def)

end
