(* ===== verification/Rsa.thy ===== *)
theory Rsa
  imports Encoding GoUrl
begin

text \<open>
  The RSA key of \<open>internal/qoder/cosy.go\<close>: the constant in PEM form, \<open>parsePublicKey\<close> with what it
  uses of \<open>encoding/pem\<close> and \<open>crypto/x509\<close>, and \<open>rsa.EncryptPKCS1v15\<close>.  The key that the constant
  holds is evaluated, and what was encrypted comes back from any inverse of the power function.
\<close>

section \<open>Integers and byte strings\<close>

definition int_of_bytes :: "string \<Rightarrow> int" where
  "int_of_bytes s = fold (\<lambda>c n. n * 256 + of_char c) s 0"

definition bytes_of_int :: "nat \<Rightarrow> int \<Rightarrow> string" where
  "bytes_of_int k n = map (\<lambda>i. char_of (n div 256 ^ i)) (rev [0..<k])"

fun byte_size :: "int \<Rightarrow> nat" where
  "byte_size n = (if n \<le> 0 then 0 else Suc (byte_size (n div 256)))"

declare byte_size.simps [simp del]

lemma int_of_bytes_snoc: "int_of_bytes (s @ [c]) = int_of_bytes s * 256 + of_char c"
  by (simp add: int_of_bytes_def)

lemma bytes_of_int_Suc: "bytes_of_int (Suc k) n = bytes_of_int k (n div 256) @ [char_of n]"
proof -
  have "[0..<Suc k] = 0 # map Suc [0..<k]" by (simp only: map_Suc_upt upt_conv_Cons zero_less_Suc)
  then have "rev [0..<Suc k] = map Suc (rev [0..<k]) @ [0]" by (simp only: rev.simps rev_map)
  moreover have "n div (256 * 256 ^ i) = n div 256 div 256 ^ i" for i :: nat
    by (simp add: zdiv_zmult2_eq)
  ultimately show ?thesis by (simp add: bytes_of_int_def comp_def del: upt_Suc)
qed

lemma int_of_bytes_of_int: "0 \<le> n \<Longrightarrow> n < 256 ^ k \<Longrightarrow> int_of_bytes (bytes_of_int k n) = n"
proof (induction k arbitrary: n)
  case 0
  then show ?case by (simp add: bytes_of_int_def int_of_bytes_def)
next
  case (Suc k)
  then have "n div 256 < 256 ^ k" by (simp add: div_less_iff_less_mult)
  with Suc show ?case by (simp add: bytes_of_int_Suc int_of_bytes_snoc)
qed

lemma bytes_of_int_of_bytes: "bytes_of_int (length s) (int_of_bytes s) = s"
proof (induction s rule: rev_induct)
  case Nil
  then show ?case by (simp add: bytes_of_int_def)
next
  case (snoc c s)
  let ?n = "int_of_bytes s * 256 + of_char c"
  have c: "0 \<le> (of_char c :: int)" "(of_char c :: int) < 256"
    by (metis of_char_mod_256 pos_mod_sign zero_less_numeral) (metis of_char_mod_256 pos_mod_bound zero_less_numeral)
  then have "?n mod 256 = of_char c" "?n div 256 = int_of_bytes s" by simp_all
  moreover have "char_of ?n = (char_of (?n mod 256) :: char)" by (simp only: char_of_mod_256)
  ultimately show ?case using snoc by (simp add: bytes_of_int_Suc int_of_bytes_snoc del: char_of_mod_256)
qed

section \<open>The key\<close>

definition qoder_rsa_public_key :: string where
  "qoder_rsa_public_key =
    ''-----BEGIN PUBLIC KEY-----'' @ LF #
    ''MIGfMA0GCSqGSIb3DQEBAQUAA4GNADCBiQKBgQDA8iMH5c02LilrsERw9t6Pv5Nc'' @ LF #
    ''4k6Pz1EaDicBMpdpxKduSZu5OANqUq8er4GM95omAGIOPOh+Nx0spthYA2BqGz+l'' @ LF #
    ''6HRkPJ7S236FZz73In/KVuLnwI8JJ2CbuJap8kvheCCZpmAWpb/cPx/3Vr/J6I17'' @ LF #
    ''XcW+ML9FoCI6AOvOzwIDAQAB'' @ LF #
    ''-----END PUBLIC KEY-----''"

text \<open>\<open>pem.Decode\<close> for a text that is one block without headers, as the constant is: the type is on
  the first line, and the base64 text goes on to the line that names the same type again.\<close>

definition pem_decode :: "string \<Rightarrow> (string \<times> string) option" where
  "pem_decode s =
    (if \<not> has_prefix s ''-----BEGIN '' then None
     else
      (let (line, rest) = cut_at LF (drop 11 s); typ = take (length line - 5) line in
       if drop (length line - 5) line \<noteq> ''-----'' then None
       else (case index_text rest (LF # ''-----END '' @ typ @ ''-----'') of
           None \<Rightarrow> None
         | Some i \<Rightarrow> map_option (\<lambda>der. (typ, der))
             (b64_decode (filter (\<lambda>c. c \<noteq> CHR '' '' \<and> c \<noteq> TAB) (take i rest))))))"

text \<open>Reading DER: the length of an element, in the short or the shortest long form, its contents
  with a given tag and what follows, and a positive integer without superfluous zeros.\<close>

fun der_length :: "string \<Rightarrow> (nat \<times> string) option" where
  "der_length [] = None"
| "der_length (c # s) =
    (let n = of_char c; k = n - 128; v = nat (int_of_bytes (take k s)) in
     if n < 128 then Some (n, s)
     else if k = 0 \<or> length s < k \<or> hd s = CHR 0x00 \<or> v < 128 then None
     else Some (v, drop k s))"

definition der_read :: "nat \<Rightarrow> string \<Rightarrow> (string \<times> string) option" where
  "der_read tag s = (case s of
      [] \<Rightarrow> None
    | t # s \<Rightarrow>
      if of_char t \<noteq> tag then None
      else Option.bind (der_length s) (\<lambda>(n, s). if length s < n then None else Some (take n s, drop n s)))"

definition der_positive :: "string \<Rightarrow> int option" where
  "der_positive s =
    (if s = [] \<or> of_char (hd s) \<ge> (128 :: nat) \<or> int_of_bytes s = 0 then None
     else if length s > 1 \<and> hd s = CHR 0x00 \<and> of_char (s ! 1) < (128 :: nat) then None
     else Some (int_of_bytes s))"

datatype pkix_key = RsaKey int int | OtherKey string

definition rsa_oid :: string where
  "rsa_oid = map char_of [0x2a, 0x86, 0x48, 0x86, 0xf7, 0x0d, 0x01, 0x01, 0x01 :: nat]"

text \<open>\<open>x509.ParsePKIXPublicKey\<close>: the algorithm and a bit string of whole bytes, for RSA with the
  modulus and the exponent.  Keys of other algorithms are left as they are.\<close>

definition parse_pkix :: "string \<Rightarrow> pkix_key option" where
  "parse_pkix der =
    Option.bind (der_read 0x30 der) (\<lambda>(info, trailing). if trailing \<noteq> [] then None else
    Option.bind (der_read 0x30 info) (\<lambda>(algorithm, key).
    Option.bind (der_read 0x06 algorithm) (\<lambda>(oid, params).
    Option.bind (der_read 0x03 key) (\<lambda>(bits, _).
      if oid \<noteq> rsa_oid then Some (OtherKey oid)
      else if take 2 params \<noteq> [CHR 0x05, CHR 0x00] \<or> take 1 bits \<noteq> [CHR 0x00] then None
      else
       Option.bind (der_read 0x30 (drop 1 bits)) (\<lambda>(numbers, _).
       Option.bind (der_read 0x02 numbers) (\<lambda>(n, rest).
       Option.bind (der_read 0x02 rest) (\<lambda>(e, _).
       Option.bind (der_positive n) (\<lambda>n. map_option (RsaKey n) (der_positive e)))))))))"

text \<open>\<open>x509_text\<close> is the text of the error of \<open>x509.ParsePKIXPublicKey\<close>.\<close>

definition parse_public_key :: "string \<Rightarrow> string + int \<times> int" where
  "parse_public_key x509_text =
    (case pem_decode qoder_rsa_public_key of
       None \<Rightarrow> Inl ''invalid COSY public key''
     | Some (_, der) \<Rightarrow>
       (case parse_pkix der of
          None \<Rightarrow> Inl x509_text
        | Some (OtherKey _) \<Rightarrow> Inl ''COSY key is not RSA''
        | Some (RsaKey n e) \<Rightarrow> Inr (n, e)))"

definition public_modulus :: int where
  "public_modulus =
     0xc0f22307e5cd362e296bb04470f6de8fbf935ce24e8fcf511a0e2701329769c4 * 2 ^ 768
   + 0xa76e499bb938036a52af1eaf818cf79a2600620e3ce87e371d2ca6d85803606a * 2 ^ 512
   + 0x1b3fa5e874643c9ed2db7e85673ef7227fca56e2e7c08f0927609bb896a9f24b * 2 ^ 256
   + 0xe1782099a66016a5bfdc3f1ff756bfc9e88d7b5dc5be30bf45a0223a00ebcecf"

lemma public_key_parsed: "parse_public_key x509_text = Inr (public_modulus, 65537)"
proof -
  have "map_option (\<lambda>(_, der). parse_pkix der) (pem_decode qoder_rsa_public_key) =
      Some (Some (RsaKey public_modulus 65537))"
    by code_simp
  then show ?thesis by (auto simp: parse_public_key_def)
qed

lemma public_key_size: "byte_size public_modulus = 128"
  by code_simp

section \<open>Encryption\<close>

fun pow_mod :: "int \<Rightarrow> nat \<Rightarrow> int \<Rightarrow> int" where
  "pow_mod b e n =
    (if e = 0 then 1 mod n
     else (let r = pow_mod (b * b mod n) (e div 2) n in if e mod 2 = 1 then b * r mod n else r))"

declare pow_mod.simps [simp del]

lemma pow_mod_power: "pow_mod b e n = b ^ e mod n"
proof (induction b e n rule: pow_mod.induct)
  case (1 b e n)
  have sq: "(b * b) ^ (e div 2) = b ^ (2 * (e div 2))" by (simp add: power_mult power2_eq_square)
  show ?case
  proof (cases "e = 0")
    case True
    then show ?thesis by (simp add: pow_mod.simps)
  next
    case False
    with 1 have r: "pow_mod (b * b mod n) (e div 2) n = b ^ (2 * (e div 2)) mod n" by (simp add: power_mod sq)
    have "b * (b ^ (2 * (e div 2))) = b ^ e" if "e mod 2 = 1"
      using that by (metis mult_div_mod_eq power_Suc Suc_eq_plus1)
    moreover have "2 * (e div 2) = e" if "e mod 2 \<noteq> 1" using that by presburger
    ultimately show ?thesis using False r by (subst pow_mod.simps) (simp add: mod_mult_right_eq Let_def)
  qed
qed

text \<open>The block of \<open>rsa.EncryptPKCS1v15\<close>: \<open>filler\<close> are its random bytes, which are not zero.\<close>

definition rsa_block :: "string \<Rightarrow> string \<Rightarrow> string" where
  "rsa_block filler m = CHR 0x00 # CHR 0x02 # filler @ CHR 0x00 # m"

definition rsa_encrypt :: "int \<times> int \<Rightarrow> string \<Rightarrow> string \<Rightarrow> string" where
  "rsa_encrypt key filler m = (case key of
      (n, e) \<Rightarrow> bytes_of_int (byte_size n) (pow_mod (int_of_bytes (rsa_block filler m)) (nat e) n))"

section \<open>Decryption\<close>

text \<open>The owner of the private key has an inverse of the power function.  He turns the cipher text
  into the block and cuts off the random bytes.\<close>

definition rsa_unblock :: "string \<Rightarrow> string option" where
  "rsa_unblock s = (case s of
      a # b # t \<Rightarrow> if a = CHR 0x00 \<and> b = CHR 0x02 \<and> CHR 0x00 \<in> set t
        then Some (drop 1 (dropWhile (\<lambda>c. c \<noteq> CHR 0x00) t)) else None
    | _ \<Rightarrow> None)"

definition rsa_decrypt :: "(int \<Rightarrow> int) \<Rightarrow> string \<Rightarrow> string option" where
  "rsa_decrypt private_op c = rsa_unblock (bytes_of_int (length c) (private_op (int_of_bytes c)))"

lemma unblock_block: "CHR 0x00 \<notin> set filler \<Longrightarrow> rsa_unblock (rsa_block filler m) = Some m"
proof -
  assume "CHR 0x00 \<notin> set filler"
  then have "dropWhile (\<lambda>c. c \<noteq> CHR 0x00) (filler @ CHR 0x00 # m) = CHR 0x00 # m"
    by (subst dropWhile_append2) auto
  then show ?thesis by (simp add: rsa_unblock_def rsa_block_def)
qed

lemma bytes_of_int_length [simp]: "length (bytes_of_int k n) = k"
  by (simp add: bytes_of_int_def)

lemma byte_size_bound: "0 \<le> n \<Longrightarrow> n < 256 ^ byte_size n"
proof (induction n rule: byte_size.induct)
  case (1 n)
  show ?case
  proof (cases "n = 0")
    case True
    then show ?thesis by (simp add: byte_size.simps)
  next
    case False
    with 1 have "n div 256 < 256 ^ byte_size (n div 256)" by simp
    then have "n < 256 * 256 ^ byte_size (n div 256)" by linarith
    with False 1 show ?thesis by (subst byte_size.simps) simp
  qed
qed

text \<open>What is encrypted comes back, if the random bytes are not zero, the block is as long as the
  modulus, and the power function is undone for this block.\<close>

lemma rsa_decrypt_encrypt:
  assumes "CHR 0x00 \<notin> set filler" and "length (rsa_block filler m) = byte_size n" and "0 < n"
    and "private_op (int_of_bytes (rsa_block filler m) ^ nat e mod n) = int_of_bytes (rsa_block filler m)"
  shows "rsa_decrypt private_op (rsa_encrypt (n, e) filler m) = Some m"
proof -
  let ?x = "int_of_bytes (rsa_block filler m) ^ nat e mod n"
  have "0 \<le> ?x" "?x < n" using assms(3) by simp_all
  then have "int_of_bytes (bytes_of_int (byte_size n) ?x) = ?x"
    using byte_size_bound [of n] assms(3) by (intro int_of_bytes_of_int) linarith+
  then have "rsa_decrypt private_op (rsa_encrypt (n, e) filler m) =
      rsa_unblock (bytes_of_int (length (rsa_block filler m)) (int_of_bytes (rsa_block filler m)))"
    using assms(2,4) by (simp add: rsa_decrypt_def rsa_encrypt_def pow_mod_power)
  then show ?thesis by (simp only: bytes_of_int_of_bytes unblock_block [OF assms(1)])
qed

end
