(* ===== verification/Cosy.thy ===== *)
theory Cosy
  imports Transport GoUrl Md5 Aes Rsa
begin

text \<open>
  \<open>internal/qoder/cosy.go\<close>: the headers that sign a request.  A fresh AES key encrypts who asks,
  the public key of the receiver encrypts the AES key, and an MD5 sum over payload, key, date,
  body and path is the signature.  The random numbers and the clock are drawn from the world.
\<close>

section \<open>AES in CBC mode\<close>

definition xor_bytes :: "string \<Rightarrow> string \<Rightarrow> string" where
  "xor_bytes s t = chars_of (map2 (XOR) (words_of s) (words_of t))"

text \<open>\<open>CryptBlocks\<close> of a CBC encrypter: a block is combined with the cipher text before it.\<close>

fun cbc_encrypt :: "(string \<Rightarrow> string) \<Rightarrow> string \<Rightarrow> string list \<Rightarrow> string list" where
  "cbc_encrypt enc iv [] = []"
| "cbc_encrypt enc iv (b # bs) = (let c = enc (xor_bytes iv b) in c # cbc_encrypt enc c bs)"

definition pad_block :: "string \<Rightarrow> string" where
  "pad_block s = (let pad = 16 - length s mod 16 in s @ replicate pad (char_of pad))"

definition encrypt_aes_cbc :: "string \<Rightarrow> string \<Rightarrow> string + string" where
  "encrypt_aes_cbc plain key =
    (if length key \<noteq> 16 then Inl ''AES-128 key must be 16 bytes''
     else Inr (concat (cbc_encrypt (aes_block key) key (chunks_of 16 (pad_block plain)))))"

section \<open>The signature\<close>

definition signature_path :: "string \<Rightarrow> string option" where
  "signature_path endpoint = map_option (\<lambda>u. trim_prefix (ur_path u) ''/algo'') (url_parse endpoint)"

definition cosy_signature :: "string \<Rightarrow> string \<Rightarrow> string \<Rightarrow> string \<Rightarrow> string \<Rightarrow> string" where
  "cosy_signature payload key date body path =
    hex_encode (md5 (payload @ LF # key @ LF # date @ LF # body @ LF # path))"

section \<open>The headers\<close>

text \<open>\<open>cg_filler n\<close> draws \<open>n\<close> non-zero random bytes; \<open>cg_goos\<close> and
  \<open>cg_goarch\<close> are the constants of package \<open>runtime\<close>; \<open>cg_url_text\<close> and \<open>cg_key_text\<close> are the texts
  of the errors of \<open>url.Parse\<close> and \<open>x509.ParsePKIXPublicKey\<close>.\<close>

record 'w CosySigner =
  cg_now :: "'w \<Rightarrow> int"
  cg_uuid :: "'w \<Rightarrow> (string + string) \<times> 'w"
  cg_filler :: "nat \<Rightarrow> 'w \<Rightarrow> (string + string) \<times> 'w"
  cg_goos :: string
  cg_goarch :: string
  cg_url_text :: "string \<Rightarrow> string"
  cg_key_text :: string

definition json_of_user :: "Account \<Rightarrow> json" where
  "json_of_user a = JObj [(''uid'', JStr (acc_user_id a)), (''security_oauth_token'', JStr (acc_access_token a)),
     (''name'', JStr (acc_name a)), (''aid'', JStr []), (''email'', JStr (acc_email a))]"

definition gateway_version :: string where
  "gateway_version = ''1.1.38''"

definition json_of_payload :: "string \<Rightarrow> string \<Rightarrow> json" where
  "json_of_payload request_id info = JObj [(''version'', JStr ''v1''), (''requestId'', JStr request_id),
     (''info'', JStr info), (''cosyVersion'', JStr gateway_version), (''ideVersion'', JStr [])]"

definition machine_os :: "'w CosySigner \<Rightarrow> string" where
  "machine_os g = (if cg_goos g = ''windows'' then ''x86_64_windows''
     else if cg_goarch g = ''arm64'' then ''aarch64_linux'' else ''x86_64_linux'')"

definition without_dashes :: "string \<Rightarrow> string" where
  "without_dashes s = filter (\<lambda>c. c \<noteq> CHR ''-'') s"

definition header_list ::
  "'w CosySigner \<Rightarrow> Account \<Rightarrow> string \<Rightarrow> string \<Rightarrow> string \<Rightarrow> string \<Rightarrow> string \<Rightarrow> string \<Rightarrow> (string \<times> string) list" where
  "header_list g account body payload key date path xid =
    [(''Authorization'', ''Bearer COSY.'' @ payload @ ''.'' @ cosy_signature payload key date body path),
     (''Cosy-Key'', key), (''Cosy-User'', acc_user_id account), (''Cosy-Date'', date),
     (''Cosy-Version'', gateway_version), (''Cosy-Machineid'', acc_machine_id account),
     (''Cosy-Machinetoken'', acc_machine_id account), (''Cosy-Machinetype'', ''5''),
     (''Cosy-Machineos'', machine_os g), (''Cosy-Clienttype'', ''5''), (''Cosy-Clientip'', ''127.0.0.1''),
     (''Cosy-Bodyhash'', hex_encode (md5 body)), (''Cosy-Bodylength'', show_int (int (length body))),
     (''Cosy-Sigpath'', path), (''Cosy-Data-Policy'', ''disagree''), (''Cosy-Organization-Id'', []),
     (''Cosy-Organization-Tags'', []), (''Login-Version'', ''v2''), (''X-Request-Id'', xid)]"

text \<open>What follows once the AES key is chosen; the error of the last random number is dropped.\<close>

definition encrypt_key ::
  "'w CosySigner \<Rightarrow> string \<Rightarrow> 'w \<Rightarrow> (string + string) \<times> 'w" where
  "encrypt_key g key w =
    (case parse_public_key (cg_key_text g) of
       Inl e \<Rightarrow> (Inl e, w)
     | Inr pub \<Rightarrow>
       (let size = byte_size (fst pub) in
        if length key + 11 > size then (Inl ''crypto/rsa: message too long for RSA key size'', w)
        else (case cg_filler g (size - length key - 3) w of
            (Inl e, w) \<Rightarrow> (Inl e, w)
          | (Inr filler, w) \<Rightarrow> (Inr (rsa_encrypt pub filler key), w))))"

definition cosy_seal ::
  "'w CosySigner \<Rightarrow> string \<Rightarrow> string \<Rightarrow> Account \<Rightarrow> string \<Rightarrow> 'w \<Rightarrow> (string + (string \<times> string) list) \<times> 'w" where
  "cosy_seal g body endpoint account key w =
    (case encrypt_aes_cbc (json_marshal (json_of_user account)) key of
       Inl e \<Rightarrow> (Inl e, w)
     | Inr info \<Rightarrow>
       (case encrypt_key g key w of
          (Inl e, w) \<Rightarrow> (Inl e, w)
        | (Inr key_cipher, w) \<Rightarrow>
          (case cg_uuid g w of
             (Inl e, w) \<Rightarrow> (Inl e, w)
           | (Inr request_id, w) \<Rightarrow>
             (let payload = b64_encode (json_marshal (json_of_payload request_id (b64_encode info)));
                  cosy_key = b64_encode key_cipher;
                  date = show_int (cg_now g w div second)
              in (case signature_path endpoint of
                    None \<Rightarrow> (Inl (cg_url_text g endpoint), w)
                  | Some path \<Rightarrow>
                    (let (x, w) = cg_uuid g w; xid = (case x of Inl _ \<Rightarrow> [] | Inr u \<Rightarrow> u)
                     in (Inr (header_list g account body payload cosy_key date path xid), w)))))))"

definition cosy_headers :: "'w CosySigner \<Rightarrow> 'w signer" where
  "cosy_headers g body endpoint account w =
    (if acc_user_id account = [] \<or> acc_access_token account = []
     then (Inl ''COSY requires user id and access token'', w)
     else (case cg_uuid g w of
         (Inl e, w) \<Rightarrow> (Inl e, w)
       | (Inr uuid, w) \<Rightarrow>
         (let key = without_dashes uuid in
          if length key < 16 then (Inl ''generated UUID is too short'', w)
          else cosy_seal g body endpoint account (take 16 key) w)))"

section \<open>What the receiver can do\<close>

text \<open>The receiver's side: it cuts the authorization, recomputes the signature from the other
  headers and the body, and opens the payload with the AES key.\<close>

definition split_authorization :: "string \<Rightarrow> (string \<times> string) option" where
  "split_authorization a = (if has_prefix a ''Bearer COSY.'' then Some (cut_at (CHR ''.'') (drop 12 a)) else None)"

definition cosy_verify :: "string \<Rightarrow> (string \<times> string) list \<Rightarrow> bool" where
  "cosy_verify body h \<longleftrightarrow> (case split_authorization (get_header h ''Authorization'') of
      None \<Rightarrow> False
    | Some (payload, sig) \<Rightarrow>
      sig = cosy_signature payload (get_header h ''Cosy-Key'') (get_header h ''Cosy-Date'') body
              (get_header h ''Cosy-Sigpath'')
      \<and> get_header h ''Cosy-Bodyhash'' = hex_encode (md5 body)
      \<and> get_header h ''Cosy-Bodylength'' = show_int (int (length body)))"

fun cbc_decrypt :: "(string \<Rightarrow> string) \<Rightarrow> string \<Rightarrow> string list \<Rightarrow> string list" where
  "cbc_decrypt dec iv [] = []"
| "cbc_decrypt dec iv (c # cs) = xor_bytes iv (dec c) # cbc_decrypt dec c cs"

definition unpad_block :: "string \<Rightarrow> string" where
  "unpad_block s = take (length s - of_char (last s)) s"

definition decrypt_aes_cbc :: "string \<Rightarrow> string \<Rightarrow> string" where
  "decrypt_aes_cbc c key = unpad_block (concat (cbc_decrypt (aes_unblock key) key (chunks_of 16 c)))"

definition member_text :: "string \<Rightarrow> string \<Rightarrow> string option" where
  "member_text text k = (case json_parse text of
      JOk (JObj kvs) \<Rightarrow> (case map_of kvs k of Some (JStr s) \<Rightarrow> Some s | _ \<Rightarrow> None)
    | _ \<Rightarrow> None)"

definition open_payload :: "string \<Rightarrow> (string \<times> string) list \<Rightarrow> string option" where
  "open_payload key h =
    Option.bind (split_authorization (get_header h ''Authorization'')) (\<lambda>(payload, sig).
    Option.bind (b64_decode payload) (\<lambda>text.
    Option.bind (member_text text ''info'') (\<lambda>info.
    Option.bind (b64_decode info) (\<lambda>c. Some (decrypt_aes_cbc c key)))))"

text \<open>The receiver has the private key, here as the inverse of the public operation: it opens the
  AES key first.\<close>

definition open_request :: "(int \<Rightarrow> int) \<Rightarrow> (string \<times> string) list \<Rightarrow> string option" where
  "open_request private_op h =
    Option.bind (b64_decode (get_header h ''Cosy-Key'')) (\<lambda>c.
    Option.bind (rsa_decrypt private_op c) (\<lambda>key. open_payload key h))"

section \<open>CBC can be undone\<close>

text \<open>A block cipher with keys and blocks of a fixed size.\<close>

locale block_cipher =
  fixes enc :: "string \<Rightarrow> string \<Rightarrow> string" and dec :: "string \<Rightarrow> string \<Rightarrow> string" and size :: nat
  assumes enc_size: "length k = size \<Longrightarrow> length b = size \<Longrightarrow> length (enc k b) = size"
    and dec_enc: "length k = size \<Longrightarrow> length b = size \<Longrightarrow> dec k (enc k b) = b"
begin

lemma xor_twice: "length a = length b \<Longrightarrow> xor_bytes a (xor_bytes a b) = b"
proof -
  assume "length a = length b"
  then have "map2 (XOR) (words_of a) (map2 (XOR) (words_of a) (words_of b)) = words_of b"
    using add_key_undo [of "words_of a" "words_of b"] by (simp add: add_key_def)
  then show ?thesis by (simp add: xor_bytes_def)
qed

lemma xor_size: "length a = n \<Longrightarrow> length b = n \<Longrightarrow> length (xor_bytes a b) = n"
  by (simp add: xor_bytes_def)

lemma encrypted_sizes:
  "length k = size \<Longrightarrow> length iv = size \<Longrightarrow> list_all (\<lambda>b. length b = size) bs \<Longrightarrow>
   list_all (\<lambda>b. length b = size) (cbc_encrypt (enc k) iv bs)"
  by (induction bs arbitrary: iv) (simp_all add: Let_def xor_size enc_size)

lemma decrypt_encrypt:
  "length k = size \<Longrightarrow> length iv = size \<Longrightarrow> list_all (\<lambda>b. length b = size) bs \<Longrightarrow>
   cbc_decrypt (dec k) iv (cbc_encrypt (enc k) iv bs) = bs"
  by (induction bs arbitrary: iv) (simp_all add: Let_def xor_size xor_twice enc_size dec_enc)

end

interpretation aes: block_cipher aes_block aes_unblock 16
  by unfold_locales (simp_all add: aes_block_undo)

lemma chunks_concat: "list_all (\<lambda>b. length b = n) bs \<Longrightarrow> 0 < n \<Longrightarrow> chunks_of n (concat bs) = bs"
proof (induction bs)
  case Nil
  then show ?case by (simp add: chunks_of.simps)
next
  case (Cons b bs)
  then have "b @ concat bs \<noteq> []" by auto
  with Cons show ?case by (subst chunks_of.simps) simp
qed

lemma concat_chunks: "0 < n \<Longrightarrow> concat (chunks_of n xs) = xs"
proof (induction n xs rule: chunks_of.induct)
  case (1 n xs)
  then show ?case by (subst chunks_of.simps) simp
qed

lemma chunks_size: "n dvd length xs \<Longrightarrow> 0 < n \<Longrightarrow> list_all (\<lambda>b. length b = n) (chunks_of n xs)"
proof (induction n xs rule: chunks_of.induct)
  case (1 n xs)
  show ?case
  proof (cases "xs = []")
    case True
    then show ?thesis by (simp add: chunks_of.simps)
  next
    case False
    with 1(2) have "n \<le> length xs" by (simp add: dvd_imp_le)
    with 1 False show ?thesis by (subst chunks_of.simps) (simp add: dvd_diff_nat)
  qed
qed

lemma pad_size: "16 dvd length (pad_block s)"
proof -
  define q r where "q = length s div 16" and "r = length s mod 16"
  have "length s = 16 * q + r" "r < 16" by (simp_all add: q_def r_def)
  then have "length (pad_block s) = 16 * (q + 1)" by (simp add: pad_block_def Let_def)
  then show ?thesis by (rule dvdI)
qed

lemma unpad_pad: "unpad_block (pad_block s) = s"
proof -
  define pad where "pad = 16 - length s mod 16"
  have "0 < pad" "pad \<le> 16" by (simp_all add: pad_def)
  then have "last (pad_block s) = char_of pad" "of_char (char_of pad :: char) = pad"
    by (simp_all add: pad_block_def Let_def pad_def [symmetric] last_replicate)
  moreover have "pad_block s = s @ replicate pad (char_of pad)" by (simp add: pad_block_def Let_def pad_def)
  ultimately show ?thesis by (simp add: unpad_block_def)
qed

text \<open>The receiver decrypts what \<open>encryptAESCBC\<close> encrypts, whatever the text.\<close>

lemma decrypt_encrypt_aes:
  assumes "encrypt_aes_cbc plain key = Inr c"
  shows "decrypt_aes_cbc c key = plain"
proof -
  let ?bs = "chunks_of 16 (pad_block plain)"
  have key: "length key = 16" and c: "c = concat (cbc_encrypt (aes_block key) key ?bs)"
    using assms by (auto simp: encrypt_aes_cbc_def split: if_splits)
  have bs: "list_all (\<lambda>b. length b = 16) ?bs" using chunks_size [OF pad_size] by simp
  have "cbc_decrypt (aes_unblock key) key (chunks_of 16 c) = ?bs"
    using aes.decrypt_encrypt [OF key key bs] aes.encrypted_sizes [OF key key bs] by (simp add: c chunks_concat)
  then show ?thesis by (simp add: decrypt_aes_cbc_def concat_chunks unpad_pad)
qed

section \<open>Properties\<close>

lemma b64_no_dot: "CHR ''.'' \<notin> set (b64_encode s)"
proof -
  have "CHR ''.'' \<notin> set (standard_alphabet @ ''='')" by code_simp
  then show ?thesis using b64_encode_set by blast
qed

lemma header_list_distinct: "distinct (map fst (header_list g account body payload key date path xid))"
  by (simp add: header_list_def)

lemma header_list_split:
  "split_authorization (get_header (header_list g account body (b64_encode t) key date path xid) ''Authorization'')
   = Some (b64_encode t, cosy_signature (b64_encode t) key date body path)"
proof -
  have "has_prefix (''Bearer COSY.'' @ s) ''Bearer COSY.''" "drop 12 (''Bearer COSY.'' @ s) = s" for s by simp_all
  then show ?thesis
    by (simp add: split_authorization_def header_list_def get_header_def cut_at_first b64_no_dot)
qed

lemma encrypt_key_success:
  assumes "encrypt_key g key w = (Inr c, w')"
  shows "\<exists>filler. cg_filler g (125 - length key) w = (Inr filler, w') \<and> length key \<le> 117 \<and>
    c = rsa_encrypt (public_modulus, 65537) filler key"
  using assms by (auto simp: encrypt_key_def public_key_parsed public_key_size Let_def
      split: if_splits prod.splits sum.splits)

text \<open>A signer that returns headers has gone through all its steps.\<close>

lemma cosy_headers_shape:
  assumes "cosy_headers g body endpoint account w = (Inr h, w')"
  shows "\<exists>uuid info key request_id cosy_key date path xid w1 w2 v v'.
    encrypt_key g key w1 = (Inr cosy_key, w2) \<and> cg_uuid g v = (Inr request_id, v') \<and> cg_uuid g w = (Inr uuid, w1) \<and> key = take 16 (without_dashes uuid) \<and>
    encrypt_aes_cbc (json_marshal (json_of_user account)) key = Inr info \<and>
    signature_path endpoint = Some path \<and>
    h = header_list g account body
          (b64_encode (json_marshal (json_of_payload request_id (b64_encode info)))) (b64_encode cosy_key) date path xid"
  using assms
  by (auto simp: cosy_headers_def cosy_seal_def Let_def split: if_splits sum.splits prod.splits option.splits)

text \<open>
  What the signer sends can be verified.  From the headers of a signed request and its body
  alone the receiver recomputes the signature that the authorization carries, and the hash and
  the length of the body are its own.
\<close>

lemma signed_verifies:
  assumes "cosy_headers g body endpoint account w = (Inr h, w')"
  shows "cosy_verify body h \<and> signature_path endpoint = Some (get_header h ''Cosy-Sigpath'')
    \<and> get_header h ''Cosy-User'' = acc_user_id account"
proof -
  obtain t key date path xid where h: "h = header_list g account body (b64_encode t) key date path xid"
    and p: "signature_path endpoint = Some path"
    using cosy_headers_shape [OF assms] by blast
  show ?thesis
    unfolding cosy_verify_def h header_list_split using p by (simp add: header_list_def get_header_def)
qed

definition sample_signer :: "nat CosySigner" where
  "sample_signer = \<lparr>cg_now = (\<lambda>w. int w), cg_uuid = (\<lambda>w. (Inr (replicate 32 (CHR ''a'')), Suc w)),
     cg_filler = (\<lambda>n w. (Inr (replicate n (CHR 0x01)), w)), cg_goos = ''linux'', cg_goarch = ''amd64'',
     cg_url_text = (\<lambda>_. []), cg_key_text = []\<rparr>"

lemma sample_signs:
  "\<exists>h w'. cosy_headers sample_signer [] ''https://h/algo/x'' (sample_account ''global-u'' ''u'') 0 = (Inr h, w')"
proof -
  have "signature_path ''https://h/algo/x'' = Some ''/x''" by code_simp
  then show ?thesis
    by (simp add: cosy_headers_def cosy_seal_def encrypt_key_def public_key_parsed public_key_size sample_signer_def sample_account_def without_dashes_def
        encrypt_aes_cbc_def Let_def)
qed

definition the_members :: "json \<Rightarrow> (string \<times> json) list" where
  "the_members j = (case j of JObj kvs \<Rightarrow> kvs | _ \<Rightarrow> [])"

lemma ascii_utf8: "list_all (\<lambda>c. of_char c < (0x80 :: nat)) s \<Longrightarrow> valid_utf8 s"
  by (induction s) (subst valid_utf8.simps, simp add: utf8_len_def in_range_def)+

lemma b64_utf8: "valid_utf8 (b64_encode s)"
proof -
  have "list_all (\<lambda>c. of_char c < (0x80 :: nat)) (standard_alphabet @ ''='')" by code_simp
  then have "\<forall>c \<in> set (standard_alphabet @ ''=''). of_char c < (0x80 :: nat)" by (simp only: list_all_iff)
  then have "list_all (\<lambda>c. of_char c < (0x80 :: nat)) (b64_encode s)"
    using b64_encode_set [of s] unfolding list_all_iff by blast
  then show ?thesis by (rule ascii_utf8)
qed

text \<open>With the AES key, the payload of the authorization opens to the user's JSON object.\<close>

lemma payload_opens:
  assumes "cosy_headers g body endpoint account w = (Inr h, w')" and "text_account account"
    and "\<And>v u v'. cg_uuid g v = (Inr u, v') \<Longrightarrow> valid_utf8 u"
  shows "\<exists>uuid w1 text. cg_uuid g w = (Inr uuid, w1) \<and>
    open_payload (take 16 (without_dashes uuid)) h = Some text \<and>
    member_text text ''uid'' = Some (acc_user_id account) \<and>
    member_text text ''security_oauth_token'' = Some (acc_access_token account)"
proof -
  obtain uuid info key rid cosy_key date path xid w1 v v' where r: "cg_uuid g v = (Inr rid, v')" and u: "cg_uuid g w = (Inr uuid, w1)"
    "key = take 16 (without_dashes uuid)"
    and e: "encrypt_aes_cbc (json_marshal (json_of_user account)) key = Inr info"
    and h: "h = header_list g account body
          (b64_encode (json_marshal (json_of_payload rid (b64_encode info)))) (b64_encode cosy_key) date path xid"
    using cosy_headers_shape [OF assms(1)] by blast
  have "list_all valid_utf8 (map fst (the_members (json_of_user account)) @
      map fst (the_members (json_of_payload [] [])) @ [''v1'', gateway_version, []])" by code_simp
  then have ok: "json_ok 0 (json_of_user account)" "json_ok 0 (json_of_payload rid (b64_encode info))"
    using assms(2) assms(3) [OF r]
    by (simp_all add: json_of_user_def json_of_payload_def text_account_def b64_utf8 the_members_def)
  have "open_payload key h = Some (json_marshal (json_of_user account))"
    using decrypt_encrypt_aes [OF e] json_parse_marshal(1) [OF ok(2)]
    by (simp add: open_payload_def h header_list_split b64_decode_encode member_text_def json_of_payload_def)
  with u json_parse_marshal(1) [OF ok(1)] show ?thesis
    by (auto simp: member_text_def json_of_user_def)
qed

text \<open>What the private key undoes, for the keys and random bytes that the signer draws.\<close>

definition undoes :: "(int \<Rightarrow> int) \<Rightarrow> 'w CosySigner \<Rightarrow> bool" where
  "undoes private_op g \<longleftrightarrow> (\<forall>u uuid u' n v filler v'. cg_uuid g u = (Inr uuid, u') \<longrightarrow> cg_filler g n v = (Inr filler, v') \<longrightarrow>
     length filler = n \<and> CHR 0x00 \<notin> set filler \<and>
     (let block = int_of_bytes (rsa_block filler (take 16 (without_dashes uuid)))
      in n = 109 \<longrightarrow> private_op (block ^ 65537 mod public_modulus) = block))"

lemma key_opens:
  assumes "encrypt_key g (take 16 (without_dashes uuid)) w = (Inr c, w')" and "cg_uuid g u = (Inr uuid, u')"
    and "16 \<le> length (without_dashes uuid)" and "undoes private_op g"
  shows "rsa_decrypt private_op c = Some (take 16 (without_dashes uuid))"
proof -
  let ?key = "take 16 (without_dashes uuid)"
  obtain filler where f: "cg_filler g 109 w = (Inr filler, w')" and c: "c = rsa_encrypt (public_modulus, 65537) filler ?key"
    using encrypt_key_success [OF assms(1)] assms(3) by auto
  have u: "length filler = 109" "CHR 0x00 \<notin> set filler"
    "private_op (int_of_bytes (rsa_block filler ?key) ^ nat 65537 mod public_modulus) = int_of_bytes (rsa_block filler ?key)"
    using assms(4) assms(2) f unfolding undoes_def Let_def by (simp, blast)+
  have "length (rsa_block filler ?key) = byte_size public_modulus"
    using u(1) assms(3) by (simp add: rsa_block_def public_key_size)
  moreover have "0 < public_modulus" by (simp add: public_modulus_def)
  ultimately show ?thesis unfolding c by (intro rsa_decrypt_encrypt u) assumption+
qed

text \<open>
  C22: the receiver needs its private key and nothing else.  From the headers of a signed request
  it decrypts the AES key and with it the payload, which parses to the user and the token of the
  account; and the signature over the same headers and the body is the one that it computes.
\<close>

theorem request_opens:
  assumes "cosy_headers g body endpoint account w = (Inr h, w')" and "text_account account"
    and "\<And>v u v'. cg_uuid g v = (Inr u, v') \<Longrightarrow> valid_utf8 u" and "undoes private_op g"
  shows "cosy_verify body h \<and> (\<exists>text. open_request private_op h = Some text
    \<and> member_text text ''uid'' = Some (acc_user_id account)
    \<and> member_text text ''security_oauth_token'' = Some (acc_access_token account))"
proof -
  obtain t uuid key c date path xid w1 w2 w3 where e: "encrypt_key g key w2 = (Inr c, w3)"
    and u: "cg_uuid g w = (Inr uuid, w1)" "key = take 16 (without_dashes uuid)"
    and h: "h = header_list g account body (b64_encode t) (b64_encode c) date path xid"
    using cosy_headers_shape [OF assms(1)] by blast
  have "16 \<le> length (without_dashes uuid)"
    using assms(1) u(1) by (auto simp: cosy_headers_def Let_def split: if_splits)
  with key_opens e u assms(4) have "rsa_decrypt private_op c = Some key" by metis
  moreover have "get_header h ''Cosy-Key'' = b64_encode c" by (simp add: h header_list_def get_header_def)
  ultimately have "open_request private_op h = open_payload key h"
    by (simp add: open_request_def b64_decode_encode)
  with payload_opens [OF assms(1,2,3)] u signed_verifies [OF assms(1)] show ?thesis by auto
qed

theorem request_opens_witness:
  "\<exists>h w' text. cosy_headers sample_signer [] ''https://h/algo/x'' (sample_account ''global-u'' ''u'') 0 = (Inr h, w')
    \<and> open_request (\<lambda>_. int_of_bytes (rsa_block (replicate 109 (CHR 0x01)) (replicate 16 (CHR ''a'')))) h = Some text
    \<and> member_text text ''uid'' = Some ''u''"
proof -
  let ?op = "\<lambda>_. int_of_bytes (rsa_block (replicate 109 (CHR 0x01)) (replicate 16 (CHR ''a'')))"
  obtain h w' where h: "cosy_headers sample_signer [] ''https://h/algo/x'' (sample_account ''global-u'' ''u'') 0 = (Inr h, w')"
    using sample_signs by blast
  have "\<And>v u v'. cg_uuid sample_signer v = (Inr u, v') \<Longrightarrow> valid_utf8 u"
    by (auto simp: sample_signer_def list_all_iff intro!: ascii_utf8)
  moreover have "undoes ?op sample_signer"
    by (simp add: undoes_def sample_signer_def without_dashes_def Let_def)
  ultimately show ?thesis
    using request_opens [OF h] sample_text h by (fastforce simp: sample_account_def)
qed

end
