(* ===== verification/DeviceLogin.thy ===== *)
theory DeviceLogin
  imports Auth Encoding GoUrl Sha256
begin

text \<open>
  \<open>BeginDeviceFlow\<close> of \<open>internal/qoder/auth.go\<close>: the links of the browser login with their
  proof key.  The random bytes are arguments; \<open>None\<close> is a failing random source.
\<close>

section \<open>The links\<close>

text \<open>\<open>base64.RawURLEncoding\<close>: the alphabet for URLs, without padding.\<close>

definition raw_url_base64 :: "string \<Rightarrow> string" where
  "raw_url_base64 s =
    map (\<lambda>c. if c = CHR ''+'' then CHR ''-'' else if c = CHR ''/'' then CHR ''_'' else c)
      (filter (\<lambda>c. c \<noteq> CHR ''='') (b64_encode s))"

definition login_values :: "string \<Rightarrow> string \<Rightarrow> string \<Rightarrow> (string \<times> string) list" where
  "login_values challenge nonce machine =
    [(''challenge'', challenge), (''challenge_method'', ''S256''), (''nonce'', nonce), (''machine_id'', machine),
     (''client_id'', ''e883ade2-e6e3-4d6d-adf7-f92ceff5fdcb'')]"

definition poll_values :: "string \<Rightarrow> string \<Rightarrow> (string \<times> string) list" where
  "poll_values verifier nonce =
    [(''nonce'', nonce), (''verifier'', verifier), (''challenge_method'', ''S256'')]"

definition begin_device_flow ::
  "string \<Rightarrow> string option \<Rightarrow> string option \<Rightarrow> string option \<Rightarrow> auth_error + DeviceFlow" where
  "begin_device_flow region verifier_bytes nonce_bytes machine_bytes =
    (if region \<noteq> ''global'' then Inl RegionNotForDevice
     else
      (let ep = endpoints_or_zero region in
       case verifier_bytes of
         None \<Rightarrow> Inl RandomFailed
       | Some b \<Rightarrow>
         (let verifier = raw_url_base64 b; challenge = raw_url_base64 (sha256 verifier) in
          case random_uuid nonce_bytes of
            None \<Rightarrow> Inl RandomFailed
          | Some nonce \<Rightarrow>
            (case random_uuid machine_bytes of
               None \<Rightarrow> Inl RandomFailed
             | Some machine \<Rightarrow>
               Inr \<lparr>df_verification_url = ep_device_login ep @ ''?'' @ encode_values (login_values challenge nonce machine),
                    df_poll_url = ep_device_poll ep @ ''?'' @ encode_values (poll_values verifier nonce),
                    df_machine_id = machine\<rparr>))))"

section \<open>What the other side reads\<close>

definition query_value :: "string \<Rightarrow> string \<Rightarrow> string option" where
  "query_value url k = Option.bind (decode_values (snd (cut_at (CHR ''?'') url))) (\<lambda>kvs. map_of kvs k)"

lemma map_of_sort_values:
  assumes "distinct (map fst vs)"
  shows "map_of (sort_values vs) = map_of vs"
proof -
  have "distinct (map fst (sort_values vs))"
    using assms by (simp add: sort_values_def distinct_map)
  then have "map_of (sort_values vs) k = Some v \<longleftrightarrow> map_of vs k = Some v" for k v
    using assms by (simp add: sort_values_def)
  then show ?thesis by (metis (no_types) ext not_Some_eq)
qed

lemma query_value_encoded:
  assumes "CHR ''?'' \<notin> set base" and "distinct (map fst vs)" and "vs \<noteq> []"
  shows "query_value (base @ ''?'' @ encode_values vs) k = map_of vs k"
  using assms by (simp add: query_value_def cut_at_first decode_encode_values map_of_sort_values)

lemma device_bases:
  "CHR ''?'' \<notin> set (ep_device_login (endpoints_or_zero ''global''))"
  "CHR ''?'' \<notin> set (ep_device_poll (endpoints_or_zero ''global''))"
  by code_simp+

lemma format_uuid_nonempty: "format_uuid b \<noteq> []"
  by (simp add: format_uuid_def Let_def)

text \<open>
  C28: the browser login keeps its proof key to itself.  Whoever reads the two links finds the
  same nonce in both; the link for the browser carries the SHA-256 sum of the verifier that
  only the poll carries, and the machine that the account will name.
\<close>

theorem device_flow_proof_key:
  assumes "begin_device_flow region rv rn rm = Inr flow"
  shows "\<exists>verifier nonce. query_value (df_poll_url flow) ''verifier'' = Some verifier
     \<and> query_value (df_verification_url flow) ''challenge'' = Some (raw_url_base64 (sha256 verifier))
     \<and> query_value (df_verification_url flow) ''verifier'' = None
     \<and> query_value (df_verification_url flow) ''nonce'' = Some nonce \<and> query_value (df_poll_url flow) ''nonce'' = Some nonce
     \<and> query_value (df_verification_url flow) ''machine_id'' = Some (df_machine_id flow) \<and> df_machine_id flow \<noteq> []"
proof -
  obtain b n m where flow: "flow = \<lparr>df_verification_url = ep_device_login (endpoints_or_zero ''global'') @ ''?'' @
        encode_values (login_values (raw_url_base64 (sha256 (raw_url_base64 b))) n (format_uuid m)),
      df_poll_url = ep_device_poll (endpoints_or_zero ''global'') @ ''?'' @ encode_values (poll_values (raw_url_base64 b) n),
      df_machine_id = format_uuid m\<rparr>"
    using assms by (auto simp: begin_device_flow_def Let_def random_uuid_def split: if_splits option.splits)
  have l: "query_value (df_verification_url flow) k = map_of (login_values (raw_url_base64 (sha256 (raw_url_base64 b))) n (format_uuid m)) k"
    and p: "query_value (df_poll_url flow) k = map_of (poll_values (raw_url_base64 b) n) k" for k
    unfolding flow DeviceFlow.simps
    by (rule query_value_encoded; simp add: device_bases login_values_def poll_values_def)+
  show ?thesis
    unfolding l p by (simp add: login_values_def poll_values_def flow format_uuid_nonempty)
qed

theorem device_flow_proof_key_witness:
  "\<exists>flow. begin_device_flow ''global'' (Some (replicate 32 (CHR 0x00))) (Some (replicate 16 (CHR 0x00))) (Some (replicate 16 (CHR 0x00))) = Inr flow
     \<and> df_machine_id flow \<noteq> []"
proof -
  obtain flow where "begin_device_flow ''global'' (Some (replicate 32 (CHR 0x00))) (Some (replicate 16 (CHR 0x00)))
      (Some (replicate 16 (CHR 0x00))) = Inr flow"
    by (simp add: begin_device_flow_def Let_def random_uuid_def)
  with device_flow_proof_key [OF this] show ?thesis by blast
qed


end
