(* ===== verification/Requests.thy ===== *)
theory Requests
  imports Cosy
begin

text \<open>
  What the upstream gets: properties of the requests that the transports of theory \<open>Transport\<close>
  send, with the signer of theory \<open>Cosy\<close>.
\<close>

section \<open>The COSY request\<close>

lemma get_fold_set:
  "k \<notin> set (map fst kvs) \<Longrightarrow> get_header (fold (\<lambda>(k, v). set_header k v) kvs h) k = get_header h k"
  by (induction kvs arbitrary: h) auto

lemma verify_other_headers:
  assumes "\<And>k. k \<in> {''Authorization'', ''Cosy-Key'', ''Cosy-Date'', ''Cosy-Sigpath'', ''Cosy-Bodyhash'', ''Cosy-Bodylength''}
    \<Longrightarrow> get_header h' k = get_header h k"
  shows "cosy_verify body h' = cosy_verify body h"
  unfolding cosy_verify_def using assms by (simp cong: option.case_cong)

text \<open>
  C5: a COSY request can be checked and read by its receiver.  The headers carry the signature of
  the very body and path that are sent, and decoding the body gives the JSON text of the
  request.
\<close>

theorem cosy_request_signed:
  assumes "cosy_request flt tools_text (cosy_headers g) account req model rid now w = (Inr rq, w')"
  shows "cosy_verify (rq_body rq) (rq_headers rq)
    \<and> signature_path (rq_url rq) = Some (get_header (rq_headers rq) ''Cosy-Sigpath'')
    \<and> decode_body (rq_body rq) = Inr (json_marshal (marshal_map (cosy_body flt tools_text account req model rid now)))"
proof -
  define enc where "enc = encode_body (json_marshal (marshal_map (cosy_body flt tools_text account req model rid now)))"
  define url where "url = ep_cosy_chat (endpoints_or_zero (acc_region account))"
  obtain h w1 where h: "cosy_headers g enc url account w = (Inr h, w1)"
    and rq: "rq_body rq = enc" "rq_url rq = url" "rq_headers rq = fold (\<lambda>(k, v). set_header k v)
       [(''Content-Type'', ''application/json''), (''Accept'', ''text/event-stream''),
        (''Cache-Control'', ''no-cache''), (''Accept-Encoding'', ''identity''),
        (''X-Model-Key'', md_upstream_key model),
        (''X-Model-Source'', if md_source model = [] then ''system'' else md_source model)] h"
    using assms by (auto simp: cosy_request_def Let_def enc_def url_def split: prod.splits sum.splits if_splits)
  have same: "get_header (rq_headers rq) k = get_header h k"
    if "k \<in> {''Authorization'', ''Cosy-Key'', ''Cosy-Date'', ''Cosy-Sigpath'', ''Cosy-Bodyhash'', ''Cosy-Bodylength''}" for k
    unfolding rq(3) using that by (intro get_fold_set) auto
  have "cosy_verify enc (rq_headers rq)"
    using signed_verifies [OF h] verify_other_headers [of "rq_headers rq" h enc] same by blast
  moreover have "decode_body enc = Inr (json_marshal (marshal_map (cosy_body flt tools_text account req model rid now)))"
    unfolding enc_def by (rule body_decodes)
  ultimately show ?thesis using signed_verifies [OF h] same by (simp add: rq(1,2))
qed

definition plain_request :: ChatRequest where
  "plain_request = \<lparr>cr_raw = [(''max_tokens'', jint 100), (''user'', JStr ''x'')], cr_model = ''lite'',
     cr_messages = [JObj [(''role'', JStr ''user''), (''content'', JStr ''hi'')]],
     cr_tools = None, cr_stream = False, cr_include_usage = False, cr_session_key = []\<rparr>"

theorem cosy_request_signed_witness:
  "\<exists>rq w'. cosy_request Some [] (cosy_headers sample_signer) (sample_account ''global-u'' ''u'') plain_request lite_model [] 0 0
      = (Inr rq, w') \<and> cosy_verify (rq_body rq) (rq_headers rq)"
proof -
  let ?url = "ep_cosy_chat (endpoints_or_zero ''global'')"
  have "signature_path ?url = Some ''/api/v2/service/pro/sse/agent_chat_generation''" by code_simp
  then have "\<exists>h v. cosy_headers sample_signer body ?url (sample_account ''global-u'' ''u'') 0 = (Inr h, v)" for body
    by (simp add: cosy_headers_def cosy_seal_def encrypt_key_def public_key_parsed public_key_size sample_signer_def sample_account_def without_dashes_def
        encrypt_aes_cbc_def Let_def)
  then obtain h v where "cosy_headers sample_signer (encode_body (json_marshal (marshal_map (cosy_body Some []
      (sample_account ''global-u'' ''u'') plain_request lite_model [] 0)))) ?url (sample_account ''global-u'' ''u'') 0 = (Inr h, v)"
    by blast
  moreover have "any_ok Some (md_raw_config lite_model)" by (simp add: lite_model_def jint_def)
  moreover have "acc_region (sample_account ''global-u'' ''u'') = ''global''" by (simp add: sample_account_def)
  ultimately obtain rq w' where r: "cosy_request Some [] (cosy_headers sample_signer) (sample_account ''global-u'' ''u'')
      plain_request lite_model [] 0 0 = (Inr rq, w')"
    by (simp add: cosy_request_def Let_def del: any_ok.simps)
  with cosy_request_signed [OF r] show ?thesis by blast
qed

section \<open>The Bearer request\<close>

lemma map_of_filtered:
  "distinct ks \<Longrightarrow> map_of (List.map_filter (\<lambda>k. map_option (\<lambda>v. (k, v)) (m k)) ks) x = (if x \<in> set ks then m x else None)"
  by (induction ks) (auto simp: map_filter_simps split: option.splits)

lemma bearer_distinct: "distinct bearer_allowed" by code_simp

lemma bearer_metadata:
  "\<exists>ctx. map_of (bearer_body req model rid sid) ''metadata'' = Some (JObj [(''context'', JObj ctx)])
     \<and> distinct (map fst ctx)
     \<and> set ctx = {(''request_id'', JStr rid), (''request_set_id'', JStr rid), (''session_id'', JStr sid),
          (''task_id'', JStr ''common''), (''client_type'', JStr ''qodercli'')}"
proof (intro exI conjI)
  let ?ctx = "[(''client_type'', JStr ''qodercli''), (''request_id'', JStr rid), (''request_set_id'', JStr rid),
    (''session_id'', JStr sid), (''task_id'', JStr ''common'')]"
  show "map_of (bearer_body req model rid sid) ''metadata'' = Some (JObj [(''context'', JObj ?ctx)])"
    by (simp add: bearer_body_def Let_def update_conv')
qed auto

lemma bearer_members:
  "map_of (bearer_body req model rid sid) ''stream'' = Some (JBool True)
   \<and> map_of (bearer_body req model rid sid) ''stream_options'' = Some (JObj [(''include_usage'', JBool True)])
   \<and> map_of (bearer_body req model rid sid) ''model'' = Some (JStr (md_upstream_key model))
   \<and> (\<forall>k. k \<notin> {''model'', ''stream'', ''stream_options'', ''metadata''} \<longrightarrow>
        map_of (bearer_body req model rid sid) k = (if k \<in> set bearer_allowed then map_of (cr_raw req) k else None))"
  using map_of_filtered [OF bearer_distinct, of "map_of (cr_raw req)"]
  by (simp add: bearer_body_def Let_def update_conv' bearer_allowed_def)

text \<open>
  C29: the Bearer transport forwards what it knows and nothing else.  The stream is always
  asked for with its usage, the model is the upstream's name, the metadata are the proxy's own
  with the two identifiers of the request, whatever metadata the client sent; the members of the
  allow-list are handed on as the client sent them, but for the options of the stream; and no
  other member of the client's request is sent.
\<close>

theorem bearer_forwards_allowed:
  "map_of (bearer_body req model rid sid) ''stream'' = Some (JBool True)
   \<and> map_of (bearer_body req model rid sid) ''stream_options'' = Some (JObj [(''include_usage'', JBool True)])
   \<and> map_of (bearer_body req model rid sid) ''model'' = Some (JStr (md_upstream_key model))
   \<and> (\<exists>ctx. map_of (bearer_body req model rid sid) ''metadata'' = Some (JObj [(''context'', JObj ctx)])
        \<and> distinct (map fst ctx)
        \<and> set ctx = {(''request_id'', JStr rid), (''request_set_id'', JStr rid), (''session_id'', JStr sid),
             (''task_id'', JStr ''common''), (''client_type'', JStr ''qodercli'')})
   \<and> (\<forall>k. k \<notin> {''model'', ''stream'', ''stream_options'', ''metadata''} \<longrightarrow>
        map_of (bearer_body req model rid sid) k = (if k \<in> set bearer_allowed then map_of (cr_raw req) k else None))"
  using bearer_members [of req model rid sid] bearer_metadata [of req model rid sid] by (elim conjE) (intro conjI)

definition metadata_request :: ChatRequest where
  "metadata_request = plain_request\<lparr>cr_raw := (''metadata'', JStr ''mine'') # cr_raw plain_request\<rparr>"

theorem bearer_forwards_allowed_witness:
  "map_of (bearer_body metadata_request lite_model [] []) ''max_tokens'' = Some (jint 100)
   \<and> map_of (bearer_body metadata_request lite_model [] []) ''user'' = None
   \<and> map_of (bearer_body metadata_request lite_model [] []) ''metadata'' \<noteq> Some (JStr ''mine'')"
proof -
  note sent = bearer_forwards_allowed [of metadata_request lite_model "[]" "[]"]
  have raw: "map_of (cr_raw metadata_request) ''max_tokens'' = Some (jint 100)"
    by (simp add: metadata_request_def plain_request_def)
  have "''max_tokens'' \<in> set bearer_allowed" "''user'' \<notin> set bearer_allowed" by (simp_all add: bearer_allowed_def)
  moreover have "\<forall>k. k \<notin> {''model'', ''stream'', ''stream_options'', ''metadata''} \<longrightarrow>
      map_of (bearer_body metadata_request lite_model [] []) k =
      (if k \<in> set bearer_allowed then map_of (cr_raw metadata_request) k else None)" using sent by blast
  ultimately have "map_of (bearer_body metadata_request lite_model [] []) ''max_tokens'' = Some (jint 100)"
    "map_of (bearer_body metadata_request lite_model [] []) ''user'' = None" using raw by simp_all
  moreover have "map_of (bearer_body metadata_request lite_model [] []) ''metadata'' \<noteq> Some (JStr ''mine'')"
  proof -
    have "\<exists>ctx. map_of (bearer_body metadata_request lite_model [] []) ''metadata'' =
        Some (JObj [(''context'', JObj ctx)])" using sent by blast
    then show ?thesis by (elim exE) simp
  qed
  ultimately show ?thesis by blast
qed

section \<open>Limits\<close>

text \<open>
  The COSY transport asks for at least one and at most 32768 tokens, and for no more than
  a positive limit of the client, under either of its names.
\<close>

lemma max_tokens_bounds:
  "1 \<le> max_tokens_of req \<and> max_tokens_of req \<le> 32768
   \<and> (\<forall>k \<in> {''max_tokens'', ''max_completion_tokens''}. \<forall>v.
        unmarshal_opt dec_int 0 (map_of (cr_raw req) k) = Some v \<and> v > 0 \<longrightarrow> max_tokens_of req \<le> v)
   \<and> map_of (cosy_parameters req) ''max_tokens'' = Some (jint (max_tokens_of req))"
  by (auto simp: max_tokens_of_def cosy_parameters_def Let_def update_conv' split: option.splits)

lemma max_tokens_bounds_witness: "max_tokens_of plain_request \<le> 100"
proof -
  have "unmarshal_opt dec_int 0 (map_of (cr_raw plain_request) ''max_tokens'') = Some 100" by code_simp
  with max_tokens_bounds [of plain_request] show ?thesis by simp
qed

section \<open>Capabilities\<close>

text \<open>Whether a message shows an image.\<close>

definition shows_image :: "json \<Rightarrow> bool" where
  "shows_image raw = (case dec_message raw zero_message of
      None \<Rightarrow> False
    | Some m \<Rightarrow>
      (case cm_content m of
         None \<Rightarrow> False
       | Some c \<Rightarrow> c \<noteq> JNull \<and> dec_string c [] = None \<and>
           (case dec_list dec_part zero_part c [] of
              None \<Rightarrow> False
            | Some parts \<Rightarrow> list_ex (\<lambda>p. cp_type p = ''image_url'') parts)))"

definition fit_message :: "json \<Rightarrow> bool" where
  "fit_message raw = (case dec_message raw zero_message of
      None \<Rightarrow> False
    | Some m \<Rightarrow> cm_role m \<in> set supported_roles \<and> (cm_role m = ''tool'' \<longrightarrow> cm_tool_call_id m \<noteq> []))"

lemma check_parts_seen:
  "check_parts i ps seen = Inr seen' \<Longrightarrow> seen' = (seen \<or> list_ex (\<lambda>p. cp_type p = ''image_url'') ps)"
  by (induction i ps seen rule: check_parts.induct) (auto split: if_splits)

lemma check_message_seen:
  "check_message i raw seen = Inr seen' \<Longrightarrow> fit_message raw \<and> seen' = (seen \<or> shows_image raw)"
  by (auto simp: check_message_def fit_message_def shows_image_def dest: check_parts_seen
      split: option.splits if_splits)

lemma check_messages_seen:
  "check_messages i raws seen = Inr seen' \<Longrightarrow>
   list_all fit_message raws \<and> seen' = (seen \<or> list_ex shows_image raws)"
proof (induction i raws seen rule: check_messages.induct)
  case (2 i raw raws seen)
  then obtain s where s: "check_message i raw seen = Inr s" and r: "check_messages (Suc i) raws s = Inr seen'"
    by (cases "check_message i raw seen") (auto simp: rbind_def)
  with 2(1) [OF r] check_message_seen [OF s] show ?case by auto
qed simp

text \<open>
  A request that passes the check fits the model.  All its messages have one of the four
  roles, a tool's answer names its call, and images and thinking go only to a model that offers
  them; otherwise the request is refused before anything is sent.
\<close>

lemma accepted_fits_model:
  assumes "validate_capabilities req model = None"
  shows "list_all fit_message (cr_messages req)
    \<and> (list_ex shows_image (cr_messages req) \<longrightarrow> md_is_vl model)
    \<and> (map_of (cr_raw req) ''enable_thinking'' = Some (JBool True) \<longrightarrow> md_is_reasoning model)"
proof -
  obtain seen where c: "check_messages 0 (cr_messages req) False = Inr seen"
    and v: "seen \<longrightarrow> md_is_vl model" and t: "check_thinking req model = None"
    using assms by (auto simp: validate_capabilities_def split: sum.splits if_splits)
  have "map_of (cr_raw req) ''enable_thinking'' = Some (JBool True) \<longrightarrow> md_is_reasoning model"
    using t by (auto simp: check_thinking_def Let_def split: option.splits if_splits)
  with check_messages_seen [OF c] v show ?thesis by simp
qed

lemma accepted_fits_model_witness: "list_all fit_message (cr_messages plain_request)"
proof -
  have names: "list_all plain_name [''role'', ''content'', ''tool_call_id'', ''tool_calls'']" by code_simp
  then have "dec_message (JObj [(''role'', JStr ''user''), (''content'', JStr ''hi'')]) zero_message =
      Some (zero_message\<lparr>cm_role := ''user'', cm_content := Some (JStr ''hi'')\<rparr>)"
    by (simp add: dec_message_def dec_struct_def key_is_plain zero_message_def)
  then have "check_messages 0 (cr_messages plain_request) False = Inr False"
    by (simp add: plain_request_def check_message_def supported_roles_def rbind_def)
  then have "validate_capabilities plain_request lite_model = None"
    by (simp add: validate_capabilities_def check_thinking_def plain_request_def)
  from accepted_fits_model [OF this] show ?thesis by blast
qed

end
