(* ===== verification/HttpClient.thy ===== *)
theory HttpClient
  imports Protocol Config GoUrl
begin

text \<open>
  \<open>internal/qoder/http.go\<close>: the client that all requests go through.  What is behind it, the
  network, is given the settings of the transport; the program's own part is the choice of the
  settings, the guard in front of the network, and what \<open>http.Client\<close> does with the answer:
  redirects are handed to the caller and errors name the request.  The deadlines of contexts are
  a linear order, as \<open>withTotalTimeout\<close> uses them.
\<close>

section \<open>Deadlines\<close>

datatype deadline = At int | Never

instantiation deadline :: linorder
begin

definition less_eq_deadline :: "deadline \<Rightarrow> deadline \<Rightarrow> bool" where
  "less_eq_deadline x y = (case (x, y) of (_, Never) \<Rightarrow> True | (Never, At _) \<Rightarrow> False | (At m, At n) \<Rightarrow> m \<le> n)"

definition less_deadline :: "deadline \<Rightarrow> deadline \<Rightarrow> bool" where
  "less_deadline x y \<longleftrightarrow> x \<le> y \<and> x \<noteq> (y :: deadline)"

instance
  by standard (auto simp: less_eq_deadline_def less_deadline_def split: deadline.splits)

end

text \<open>\<open>context.WithTimeout\<close>: the earlier one of the parent's deadline and the new one.\<close>

definition with_timeout :: "deadline \<Rightarrow> int \<Rightarrow> duration \<Rightarrow> deadline" where
  "with_timeout parent now d = min parent (At (now + d))"

definition with_total_timeout :: "deadline \<Rightarrow> int \<Rightarrow> duration \<Rightarrow> deadline" where
  "with_total_timeout parent now d = (if d \<le> 0 then parent else with_timeout parent now d)"

text \<open>A context never outlives the one that it is made from.\<close>

lemma total_timeout_earlier: "with_total_timeout parent now d \<le> parent"
  by (simp add: with_total_timeout_def with_timeout_def)

lemma total_timeout_later: "0 < d \<Longrightarrow> parent = Never \<Longrightarrow> with_total_timeout parent now d = At (now + d)"
  by (simp add: with_total_timeout_def with_timeout_def min_def less_eq_deadline_def)

section \<open>Settings of the transport\<close>

datatype proxy_rule = FromEnvironment | ProxyUrl URL

record HttpTransport =
  ht_dial_timeout :: duration
  ht_keep_alive :: duration
  ht_proxy :: proxy_rule
  ht_force_http2 :: bool
  ht_max_idle :: int
  ht_max_idle_per_host :: int
  ht_idle_timeout :: duration
  ht_tls_timeout :: duration
  ht_header_timeout :: duration

definition http_transport :: "Config \<Rightarrow> HttpTransport" where
  "http_transport cfg = \<lparr>ht_dial_timeout = cf_connect_timeout cfg, ht_keep_alive = 30 * second,
     ht_proxy = FromEnvironment, ht_force_http2 = True, ht_max_idle = 32, ht_max_idle_per_host = 8,
     ht_idle_timeout = 90 * second, ht_tls_timeout = 10 * second, ht_header_timeout = cf_response_timeout cfg\<rparr>"

type_synonym 'w network = "HttpTransport \<Rightarrow> 'w http"

section \<open>The client\<close>

text \<open>The error of a client starts with the method and the URL.  The program's URLs are
  printable, so that \<open>%q\<close> only puts quotes around them.\<close>

definition method_title :: "string \<Rightarrow> string" where
  "method_title m = (if m = [] then ''Get'' else hd m # map lower_letter (tl m))"

definition url_error :: "HttpRequest \<Rightarrow> string \<Rightarrow> string" where
  "url_error rq e = method_title (rq_method rq) @ '' '' @ CHR 0x22 # rq_url rq @ CHR 0x22 # '': '' @ e"

definition redirects :: "HttpResponse \<Rightarrow> bool" where
  "redirects r \<longleftrightarrow> rs_status r \<in> {301, 302, 303, 307, 308} \<and> get_header (rs_headers r) ''Location'' \<noteq> []"

text \<open>\<open>http.Client.Do\<close> with a \<open>CheckRedirect\<close> that always wants the last response: the target of
  a redirect is parsed and then left alone.  \<open>location_text\<close> is the text of the error for a
  target that does not parse.\<close>

definition client_do :: "(string \<Rightarrow> string) \<Rightarrow> 'w http \<Rightarrow> 'w http" where
  "client_do location_text transport rq w =
    (case transport rq w of
       (Inl e, w) \<Rightarrow> (Inl (url_error rq e), w)
     | (Inr r, w) \<Rightarrow>
       (let loc = get_header (rs_headers r) ''Location'' in
        if redirects r \<and> url_parse loc = None then (Inl (url_error rq (location_text loc)), w)
        else (Inr r, w)))"

datatype client_error = BadProxyUrl | SocksProxy

definition new_http_client :: "(string \<Rightarrow> string) \<Rightarrow> Config \<Rightarrow> 'w network \<Rightarrow> client_error + 'w http" where
  "new_http_client location_text cfg net =
    (let t = http_transport cfg; client = (\<lambda>t. client_do location_text (host_guard (net t))) in
     if cf_proxy_url cfg = [] then Inr (client t)
     else (case url_parse (cf_proxy_url cfg) of
         None \<Rightarrow> Inl BadProxyUrl
       | Some u \<Rightarrow>
         if ur_scheme u = ''socks5'' then Inl SocksProxy else Inr (client (t\<lparr>ht_proxy := ProxyUrl u\<rparr>))))"

section \<open>What the client does\<close>

lemma new_http_client_shape:
  "new_http_client location_text cfg net = Inr http \<Longrightarrow>
   \<exists>t. http = client_do location_text (host_guard (net t)) \<and>
     ht_dial_timeout t = cf_connect_timeout cfg \<and> ht_header_timeout t = cf_response_timeout cfg \<and>
     (ht_proxy t = FromEnvironment \<longleftrightarrow> cf_proxy_url cfg = [])"
  by (auto simp: new_http_client_def http_transport_def Let_def split: option.splits if_splits)

lemma client_answer:
  "client_do location_text transport rq w = (Inr r, w') \<Longrightarrow> transport rq w = (Inr r, w')"
  by (auto simp: client_do_def Let_def split: prod.splits sum.splits if_splits)

text \<open>A redirect is an answer like any other: the world after the request is the world after
  one exchange with the network, or the world before when the host is not on the list.\<close>

lemma one_exchange:
  "snd (client_do location_text (host_guard net) rq w) =
    (if hostname (rq_url rq) \<in> set allowed_upstream_hosts then snd (net rq w) else w)"
  by (simp add: client_do_def host_guard_def Let_def split: prod.splits sum.splits)

lemma guarded_error:
  "hostname (rq_url rq) \<notin> set allowed_upstream_hosts \<Longrightarrow>
   client_do location_text (host_guard net) rq w = (Inl (url_error rq ''upstream host is not allowlisted''), w)"
  by (simp add: client_do_def host_guard_def)

end
