(* ===== verification/Cli.thy ===== *)
theory Cli
  imports Server Cosy DeviceLogin HttpClient
begin

text \<open>
  \<open>cmd/qoder-proxy/main.go\<close>: the commands, and the program put together from its components.
  What the process finds around it (environment, standard input, network, random source, the
  programs that it runs) is the record \<open>os\<close>; a command takes the files and the rest of the world and gives its error,
  what it prints and both afterwards.  Deadlines and interrupts are errors of the network and
  events of the polling loop.  The texts of errors that are only printed by \<open>main\<close> are left out.
\<close>

section \<open>The machine\<close>

text \<open>\<open>os_base\<close> holds the server's clock, timers and texts of errors; the fields that the
  program sets are overwritten by \<open>program_services\<close>.  \<open>os_exec\<close> runs another program, and says
  whether that worked; \<open>os_version\<close> and \<open>os_commit\<close> are set when the program is linked.\<close>

record 'w os =
  os_base :: "(auth_error, 'w) services"
  os_net :: "'w network"
  os_io :: io_env
  os_random :: "nat \<Rightarrow> 'w \<Rightarrow> (string + string) \<times> 'w"
  os_filler :: "nat \<Rightarrow> 'w \<Rightarrow> (string + string) \<times> 'w"
  os_getenv :: "string \<Rightarrow> string"
  os_stdin :: string
  os_exec :: "string list \<Rightarrow> 'w \<Rightarrow> bool \<times> 'w"
  os_goos :: string
  os_goarch :: string
  os_url_text :: "string \<Rightarrow> string"
  os_location_text :: "string \<Rightarrow> string"
  os_key_text :: string
  os_auth_text :: "auth_error \<Rightarrow> string"
  os_http_time :: "string \<Rightarrow> int option"
  os_tools_text :: "ChatRequest \<Rightarrow> string"
  os_version :: string
  os_commit :: string
  os_go_version :: string

type_synonym 'w outside = "files \<times> 'w"

definition os_clock :: "'w os \<Rightarrow> 'w \<Rightarrow> int" where
  "os_clock os = sc_clock (os_base os)"

text \<open>\<open>randomUUID\<close> over the random source.\<close>

definition draw_uuid :: "'w os \<Rightarrow> 'w \<Rightarrow> (string + string) \<times> 'w" where
  "draw_uuid os w = (case os_random os 16 w of
      (Inl e, w) \<Rightarrow> (Inl e, w)
    | (Inr b, w) \<Rightarrow> (Inr (format_uuid b), w))"

definition uuid_or_empty :: "'w os \<Rightarrow> 'w \<Rightarrow> string \<times> 'w" where
  "uuid_or_empty os w = (case draw_uuid os w of (Inl e, w) \<Rightarrow> ([], w) | (Inr u, w) \<Rightarrow> (u, w))"

definition new_cosy_signer :: "'w os \<Rightarrow> 'w CosySigner" where
  "new_cosy_signer os = \<lparr>cg_now = os_clock os, cg_uuid = draw_uuid os, cg_filler = os_filler os,
     cg_goos = os_goos os, cg_goarch = os_goarch os, cg_url_text = os_url_text os,
     cg_key_text = os_key_text os\<rparr>"

section \<open>Errors and flags\<close>

datatype cli_error =
    FlagProblem
  | ConfigProblem config_error
  | ClientProblem client_error
  | StoreProblem store_error
  | AuthProblem auth_error
  | UnknownRegion
  | PromptProblem
  | EmptyPAT
  | DeviceRegionOnly
  | SelectProblem select_error
  | FreshProblem "auth_error fresh_error"
  | NoAccounts
  | UnknownCommand string
  | Panicked
  | StillWaiting

text \<open>\<open>FlagSet.Parse\<close> for flags with a string value; the first other argument ends the flags.\<close>

fun parse_flags :: "(string \<Rightarrow> string option) \<Rightarrow> string list \<Rightarrow> (string \<Rightarrow> string option) option" where
  "parse_flags fs [] = Some fs"
| "parse_flags fs (s # args) =
    (if length s < 2 \<or> hd s \<noteq> CHR ''-'' \<or> s = ''--'' then Some fs
     else
      (let name = drop (if s ! 1 = CHR ''-'' then 2 else 1) s; (k, v) = cut_at (CHR ''='') name in
       if hd name \<in> set ''-='' \<or> fs k = None then None
       else if CHR ''='' \<in> set name then parse_flags (fs(k \<mapsto> v)) args
       else (case args of [] \<Rightarrow> None | a # args' \<Rightarrow> parse_flags (fs(k \<mapsto> a)) args')))"

definition flag_value :: "(string \<Rightarrow> string option) \<Rightarrow> string \<Rightarrow> string" where
  "flag_value fs k = (case fs k of Some v \<Rightarrow> v | None \<Rightarrow> [])"

definition read_config :: "files \<Rightarrow> string \<Rightarrow> cli_error + Config" where
  "read_config fs path = (case load_config (\<lambda>p. map_option f_data (fs p)) path of
      Inl e \<Rightarrow> Inl (ConfigProblem e)
    | Inr c \<Rightarrow> Inr c)"

text \<open>\<open>load\<close>, for the commands with the one flag.\<close>

definition load_command :: "string list \<Rightarrow> files \<Rightarrow> cli_error + Config" where
  "load_command args fs = (case parse_flags [''config'' \<mapsto> ''config.json''] args of
      None \<Rightarrow> Inl FlagProblem
    | Some flags \<Rightarrow> read_config fs (flag_value flags ''config''))"

section \<open>The components together\<close>

record 'w parts =
  pt_http :: "'w http"
  pt_store :: Store
  pt_pool :: Pool
  pt_catalog :: Catalog

definition components :: "'w os \<Rightarrow> Config \<Rightarrow> files \<Rightarrow> cli_error + 'w parts" where
  "components os cfg fs = (case new_http_client (os_location_text os) cfg (os_net os) of
      Inl e \<Rightarrow> Inl (ClientProblem e)
    | Inr http \<Rightarrow>
      (let store = \<lparr>st_path = cf_credentials_file cfg\<rparr> in
       case load_locked (os_io os) store fs of
         Inl e \<Rightarrow> Inl (StoreProblem e)
       | Inr accounts \<Rightarrow> Inr \<lparr>pt_http = http, pt_store = store, pt_pool = new_pool accounts,
           pt_catalog = new_catalog (cf_catalog_ttl cfg)\<rparr>))"

definition program_bearer :: "'w os \<Rightarrow> 'w parts \<Rightarrow> 'w ChatTransport" where
  "program_bearer os pt = bearer_transport (pt_http pt) (os_http_time os) (os_clock os) (uuid_or_empty os)"

definition program_cosy :: "'w os \<Rightarrow> 'w parts \<Rightarrow> 'w ChatTransport" where
  "program_cosy os pt = cosy_transport (pt_http pt) (cosy_headers (new_cosy_signer os))
     (sc_float_text (os_base os)) (os_tools_text os) (os_http_time os) (os_clock os) (uuid_or_empty os)"

definition quota_text :: "'w os \<Rightarrow> 'w http \<Rightarrow> Account \<Rightarrow> 'w \<Rightarrow> (string + string) \<times> 'w" where
  "quota_text os http a w = (case quota http a w of
      (Inl e, w) \<Rightarrow> (Inl (os_auth_text os e), w)
    | (Inr b, w) \<Rightarrow> (Inr b, w))"

text \<open>What \<open>server.New\<close> is given by \<open>serve\<close>.\<close>

definition program_services :: "'w os \<Rightarrow> Config \<Rightarrow> 'w parts \<Rightarrow> (auth_error, 'w) services" where
  "program_services os cfg pt = authenticated ((os_base os)\<lparr>sc_config := cfg,
     sc_api_key := os_getenv os ''QODER_PROXY_API_KEY'', sc_store := Some (pt_store pt), sc_io := os_io os,
     sc_http := pt_http pt, sc_sign := cosy_headers (new_cosy_signer os), sc_bearer := program_bearer os pt,
     sc_cosy := program_cosy os pt, sc_quota := Some (quota_text os (pt_http pt))\<rparr>)"

section \<open>The commands\<close>

text \<open>A command's error, what it has printed, and the files and the world afterwards.\<close>

type_synonym 'w result = "cli_error option \<times> string \<times> 'w outside"

text \<open>\<open>serve\<close>: the server after the requests it gets until it is stopped.\<close>

definition serve ::
  "'w os \<Rightarrow> string list \<Rightarrow> ClientRequest list \<Rightarrow> 'w outside \<Rightarrow> (cli_error \<times> 'w outside) + 'w Server" where
  "serve os args requests out = (case load_command args (fst out) of
      Inl e \<Rightarrow> Inl (e, out)
    | Inr cfg \<Rightarrow>
      (case validate_serve (os_getenv os ''QODER_PROXY_API_KEY'') cfg of
         Some e \<Rightarrow> Inl (ConfigProblem e, out)
       | None \<Rightarrow>
         (case components os cfg (fst out) of
            Inl e \<Rightarrow> Inl (e, out)
          | Inr pt \<Rightarrow>
            (let sv = program_services os cfg pt in
             case prime sv (new_server (pt_pool pt) (pt_catalog pt) (fst out) (snd out)) of
               (False, s) \<Rightarrow> Inl (Panicked, sr_files s, sr_world s)
             | (True, s) \<Rightarrow> Inr (serve_all sv (map Request requests) s)))))"

text \<open>The bytes up to and with the first line feed, as \<open>ReadString\<close> gives them: what comes
  without one before the end of the input is an error.\<close>

definition read_line :: "string \<Rightarrow> string option" where
  "read_line input = (if LF \<in> set input then Some (takeWhile (\<lambda>c. c \<noteq> LF) input @ [LF]) else None)"

text \<open>\<open>readSecret\<close>: the terminal's echo is off while the line is read.\<close>

definition read_secret :: "'w os \<Rightarrow> 'w \<Rightarrow> string option \<times> 'w" where
  "read_secret os w =
    (let (silenced, w) = (if os_goos os \<noteq> ''windows'' then os_exec os [''stty'', ''-echo''] w else (False, w));
         line = read_line (os_stdin os);
         w = (if silenced then snd (os_exec os [''stty'', ''echo''] w) else w)
     in (line, w))"

text \<open>A terminal that was echoing is echoing again, whatever has been typed, if restoring works.\<close>

lemma read_secret_restores_echo:
  assumes "\<And>v ok v'. os_exec os [''stty'', ''-echo''] v = (ok, v') \<Longrightarrow> \<not> ok \<Longrightarrow> echo v \<Longrightarrow> echo v'"
    and "\<And>v. echo (snd (os_exec os [''stty'', ''echo''] v))" and "echo w"
  shows "echo (snd (read_secret os w))"
  using assms by (auto simp: read_secret_def Let_def split: prod.splits)

definition pat_of :: "'w os \<Rightarrow> string \<Rightarrow> 'w \<Rightarrow> string option \<times> 'w" where
  "pat_of os region w =
    (let pat = os_getenv os ''QODER_PAT'';
         pat = (if region = ''cn'' \<and> pat = [] then os_getenv os ''QODERCN_PAT'' else pat)
     in if pat = [] then read_secret os w else (Some pat, w))"

text \<open>A token that is piped in without a final line feed is refused, although it has been read.\<close>

lemma piped_secret_refused:
  "os_getenv os ''QODER_PAT'' = [] \<Longrightarrow> os_getenv os ''QODERCN_PAT'' = [] \<Longrightarrow> LF \<notin> set (os_stdin os) \<Longrightarrow>
   fst (pat_of os region w) = None"
  by (simp add: pat_of_def read_secret_def read_line_def Let_def split: prod.splits)

text \<open>\<open>openBrowser\<close>: the program that opens a URL.\<close>

definition browser_command :: "string \<Rightarrow> string \<Rightarrow> string list" where
  "browser_command goos url =
    (if goos = ''darwin'' then [''open'', url]
     else if goos = ''windows'' then [''rundll32'', ''url.dll,FileProtocolHandler'', url]
     else [''xdg-open'', url])"

definition open_browser :: "'w os \<Rightarrow> string \<Rightarrow> 'w \<Rightarrow> bool \<times> 'w" where
  "open_browser os url w = os_exec os (browser_command (os_goos os) url) w"

definition save_account ::
  "'w os \<Rightarrow> Store \<Rightarrow> Account \<Rightarrow> string \<Rightarrow> string \<Rightarrow> 'w outside \<Rightarrow> 'w result" where
  "save_account os store a before message out = (case upsert (os_io os) store a (fst out) of
      (Some e, fs) \<Rightarrow> (Some (StoreProblem e), before, fs, snd out)
    | (None, fs) \<Rightarrow> (None, before @ message, fs, snd out))"

definition random_bytes :: "'w os \<Rightarrow> nat \<Rightarrow> 'w \<Rightarrow> string option \<times> 'w" where
  "random_bytes os n w = (case os_random os n w of (Inl _, w) \<Rightarrow> (None, w) | (Inr b, w) \<Rightarrow> (Some b, w))"

text \<open>The machine's random bytes are drawn ahead of the exchange that may use them.\<close>

definition import_account :: "'w os \<Rightarrow> string \<Rightarrow> string \<Rightarrow> 'w parts \<Rightarrow> 'w outside \<Rightarrow> 'w result" where
  "import_account os region pat pt out =
    (let (rnd, w) = random_bytes os 16 (snd out) in
     case exchange_pat (pt_http pt) (os_clock os w) rnd region (trim_space pat) [] w of
       (Inl e, w) \<Rightarrow> (Some (AuthProblem e), [], fst out, w)
     | (Inr a, w) \<Rightarrow>
       save_account os (pt_store pt) a [] (''Imported account '' @ anonymous_id a @ '' ('' @ acc_region a @
         ''); PAT was not stored.'' @ [LF]) (fst out, w))"

definition import_pat :: "'w os \<Rightarrow> string list \<Rightarrow> 'w outside \<Rightarrow> 'w result" where
  "import_pat os args out =
    (let failed = (\<lambda>e. (Some e, [], out)) in
     case parse_flags [''config'' \<mapsto> ''config.json'', ''region'' \<mapsto> ''global''] args of
       None \<Rightarrow> failed FlagProblem
     | Some flags \<Rightarrow>
       (case read_config (fst out) (flag_value flags ''config'') of
          Inl e \<Rightarrow> failed e
        | Inr cfg \<Rightarrow>
          (let region = flag_value flags ''region'' in
           if for_region region = None then failed UnknownRegion
           else
             (let (secret, w) = pat_of os region (snd out); failed = (\<lambda>e. (Some e, [], fst out, w)) in
              case secret of
                None \<Rightarrow> failed PromptProblem
              | Some pat \<Rightarrow>
                if trim_space pat = [] then failed EmptyPAT
                else (case components os cfg (fst out) of
                    Inl e \<Rightarrow> failed e
                  | Inr pt \<Rightarrow> import_account os region pat pt (fst out, w))))))"

definition device_login_account ::
  "'w os \<Rightarrow> DeviceFlow \<Rightarrow> poll_event list \<Rightarrow> 'w parts \<Rightarrow> 'w outside \<Rightarrow> 'w result" where
  "device_login_account os flow evs pt out =
    (let before = ''Open this URL to authorize your Qoder account:'' @ LF # df_verification_url flow @ [LF];
         w = snd (open_browser os (df_verification_url flow) (snd out)) in
     case poll_device_flow (pt_http pt) (os_clock os w) flow evs w of
       (None, w) \<Rightarrow> (Some StillWaiting, before, fst out, w)
     | (Some (Inl e), w) \<Rightarrow> (Some (AuthProblem e), before, fst out, w)
     | (Some (Inr a), w) \<Rightarrow>
       save_account os (pt_store pt) a before
         (''Saved account '' @ anonymous_id a @ '' with credential file mode 0600.'' @ [LF]) (fst out, w))"

definition login_device :: "'w os \<Rightarrow> string list \<Rightarrow> poll_event list \<Rightarrow> 'w outside \<Rightarrow> 'w result" where
  "login_device os args evs out =
    (let failed = (\<lambda>e. (Some e, [], out)) in
     case parse_flags [''config'' \<mapsto> ''config.json'', ''region'' \<mapsto> ''global''] args of
       None \<Rightarrow> failed FlagProblem
     | Some flags \<Rightarrow>
       if flag_value flags ''region'' \<noteq> ''global'' then failed DeviceRegionOnly
       else (case read_config (fst out) (flag_value flags ''config'') of
           Inl e \<Rightarrow> failed e
         | Inr cfg \<Rightarrow>
           (case components os cfg (fst out) of
              Inl e \<Rightarrow> failed e
            | Inr pt \<Rightarrow>
              (let (rv, w) = random_bytes os 32 (snd out); (rn, w) = random_bytes os 16 w;
                   (rm, w) = random_bytes os 16 w in
               case begin_device_flow ''global'' rv rn rm of
                 Inl e \<Rightarrow> (Some (AuthProblem e), [], fst out, w)
               | Inr flow \<Rightarrow> device_login_account os flow evs pt (fst out, w)))))"

text \<open>\<open>models\<close>: the JSON it prints.\<close>

definition json_of_model :: "Model \<Rightarrow> json" where
  "json_of_model m = JObj ([(''id'', JStr (md_id m)), (''display_name'', JStr (md_display_name m)),
       (''is_vl'', JBool (md_is_vl m)), (''is_reasoning'', JBool (md_is_reasoning m))]
     @ (if md_thinking m = [] then [] else [(''thinking_config'', marshal_map (md_thinking m))])
     @ (if md_source m = [] then [] else [(''source'', JStr (md_source m))])
     @ (if md_context_window m = 0 then [] else [(''context_window'', jint (md_context_window m))]))"

definition models_json :: "'w os \<Rightarrow> CatalogSnapshot \<Rightarrow> catalog_error option \<Rightarrow> json" where
  "models_json os snap err = JObj ([(''degraded'', JBool (cs_degraded snap)),
       (''models'', JArr (map json_of_model (cs_models snap)))]
     @ (case err of None \<Rightarrow> []
        | Some e \<Rightarrow> [(''warning'', JStr (sanitize_snippet (sc_catalog_text (os_base os) e) 256))]))"

definition program_fresh ::
  "'w os \<Rightarrow> 'w parts \<Rightarrow> nat \<Rightarrow> 'w outside \<Rightarrow> (Account \<times> auth_error fresh_error option) \<times> 'w outside" where
  "program_fresh os pt i out =
    (let (r, p, fs, w) = ensure_fresh (Some (auth_refresher (pt_http pt) (os_clock os))) (Some (pt_store pt)) (os_io os)
           (os_clock os (snd out)) i False (pt_pool pt) (fst out) (snd out)
     in (r, fs, w))"

definition program_catalog ::
  "'w os \<Rightarrow> 'w parts \<Rightarrow> Account \<Rightarrow> 'w \<Rightarrow> (CatalogSnapshot \<times> catalog_error option) \<times> 'w" where
  "program_catalog os pt a w =
    (let (r, c, w) = catalog_get (pt_http pt) (cosy_headers (new_cosy_signer os)) (os_clock os w) a (pt_catalog pt) w
     in (r, w))"

definition models :: "'w os \<Rightarrow> string list \<Rightarrow> 'w outside \<Rightarrow> 'w result" where
  "models os args out = (case load_command args (fst out) of
      Inl e \<Rightarrow> (Some e, [], out)
    | Inr cfg \<Rightarrow>
      (case components os cfg (fst out) of
         Inl e \<Rightarrow> (Some e, [], out)
       | Inr pt \<Rightarrow>
         (case select (os_clock os (snd out)) [] {} (pt_pool pt) of
            (Inl e, p) \<Rightarrow> (Some (SelectProblem e), [], out)
          | (Inr i, p) \<Rightarrow>
            (case program_fresh os (pt\<lparr>pt_pool := p\<rparr>) i out of
               ((a, Some e), out) \<Rightarrow> (Some (FreshProblem e), [], out)
             | ((a, None), fs, w) \<Rightarrow>
               (let ((snap, err), w) = program_catalog os pt a w
                in (None, json_marshal_indent (models_json os snap err) @ [LF], fs, w))))))"

section \<open>The doctor\<close>

definition ok_text :: "string option \<Rightarrow> string" where
  "ok_text err = (case err of None \<Rightarrow> ''ok'' | Some e \<Rightarrow> sanitize_snippet e 100)"

text \<open>\<open>safeName\<close>: the name comes out of the JSON decoder, so its bytes are valid UTF-8 and the
  three characters are single bytes.\<close>

definition safe_name :: "string \<Rightarrow> string" where
  "safe_name s = (if s = [] then ''unknown'' else map (\<lambda>c. if c \<in> {LF, CR, TAB} then CHR '' '' else c) s)"

definition left_text :: "('e \<Rightarrow> string) \<Rightarrow> 'e + 'a \<Rightarrow> string option" where
  "left_text f r = (case r of Inl e \<Rightarrow> Some (f e) | Inr _ \<Rightarrow> None)"

definition doctor_line :: "'w os \<Rightarrow> 'w parts \<Rightarrow> Account \<Rightarrow> 'w \<Rightarrow> string \<times> 'w" where
  "doctor_line os pt a w =
    (let (info, w) = user_info (pt_http pt) (acc_region a) (acc_access_token a) w;
         (q, w) = quota_text os (pt_http pt) a w;
         (b, w) = ct_probe (program_bearer os pt) a w;
         (c, w) = ct_probe (program_cosy os pt) a w
     in (''account='' @ anonymous_id a @ '' region='' @ acc_region a @
         '' userinfo='' @ ok_text (left_text (os_auth_text os) info) @
         '' quota='' @ ok_text (left_text (\<lambda>e. e) q) @
         '' bearer='' @ ok_text (map_option call_error_text b) @
         '' cosy='' @ ok_text (map_option call_error_text c) @
         '' user='' @ safe_name (case info of Inl _ \<Rightarrow> [] | Inr u \<Rightarrow> ui_name u) @ [LF], w))"

fun doctor_lines :: "'w os \<Rightarrow> 'w parts \<Rightarrow> Account list \<Rightarrow> 'w \<Rightarrow> string \<times> 'w" where
  "doctor_lines os pt [] w = ([], w)"
| "doctor_lines os pt (a # as) w =
    (let (line, w) = doctor_line os pt a w; (lines, w) = doctor_lines os pt as w in (line @ lines, w))"

definition bool_text :: "bool \<Rightarrow> string" where
  "bool_text b = (if b then ''true'' else ''false'')"

text \<open>The errors of the selection and of the refresh are dropped: without an entry the refresh
  would be a nil dereference.\<close>

definition doctor :: "'w os \<Rightarrow> string list \<Rightarrow> 'w outside \<Rightarrow> 'w result" where
  "doctor os args out = (case load_command args (fst out) of
      Inl e \<Rightarrow> (Some e, [], out)
    | Inr cfg \<Rightarrow>
      (case components os cfg (fst out) of
         Inl e \<Rightarrow> (Some e, [], out)
       | Inr pt \<Rightarrow>
         (case load_locked (os_io os) (pt_store pt) (fst out) of
            Inl e \<Rightarrow> (Some (StoreProblem e), [], out)
          | Inr accounts \<Rightarrow>
            (let head = ''config: ok'' @ LF # ''credentials: '' @ show_int (int (length accounts)) @
                   '' account(s), permissions ok'' @ [LF] in
             if accounts = [] then (Some NoAccounts, head, out)
             else
              (let (lines, w) = doctor_lines os pt accounts (snd out) in
               case select (os_clock os w) [] {} (pt_pool pt) of
                 (Inl e, p) \<Rightarrow> (Some Panicked, head @ lines, fst out, w)
               | (Inr i, p) \<Rightarrow>
                 (let ((a, _), fs, w) = program_fresh os (pt\<lparr>pt_pool := p\<rparr>) i (fst out, w);
                      ((snap, err), w) = program_catalog os pt a w
                  in (None, head @ lines @ ''catalog: models='' @ show_int (int (length (cs_models snap))) @
                        '' degraded='' @ bool_text (cs_degraded snap) @ '' status='' @
                        ok_text (map_option (sc_catalog_text (os_base os)) err) @ [LF], fs, w)))))))"

section \<open>main\<close>

text \<open>The exit code, what is on the standard output, and the files and the world.  A panic ends
  with 2 like a missing command.\<close>

definition finish :: "'w result \<Rightarrow> int \<times> string \<times> 'w outside" where
  "finish r = (case r of
      (None, text, out) \<Rightarrow> (0, text, out)
    | (Some e, text, out) \<Rightarrow> (if e = Panicked then 2 else 1, text, out))"

definition version_line :: "'w os \<Rightarrow> string" where
  "version_line os = ''qoder-proxy '' @ os_version os @ '' (commit '' @ os_commit os @ '', '' @ os_go_version os @
     '' '' @ os_goos os @ ''/'' @ os_goarch os @ '')'' @ [LF]"

definition run_serve :: "'w os \<Rightarrow> string list \<Rightarrow> ClientRequest list \<Rightarrow> 'w outside \<Rightarrow> 'w result" where
  "run_serve os args requests out = (case serve os args requests out of
      Inl (e, out) \<Rightarrow> (Some e, [], out)
    | Inr s \<Rightarrow> (None, [], sr_files s, sr_world s))"

definition main ::
  "'w os \<Rightarrow> string list \<Rightarrow> ClientRequest list \<Rightarrow> poll_event list \<Rightarrow> 'w outside \<Rightarrow> int \<times> string \<times> 'w outside" where
  "main os argv requests evs out = (case drop 1 argv of
      [] \<Rightarrow> (2, [], out)
    | cmd # args \<Rightarrow>
      if cmd = ''serve'' then finish (run_serve os args requests out)
      else if cmd = ''login'' then finish (login_device os args evs out)
      else if cmd = ''import-pat'' then finish (import_pat os args out)
      else if cmd = ''models'' then finish (models os args out)
      else if cmd = ''doctor'' then finish (doctor os args out)
      else if cmd = ''version'' \<or> cmd = ''--version'' then (0, version_line os, out)
      else if cmd = ''help'' \<or> cmd = ''--help'' \<or> cmd = ''-h'' then (0, [], out)
      else finish (Some (UnknownCommand cmd), [], out))"

end
