(* ===== verification/Program.thy ===== *)
theory Program
  imports Cli
begin

text \<open>
  What holds of the whole program, whatever command it is run with: it does not panic at its
  start, it talks to its own hosts only, only the server reads the server's key, and an
  imported account is stored, until a running server overwrites it.
\<close>

section \<open>No panic\<close>

lemma select_new_pool: "select now session {} (new_pool as) = (Inl IndexPanic, p) \<Longrightarrow> False"
  by (auto simp: select_def Let_def snapshot_all_def new_pool_def wrap64_def go_mod_def split: if_splits)

lemma prime_new_pool: "prime sv (new_server (new_pool as) c fs w) \<noteq> (False, s)"
proof
  assume "prime sv (new_server (new_pool as) c fs w) = (False, s)"
  then obtain p where "select (server_now sv (new_server (new_pool as) c fs w)) [] {} (new_pool as) = (Inl IndexPanic, p)"
    by (auto simp: prime_def server_select_def Let_def new_server_def split: prod.splits sum.splits select_error.splits option.splits if_splits)
  with select_new_pool show False by blast
qed

lemma new_pool_healthy: "\<forall>e \<in> set (pl_entries (new_pool as)). en_state e = Healthy"
  by (auto simp: new_pool_def new_entry_def)

lemma select_new_pool_some:
  assumes "as \<noteq> []"
  shows "select now [] {} (new_pool as) \<noteq> (Inl e, p)"
proof
  assume r: "select now [] {} (new_pool as) = (Inl e, p)"
  have "length (pl_entries (new_pool as)) = length as" by (simp add: new_pool_def)
  then have l: "0 < length (pl_entries (snapshot_all now (new_pool as)))"
    using assms by (simp add: snapshot_all_def)
  have "en_state (pl_entries (snapshot_all now (new_pool as)) ! 0) = Healthy"
    using new_pool_healthy [of as] l by (simp add: snapshot_all_def snapshot_def Let_def)
  with l have "0 \<in> set (candidates {} (snapshot_all now (new_pool as)))" by (simp add: candidates_def)
  then have "e \<noteq> NoHealthyAccount" using r by (auto simp: select_def Let_def split: if_splits)
  with r select_new_pool show False by (cases e) blast+
qed

lemma early_errors [simp]:
  "load_command args fs \<noteq> Inl Panicked" "components os cfg fs \<noteq> Inl Panicked" "read_config fs path \<noteq> Inl Panicked"
  by (auto simp: load_command_def read_config_def components_def new_http_client_def Let_def
      split: option.splits sum.splits if_splits)

lemma components_parts:
  "components os cfg fs = Inr pt \<Longrightarrow> \<exists>as. load_locked (os_io os) (pt_store pt) fs = Inr as \<and> pt_pool pt = new_pool as"
  by (auto simp: components_def Let_def split: sum.splits)

lemma serve_no_panic: "serve os args requests out \<noteq> Inl (Panicked, out')"
proof
  assume "serve os args requests out = Inl (Panicked, out')"
  then obtain cfg pt s where "components os cfg (fst out) = Inr pt"
    and p: "prime (program_services os cfg pt) (new_server (pt_pool pt) (pt_catalog pt) (fst out) (snd out)) = (False, s)"
    by (auto simp: serve_def Let_def split: sum.splits option.splits prod.splits bool.splits)
  then obtain as where "pt_pool pt = new_pool as" using components_parts by blast
  with p prime_new_pool show False by metis
qed

lemma doctor_no_panic: "fst (doctor os args out) \<noteq> Some Panicked"
proof (cases "load_command args (fst out)")
  case (Inl e)
  with early_errors(1) [of args "fst out"] show ?thesis by (auto simp: doctor_def)
next
  case cfg: (Inr cfg)
  show ?thesis
  proof (cases "components os cfg (fst out)")
    case (Inl e)
    with cfg early_errors(2) [of os cfg "fst out"] show ?thesis by (auto simp: doctor_def)
  next
    case (Inr pt)
    obtain as where "load_locked (os_io os) (pt_store pt) (fst out) = Inr as" "pt_pool pt = new_pool as"
      using components_parts [OF Inr] by blast
    then show ?thesis using cfg Inr select_new_pool_some [of as]
      by (auto simp: doctor_def Let_def split: prod.splits sum.splits)
  qed
qed

lemma other_commands_no_panic:
  "fst (import_pat os args out) \<noteq> Some Panicked"
  "fst (login_device os args evs out) \<noteq> Some Panicked"
  "fst (models os args out) \<noteq> Some Panicked"
  by (auto simp: import_pat_def import_account_def login_device_def device_login_account_def save_account_def models_def
Let_def split: prod.splits sum.splits option.splits if_splits)

text \<open>
  C27: no command panics at its start, whatever the files, the network and the arguments are:
  the process ends with code 2 exactly when no command is given.
\<close>

theorem main_never_panics: "fst (main os argv requests evs out) = 2 \<longleftrightarrow> length argv < 2"
proof -
  have f: "fst (finish r) = 2 \<longleftrightarrow> fst r = Some Panicked" for r :: "'a result"
    by (cases r) (auto simp: finish_def split: option.splits)
  have "fst (run_serve os args requests out) \<noteq> Some Panicked" for args
  proof (cases "serve os args requests out")
    case (Inl x)
    moreover obtain e out' where "x = (e, out')" by (rule prod.exhaust)
    ultimately show ?thesis using serve_no_panic [of os args requests out out'] by (auto simp: run_serve_def)
  qed (simp add: run_serve_def)
  note quiet = this doctor_no_panic other_commands_no_panic
  show ?thesis
  proof (cases "drop 1 argv")
    case Nil
    then show ?thesis by (simp add: main_def)
  next
    case (Cons cmd args)
    then have "\<not> length argv < 2" by auto
    with Cons show ?thesis by (simp add: main_def f quiet)
  qed
qed

section \<open>The network behind the guard\<close>

text \<open>A network that behaves differently for hosts that are not on the list.\<close>

definition elsewhere :: "'w http \<Rightarrow> 'w http \<Rightarrow> 'w http" where
  "elsewhere net other rq w =
    (if hostname (rq_url rq) \<in> set allowed_upstream_hosts then net rq w else other rq w)"

named_theorems netless

lemma guard_elsewhere: "host_guard (elsewhere net other) = host_guard net"
  by (simp add: fun_eq_iff host_guard_def elsewhere_def)

lemma netless_os [netless]:
  "os_getenv (os\<lparr>os_net := n\<rparr>) = os_getenv os" "os_io (os\<lparr>os_net := n\<rparr>) = os_io os"
  "os_base (os\<lparr>os_net := n\<rparr>) = os_base os"
  "os_exec (os\<lparr>os_net := n\<rparr>) = os_exec os" "os_stdin (os\<lparr>os_net := n\<rparr>) = os_stdin os"
  "os_goos (os\<lparr>os_net := n\<rparr>) = os_goos os" "os_location_text (os\<lparr>os_net := n\<rparr>) = os_location_text os"
  "os_clock (os\<lparr>os_net := n\<rparr>) = os_clock os"
  "draw_uuid (os\<lparr>os_net := n\<rparr>) = draw_uuid os"
  "uuid_or_empty (os\<lparr>os_net := n\<rparr>) = uuid_or_empty os"
  "new_cosy_signer (os\<lparr>os_net := n\<rparr>) = new_cosy_signer os"
  "save_account (os\<lparr>os_net := n\<rparr>) = save_account os"
  "random_bytes (os\<lparr>os_net := n\<rparr>) = random_bytes os"
  "quota_text (os\<lparr>os_net := n\<rparr>) = quota_text os"
  "models_json (os\<lparr>os_net := n\<rparr>) = models_json os"
  "version_line (os\<lparr>os_net := n\<rparr>) = version_line os"
  unfolding fun_eq_iff os_clock_def draw_uuid_def uuid_or_empty_def new_cosy_signer_def save_account_def
    random_bytes_def quota_text_def models_json_def version_line_def
  by (simp_all add: Let_def cong: option.case_cong sum.case_cong)

lemma netless_runs [netless]:
  "read_secret (os\<lparr>os_net := n\<rparr>) = read_secret os"
  "open_browser (os\<lparr>os_net := n\<rparr>) = open_browser os"
  unfolding fun_eq_iff read_secret_def open_browser_def netless by simp_all

lemma netless_pat [netless]: "pat_of (os\<lparr>os_net := n\<rparr>) = pat_of os"
  unfolding fun_eq_iff pat_of_def netless by simp

lemma netless_parts [netless]:
  "program_bearer (os\<lparr>os_net := n\<rparr>) = program_bearer os"
  "program_cosy (os\<lparr>os_net := n\<rparr>) = program_cosy os"
  "program_fresh (os\<lparr>os_net := n\<rparr>) = program_fresh os"
  "program_catalog (os\<lparr>os_net := n\<rparr>) = program_catalog os"
  unfolding fun_eq_iff program_bearer_def program_cosy_def program_fresh_def program_catalog_def netless by simp_all

lemma netless_services [netless]: "program_services (os\<lparr>os_net := n\<rparr>) = program_services os"
  unfolding fun_eq_iff program_services_def netless by simp

lemma netless_commands [netless]:
  "import_account (os\<lparr>os_net := n\<rparr>) = import_account os"
  "device_login_account (os\<lparr>os_net := n\<rparr>) = device_login_account os"
  "doctor_line (os\<lparr>os_net := n\<rparr>) = doctor_line os"
  unfolding fun_eq_iff import_account_def device_login_account_def doctor_line_def netless by simp_all

lemma netless_lines [netless]: "doctor_lines (os\<lparr>os_net := n\<rparr>) = doctor_lines os"
proof -
  have "doctor_lines (os\<lparr>os_net := n\<rparr>) pt as w = doctor_lines os pt as w" for pt as w
    by (induction as arbitrary: w) (simp_all add: netless)
  then show ?thesis by blast
qed

lemma components_guarded:
  "components (os\<lparr>os_net := (\<lambda>t. elsewhere (net t) (other t))\<rparr>) = components (os\<lparr>os_net := net\<rparr>)"
proof -
  have "new_http_client f cfg (\<lambda>t. elsewhere (net t) (other t)) = new_http_client f cfg net" for f cfg
    by (simp add: new_http_client_def guard_elsewhere)
  then show ?thesis unfolding fun_eq_iff components_def netless by simp
qed

lemma commands_guarded:
  fixes os :: "'w os" and net other :: "'w network"
  defines "a \<equiv> os\<lparr>os_net := (\<lambda>t. elsewhere (net t) (other t))\<rparr>" and "b \<equiv> os\<lparr>os_net := net\<rparr>"
  shows "import_pat a args out = import_pat b args out" "login_device a args evs out = login_device b args evs out"
    "models a args out = models b args out" "doctor a args out = doctor b args out"
    "run_serve a args requests out = run_serve b args requests out"
  unfolding a_def b_def import_pat_def login_device_def models_def doctor_def run_serve_def serve_def netless
    components_guarded
  by simp_all

text \<open>
  C12: the program talks to its own hosts only.  Whatever command is run, what lies behind the
  hosts that are not on the list makes no difference: not to the exit code, to what is printed, to
  the files or to the world.
\<close>

theorem main_talks_to_allowed_hosts:
  "main (os\<lparr>os_net := (\<lambda>t. elsewhere (net t) (other t))\<rparr>) argv requests evs out = main (os\<lparr>os_net := net\<rparr>) argv requests evs out"
  by (cases "drop 1 argv") (simp_all add: main_def commands_guarded netless)

section \<open>The key of the server\<close>

lemma keyless_os [netless]:
  "os_io (os\<lparr>os_getenv := g\<rparr>) = os_io os" "os_base (os\<lparr>os_getenv := g\<rparr>) = os_base os"
  "os_exec (os\<lparr>os_getenv := g\<rparr>) = os_exec os" "os_stdin (os\<lparr>os_getenv := g\<rparr>) = os_stdin os"
  "os_goos (os\<lparr>os_getenv := g\<rparr>) = os_goos os"
  "os_clock (os\<lparr>os_getenv := g\<rparr>) = os_clock os"
  "draw_uuid (os\<lparr>os_getenv := g\<rparr>) = draw_uuid os"
  "uuid_or_empty (os\<lparr>os_getenv := g\<rparr>) = uuid_or_empty os"
  "new_cosy_signer (os\<lparr>os_getenv := g\<rparr>) = new_cosy_signer os"
  "save_account (os\<lparr>os_getenv := g\<rparr>) = save_account os"
  "random_bytes (os\<lparr>os_getenv := g\<rparr>) = random_bytes os"
  "quota_text (os\<lparr>os_getenv := g\<rparr>) = quota_text os"
  "models_json (os\<lparr>os_getenv := g\<rparr>) = models_json os"
  "version_line (os\<lparr>os_getenv := g\<rparr>) = version_line os"
  "components (os\<lparr>os_getenv := g\<rparr>) = components os"
  unfolding fun_eq_iff os_clock_def draw_uuid_def uuid_or_empty_def new_cosy_signer_def save_account_def
    random_bytes_def quota_text_def models_json_def version_line_def components_def
  by (simp_all add: Let_def cong: option.case_cong sum.case_cong)

lemma keyless_runs [netless]:
  "read_secret (os\<lparr>os_getenv := g\<rparr>) = read_secret os"
  "open_browser (os\<lparr>os_getenv := g\<rparr>) = open_browser os"
  unfolding fun_eq_iff read_secret_def open_browser_def netless by simp_all

lemma keyless_parts [netless]:
  "program_bearer (os\<lparr>os_getenv := g\<rparr>) = program_bearer os"
  "program_cosy (os\<lparr>os_getenv := g\<rparr>) = program_cosy os"
  "program_fresh (os\<lparr>os_getenv := g\<rparr>) = program_fresh os"
  "program_catalog (os\<lparr>os_getenv := g\<rparr>) = program_catalog os"
  unfolding fun_eq_iff program_bearer_def program_cosy_def program_fresh_def program_catalog_def netless by simp_all

lemma keyless_commands [netless]:
  "import_account (os\<lparr>os_getenv := g\<rparr>) = import_account os"
  "device_login_account (os\<lparr>os_getenv := g\<rparr>) = device_login_account os"
  "doctor_line (os\<lparr>os_getenv := g\<rparr>) = doctor_line os"
  unfolding fun_eq_iff import_account_def device_login_account_def doctor_line_def netless by simp_all

lemma keyless_lines [netless]: "doctor_lines (os\<lparr>os_getenv := g\<rparr>) = doctor_lines os"
proof -
  have "doctor_lines (os\<lparr>os_getenv := g\<rparr>) pt as w = doctor_lines os pt as w" for pt as w
    by (induction as arbitrary: w) (simp_all add: netless)
  then show ?thesis by blast
qed

lemma keyless_pat [netless]:
  "pat_of (os\<lparr>os_getenv := (os_getenv os)(''QODER_PROXY_API_KEY'' := k)\<rparr>) = pat_of os"
  unfolding fun_eq_iff pat_of_def netless by (simp add: Let_def)

text \<open>
  Only \<open>serve\<close> looks at the server's key.  Every other command does the same whatever
  \<open>QODER_PROXY_API_KEY\<close> is, so none of them is refused for want of a key.
\<close>

lemma only_serve_reads_key:
  assumes "take 1 (drop 1 argv) \<noteq> [''serve'']"
  shows "main (os\<lparr>os_getenv := (os_getenv os)(''QODER_PROXY_API_KEY'' := k)\<rparr>) argv requests evs out =
    main os argv requests evs out"
proof -
  let ?os = "os\<lparr>os_getenv := (os_getenv os)(''QODER_PROXY_API_KEY'' := k)\<rparr>"
  have "import_pat ?os args out = import_pat os args out" "login_device ?os args evs out = login_device os args evs out"
    "models ?os args out = models os args out" "doctor ?os args out = doctor os args out" for args
    unfolding import_pat_def login_device_def models_def doctor_def netless by (rule refl)+
  then show ?thesis using assms by (auto simp: main_def netless split: list.splits)
qed

section \<open>Importing accounts\<close>

lemma exchange_draws: "exchange_pat http now rnd region p [] v = (Inr a, v') \<Longrightarrow> \<exists>b. rnd = Some b"
  by (auto simp: exchange_pat_def random_uuid_def split: option.splits sum.splits prod.splits if_splits)

lemma import_pat_success:
  assumes "import_pat os args (fs, w) = (None, msg, fs', w')"
  shows "\<exists>path cfg http region pat a b v v1 v2. read_config fs path = Inr cfg \<and>
     os_random os 16 v = (Inr b, v1) \<and>
     exchange_pat http (os_clock os v1) (Some b) region (trim_space pat) [] v1 = (Inr a, v2) \<and>
     upsert (os_io os) \<lparr>st_path = cf_credentials_file cfg\<rparr> a fs = (None, fs')"
proof -
  obtain region pat pt cfg path v where i: "import_account os region pat pt (fs, v) = (None, msg, fs', w')"
    and c: "read_config fs path = Inr cfg" "components os cfg fs = Inr pt"
    using assms by (auto simp: import_pat_def Let_def split: option.splits sum.splits if_splits prod.splits)
  have pt: "pt_store pt = \<lparr>st_path = cf_credentials_file cfg\<rparr>"
    using c(2) by (auto simp: components_def new_http_client_def Let_def split: sum.splits if_splits)
  obtain rnd v1 where r: "random_bytes os 16 v = (rnd, v1)" by fastforce
  obtain res v2 where e: "exchange_pat (pt_http pt) (os_clock os v1) rnd region (trim_space pat) [] v1 = (res, v2)"
    by fastforce
  obtain a where a: "res = Inr a" and u: "upsert (os_io os) (pt_store pt) a fs = (None, fs')"
    using i r e by (cases res) (auto simp: import_account_def save_account_def split: option.splits prod.splits)
  obtain b where "rnd = Some b" using exchange_draws e [unfolded a] by metis
  with r have d: "os_random os 16 v = (Inr b, v1)" by (auto simp: random_bytes_def split: prod.splits sum.splits)
  show ?thesis
    using c(1) d e [unfolded a \<open>rnd = Some b\<close>] u [unfolded pt] by (intro exI conjI)
qed

text \<open>
  C18: \<open>import-pat\<close> implements the insertion into the list of accounts.  When it succeeds, it has
  exchanged the token for a valid account of the job kind with its canonical id, and loading
  the credentials file of the configuration gives the accounts that were there with the new
  one put in.
\<close>

theorem import_refines_upsert:
  assumes "import_pat os args (fs, w) = (None, msg, fs', w')"
    and "\<forall>v b v'. os_random os 16 v = (Inr b, v') \<longrightarrow> length b = 16"
  shows "\<exists>path cfg accounts a. read_config fs path = Inr cfg
    \<and> load_locked (os_io os) \<lparr>st_path = cf_credentials_file cfg\<rparr> fs = Inr accounts
    \<and> validate_account a = None \<and> canonical a \<and> acc_token_kind a = ''job''
    \<and> (io_tmp (os_io os) \<noteq> cf_credentials_file cfg \<and> list_all text_account (a # accounts)
        \<and> \<not> io_fails env SysStat \<and> \<not> io_fails env SysRead
       \<longrightarrow> load_locked env \<lparr>st_path = cf_credentials_file cfg\<rparr> fs' = Inr (upsert_list a accounts))"
proof -
  obtain path cfg http region pat a b v v1 v2 where c: "read_config fs path = Inr cfg" and b: "os_random os 16 v = (Inr b, v1)"
    and e: "exchange_pat http (os_clock os v1) (Some b) region (trim_space pat) [] v1 = (Inr a, v2)"
    and u: "upsert (os_io os) \<lparr>st_path = cf_credentials_file cfg\<rparr> a fs = (None, fs')"
    using import_pat_success [OF assms(1)] by blast
  have "length b = 16" using assms(2) b by blast
  with exchange_pat_valid [OF e refl] have a: "validate_account a = None" "canonical a" "acc_token_kind a = ''job''"
    by blast+
  obtain accounts where l: "load_locked (os_io os) \<lparr>st_path = cf_credentials_file cfg\<rparr> fs = Inr accounts"
    using u by (auto simp: upsert_def split: option.splits sum.splits)
  have "io_tmp (os_io os) \<noteq> cf_credentials_file cfg \<and> list_all text_account (a # accounts)
        \<and> \<not> io_fails env SysStat \<and> \<not> io_fails env SysRead
       \<longrightarrow> load_locked env \<lparr>st_path = cf_credentials_file cfg\<rparr> fs' = Inr (upsert_list a accounts)"
    using upsert_loads [OF u l] by simp
  with c l a show ?thesis by blast
qed

definition sample_net :: "nat http" where
  "sample_net rq w = (fst (answers (json_marshal sample_token_json) rq ()), Suc w)"

abbreviation sample_client :: "nat http" where
  "sample_client \<equiv> client_do (\<lambda>_. []) (host_guard sample_net)"

definition sample_os :: "nat os" where
  "sample_os = \<lparr>os_base = sample_services BadModelConfig, os_net = (\<lambda>_. sample_net), os_io = env_failing [],
     os_random = (\<lambda>n w. (Inr (replicate n (CHR 0x00)), Suc w)), os_filler = (\<lambda>n w. (Inr (replicate n (CHR 0x01)), Suc w)),
     os_getenv = (\<lambda>k. if k = ''QODER_PAT'' then ''pt-1'' else []), os_stdin = [], os_exec = (\<lambda>c w. (True, Suc w)), os_goos = ''linux'', os_goarch = ''amd64'',
     os_url_text = (\<lambda>_. []), os_location_text = (\<lambda>_. []), os_key_text = [], os_auth_text = (\<lambda>_. []), os_http_time = (\<lambda>_. None), os_tools_text = (\<lambda>_. []),
     os_version = ''dev'', os_commit = ''none'', os_go_version = ''go''\<rparr>"

lemma sample_do_json:
  assumes "hostname url \<in> set allowed_upstream_hosts"
    and "unmarshal d zero (json_marshal sample_token_json) = Some x"
  shows "do_json sample_client meth url token body extra d zero w = (Inr x, Suc w)"
  using assms short_body
  by (simp add: do_json_def do_json_body_def host_guard_def client_do_def redirects_def json_request_def sample_net_def answers_def read_limited_def Let_def)

lemma sample_config: "read_config Map.empty [] = Inr default_config"
  by (simp add: read_config_def load_config_def default_config_valid)

lemma sample_parts:
  "components sample_os default_config Map.empty = Inr \<lparr>pt_http = sample_client,
     pt_store = \<lparr>st_path = ''credentials.json''\<rparr>, pt_pool = new_pool [], pt_catalog = new_catalog (60 * minute)\<rparr>"
  by (simp add: components_def new_http_client_def default_config_def sample_os_def load_locked_def
      env_failing_def Let_def)

lemma default_served: "validate_serve [] default_config = None"
proof -
  have "split_host_port ''127.0.0.1:8080'' = Some (''127.0.0.1'', ''8080'')" by code_simp
  moreover have "parse_ip ''127.0.0.1'' = Some [127, 0, 0, 1]" by code_simp
  ultimately show ?thesis
    using default_config_valid by (simp add: validate_serve_def default_config_def is_loopback_def)
qed

lemma sample_import:
  "\<exists>msg fs' w'. import_pat sample_os [''--config=''] (Map.empty, 0) = (None, msg, fs', w')"
proof -
  let ?fs = "Map.empty :: files" and ?http = "sample_client"
  have flags: "parse_flags [''config'' \<mapsto> ''config.json'', ''region'' \<mapsto> ''global''] [''--config=''] =
      Some ([''config'' \<mapsto> ''config.json'', ''region'' \<mapsto> ''global''](''config'' \<mapsto> []))"
    by (simp add: cut_at_def)
  note cfg = sample_config and pt = sample_parts
  have pat: "pat_of sample_os ''global'' 0 = (Some ''pt-1'', 0)" "trim_space ''pt-1'' = ''pt-1''"
    by (simp add: pat_of_def sample_os_def) code_simp
  have io: "os_io sample_os = env_failing []" "os_random sample_os 16 0 = (Inr (replicate 16 (CHR 0x00)), Suc 0)"
    by (simp_all add: sample_os_def)
  have hosts: "hostname (ep_pat_exchange global_endpoints) \<in> set allowed_upstream_hosts"
    "hostname (ep_user_info global_endpoints) \<in> set allowed_upstream_hosts" by code_simp+
  obtain a v where e: "exchange_pat ?http (os_clock sample_os (Suc 0)) (Some (replicate 16 (CHR 0x00))) ''global'' ''pt-1'' [] (Suc 0) =
      (Inr a, v)"
    by (simp add: exchange_pat_def for_region_def user_info_def sample_do_json [OF hosts(1) sample_token_decoded(1)]
        sample_do_json [OF hosts(2) sample_token_decoded(2)] sample_token_def sample_user_def parse_expiry_def random_uuid_def)
  have "validate_account a = None" using exchange_pat_valid [OF e refl] by simp
  then have "fst (upsert (env_failing []) \<lparr>st_path = ''credentials.json''\<rparr> a ?fs) = None"
    by (simp add: upsert_def write_locked_def Let_def env_failing_def load_locked_def)
  then obtain fs' where u: "upsert (env_failing []) \<lparr>st_path = ''credentials.json''\<rparr> a ?fs = (None, fs')"
    by (metis prod.collapse)
  show ?thesis
    using flags cfg pt pat e u io
    by (simp add: import_pat_def flag_value_def for_region_def import_account_def random_bytes_def save_account_def)
qed

theorem import_refines_upsert_witness:
  "\<exists>msg fs' w' a. import_pat sample_os [''--config=''] (Map.empty, 0) = (None, msg, fs', w')
    \<and> validate_account a = None \<and> canonical a"
proof -
  obtain msg fs' w' where r: "import_pat sample_os [''--config=''] (Map.empty, 0) = (None, msg, fs', w')"
    using sample_import by blast
  have "\<forall>v b v'. os_random sample_os 16 v = (Inr b, v') \<longrightarrow> length b = 16" by (simp add: sample_os_def)
  from import_refines_upsert [OF r this, of "env_failing []"] r show ?thesis by blast
qed

text \<open>
  C21: a running server loses imported accounts.  While a server runs, another process inserts
  an account into the credentials file, and loading shows it.  As soon as the server refreshes
  one of its own accounts, it replaces the file by its pool: the inserted account, which the pool
  does not know, is gone, although neither side has seen an error.
\<close>

theorem running_server_loses_import:
  assumes "upsert env s a fs = (None, fs1)"
    and "ensure_fresh (Some (auth_refresher http clock)) (Some s) env now i force p fs1 w = ((b, None), p', fs2, w')"
    and "force \<or> refresh_due now i p" and "i < pool_count p"
    and "acc_id a \<notin> set (map acc_id (pool_accounts p))" and "io_tmp env \<noteq> st_path s"
    and "\<And>as. load_locked env s fs = Inr as \<Longrightarrow> list_all text_account (a # as)"
    and "list_all text_account (pool_accounts p')" and "\<not> io_fails env SysStat" and "\<not> io_fails env SysRead"
  shows "(\<exists>as. load_locked env s fs1 = Inr as \<and> a \<in> set as)
    \<and> (\<exists>as. load_locked env s fs2 = Inr as \<and> acc_id a \<notin> set (map acc_id as))"
proof
  obtain as where l: "load_locked env s fs = Inr as"
    using assms(1) by (auto simp: upsert_def split: option.splits sum.splits)
  have "a \<in> set (upsert_list a as)" for as by (induction as) auto
  with upsert_loads [OF assms(1) l assms(6) assms(7) [OF l] assms(9,10)]
  show "\<exists>as. load_locked env s fs1 = Inr as \<and> a \<in> set as" by blast
next
  have p': "p' = on_entry i (\<lambda>x. x\<lparr>en_account := b, en_state := Healthy, en_last_error := []\<rparr>) p"
    and l: "load_locked env s fs2 = Inr (pool_accounts p')"
    using ensure_fresh_success [OF assms(2,3,6,8,9,10)] by blast+
  have "acc_id b = acc_id (en_account (pl_entries p ! i))"
    using auth_refreshing.fresh_id [OF assms(2)] .
  then have "map acc_id (pool_accounts p') = map acc_id (pool_accounts p)"
    unfolding p' using assms(4)
    by (simp add: on_entry_def pool_accounts_def pool_count_def map_update list_update_same_conv)
  with assms(5) have "acc_id a \<notin> set (map acc_id (pool_accounts p'))" by (simp only: not_False_eq_True)
  with l show "\<exists>as. load_locked env s fs2 = Inr as \<and> acc_id a \<notin> set (map acc_id as)" by blast
qed

definition owned :: Account where
  "owned = (sample_account ''global-u'' ''u'')\<lparr>acc_refresh_token := ''rt''\<rparr>"

definition renewed :: Account where
  "renewed = owned\<lparr>acc_access_token := ''jt-9'', acc_expires_at_ms := 3600000\<rparr>"

lemma owned_refreshes:
  "auth_refresher (answers (json_marshal sample_token_json)) (\<lambda>_. 0) owned () = (Inr renewed, ())"
  by (simp add: auth_refresher_def auth_refresh_def owned_def renewed_def sample_account_def for_region_def
      do_json_def sample_token_decoded sample_token_def parse_expiry_def)

theorem running_server_loses_import_witness:
  "\<exists>fs1 fs2 as. load_locked (env_failing []) \<lparr>st_path = ''c.json''\<rparr> fs1 = Inr as
      \<and> sample_account ''global-v'' ''v'' \<in> set as
      \<and> (\<exists>bs. load_locked (env_failing []) \<lparr>st_path = ''c.json''\<rparr> fs2 = Inr bs \<and> ''global-v'' \<notin> set (map acc_id bs))"
proof -
  let ?s = "\<lparr>st_path = ''c.json''\<rparr>" and ?env = "env_failing []" and ?a = "sample_account ''global-v'' ''v''"
  let ?p = "new_pool [owned]" and ?http = "answers (json_marshal sample_token_json)"
  have valid: "validate_account ?a = None" "validate_account renewed = None"
    by (simp_all add: sample_account_def renewed_def owned_def validate_account_def)
  have "list_all valid_utf8 [''global-u'', ''u'', ''global-v'', ''v'', ''global'', ''job'', ''jt-1'', ''jt-9'', ''rt'', ''m'', []]"
    by code_simp
  then have utf8: "text_account ?a" "text_account renewed"
    by (simp_all add: text_account_def sample_account_def renewed_def owned_def zero_account_def in64_def)
  have load: "load_locked ?env ?s Map.empty = Inr []" by (simp add: load_locked_def env_failing_def)
  then have "fst (upsert ?env ?s ?a Map.empty) = None"
    using valid by (simp add: upsert_def write_locked_def Let_def env_failing_def)
  then obtain fs1 where u: "upsert ?env ?s ?a Map.empty = (None, fs1)" by (metis prod.collapse)
  obtain b err p' fs2 w' where run: "ensure_fresh (Some (auth_refresher ?http (\<lambda>_. 0))) (Some ?s) ?env 0 0 True ?p fs1 () =
      ((b, err), p', fs2, w')" by (metis prod.collapse)
  have ok: "err = None" and p': "pool_accounts p' = [renewed]"
    using run valid(2) by (auto simp: ensure_fresh_def new_pool_def new_entry_def on_entry_def pool_accounts_def
        replace_accounts_def write_locked_def Let_def env_failing_def owned_refreshes)
  have "acc_id ?a \<notin> set (map acc_id (pool_accounts ?p))"
    by (simp add: new_pool_def new_entry_def pool_accounts_def owned_def sample_account_def)
  with running_server_loses_import [OF u run [unfolded ok]] utf8 p' load show ?thesis
    by (fastforce simp: env_failing_def new_pool_def pool_count_def sample_account_def)
qed

section \<open>The accounts of a running server\<close>

lemma valid_select:
  "server_select sv session excluded s = (r, s') \<Longrightarrow> pool_accounts (sr_pool s') = pool_accounts (sr_pool s)"
  by (auto simp: server_select_def split: prod.splits dest!: arg_cong [where f = "\<lambda>x. pool_accounts (snd x)"])

lemma valid_on_pool [simp]:
  "pool_accounts (sr_pool (on_pool (mark_auth_error i) s)) = pool_accounts (sr_pool s)"
  "pool_accounts (sr_pool (on_pool (mark_disabled now i reason) s)) = pool_accounts (sr_pool s)"
  "pool_accounts (sr_pool (on_pool (mark_cooldown now i d) s)) = pool_accounts (sr_pool s)"
  "pool_accounts (sr_pool (on_pool (snapshot_all now) s)) = pool_accounts (sr_pool s)"
  "pool_accounts (sr_pool (cache_transport i key k s)) = pool_accounts (sr_pool s)"
  by (simp_all add: on_pool_def cache_transport_def)

abbreviation valid_server :: "'w Server \<Rightarrow> bool" where
  "valid_server s \<equiv> any_invalid (pool_accounts (sr_pool s)) = None"

lemma valid_fresh:
  assumes "server_fresh (authenticated sv) i force s = ((a, err), s')" and "i < length (server_entries s)"
    and "valid_server s"
  shows "valid_server s'"
proof -
  obtain p fs w where e: "ensure_fresh (Some (auth_refresher (sc_http sv) (sc_clock sv))) (sc_store (authenticated sv))
      (sc_io (authenticated sv)) (server_now (authenticated sv) s) i force (sr_pool s) (sr_files s) (sr_world s) =
      ((a, err), p, fs, w)" and s': "s' = s\<lparr>sr_pool := p, sr_files := fs, sr_world := w\<rparr>"
    using assms(1) by (auto simp: server_fresh_def split: prod.splits)
  from auth_refreshing.valid_kept [OF e assms(2,3)] show ?thesis by (simp add: s')
qed

interpretation history_valid: server_history "authenticated sv" valid_server "\<lambda>_. True" "\<lambda>_. True" for sv
  by unfold_locales (auto dest: valid_select valid_fresh)

lemma new_pool_accounts: "pool_accounts (new_pool as) = sort_key acc_id as"
proof -
  have "map en_account (insort_key (\<lambda>e. acc_id (en_account e)) (new_entry a) es) = insort_key acc_id a (map en_account es)"
    for a es by (induction es) (auto simp: new_entry_def)
  then have "map en_account (sort_key (\<lambda>e. acc_id (en_account e)) (map new_entry as)) = sort_key acc_id as"
    by (induction as) simp_all
  then show ?thesis by (simp add: new_pool_def pool_accounts_def)
qed

text \<open>
  C11: a running server's accounts are well-formed.  Once \<open>serve\<close> has started, whatever requests
  come and whatever the network and the disk do, every account of the pool passes the store's
  validation, and the pool has exactly the accounts of the credentials file that was loaded, in
  the order of their ids.
\<close>

theorem served_accounts_valid:
  assumes "serve os args requests (fs, w) = Inr s"
  shows "(\<forall>a \<in> set (pool_accounts (sr_pool s)). validate_account a = None)
    \<and> (\<exists>cfg as. load_command args fs = Inr cfg
        \<and> load_locked (os_io os) \<lparr>st_path = cf_credentials_file cfg\<rparr> fs = Inr as
        \<and> map acc_id (pool_accounts (sr_pool s)) = map acc_id (sort_key acc_id as))"
proof -
  obtain cfg pt s0 where c: "load_command args fs = Inr cfg" and pt: "components os cfg fs = Inr pt"
    and p: "prime (program_services os cfg pt) (new_server (pt_pool pt) (pt_catalog pt) fs w) = (True, s0)"
    and s: "s = serve_all (program_services os cfg pt) (map Request requests) s0"
    using assms by (auto simp: serve_def Let_def split: sum.splits option.splits prod.splits bool.splits)
  obtain as where as: "load_locked (os_io os) \<lparr>st_path = cf_credentials_file cfg\<rparr> fs = Inr as" "pt_pool pt = new_pool as"
    using pt by (auto simp: components_def Let_def split: sum.splits)
  let ?s = "new_server (pt_pool pt) (pt_catalog pt) fs w"
  have s': "s = serve_all (program_services os cfg pt) (Primed # map Request requests) ?s"
    using s p by (simp add: serve_all_def)
  obtain sv where sv: "program_services os cfg pt = authenticated sv" by (simp add: program_services_def)
  have "valid_server ?s"
    using load_valid [OF as(1)] by (simp add: new_server_def as(2) new_pool_accounts any_invalid_None)
  from history_valid.serve_all_inv [OF this] have "valid_server s" unfolding s' sv .
  moreover have "server_ids s = server_ids ?s"
    unfolding s' sv by (rule history_ids.serve_all_inv) simp
  ultimately show ?thesis
    using c as(1) by (auto simp: any_invalid_None new_server_def as(2) new_pool_accounts)
qed

theorem served_accounts_valid_witness:
  "\<exists>s. serve sample_os [''--config=''] [] (Map.empty, 0) = Inr s \<and> pool_accounts (sr_pool s) = []"
proof -
  have "parse_flags [''config'' \<mapsto> ''config.json''] [''--config=''] = Some ([''config'' \<mapsto> ''config.json''](''config'' \<mapsto> []))"
    by (simp add: cut_at_def)
  then have c: "load_command [''--config=''] Map.empty = Inr default_config"
    by (simp add: load_command_def flag_value_def sample_config)
  have p: "prime sv (new_server (new_pool []) cat fs w) = (True, set_ready False False
      (Some (select_error_text NoHealthyAccount)) (new_server (new_pool []) cat fs w))" for sv and cat fs and w :: nat
    by (simp add: prime_def server_select_def new_server_def select_def candidates_def snapshot_all_def new_pool_def Let_def)
  have "os_getenv sample_os ''QODER_PROXY_API_KEY'' = []" by (simp add: sample_os_def)
  then obtain s where s: "serve sample_os [''--config=''] [] (Map.empty, 0) = Inr s"
    by (simp add: serve_def c sample_parts default_served p del: select_error_text.simps)
  obtain cfg as where "load_command [''--config=''] Map.empty = Inr cfg"
    "load_locked (os_io sample_os) \<lparr>st_path = cf_credentials_file cfg\<rparr> Map.empty = Inr as"
    "map acc_id (pool_accounts (sr_pool s)) = map acc_id (sort_key acc_id as)"
    using served_accounts_valid [OF s] by blast
  with s show ?thesis by (auto simp: load_locked_def sample_os_def env_failing_def)
qed

section \<open>The doctor's report\<close>

text \<open>
  The doctor prints the name of the user.  The line for an account whose user the token
  endpoint names ends with that name, although the README says that the output uses anonymous
  identifiers only.
\<close>

lemma doctor_prints_name:
  assumes "user_info (pt_http pt) (acc_region a) (acc_access_token a) w = (Inr u, w1)" and "ui_name u \<noteq> []"
    and "set (ui_name u) \<inter> {LF, CR, TAB} = {}"
  shows "\<exists>before. fst (doctor_line os pt a w) = before @ '' user='' @ ui_name u @ [LF]"
proof -
  have "map (\<lambda>c. if c \<in> {LF, CR, TAB} then CHR '' '' else c) (ui_name u) = ui_name u"
    using assms(3) by (intro map_idI) auto
  with assms(1,2) show ?thesis
    by (auto simp: doctor_line_def safe_name_def split: prod.splits)
qed

end
