(* ===== verification/Interleaving.thy ===== *)
theory Interleaving
  imports Server
begin

text \<open>
  The abstract server: a transition system whose steps are the sections that the program guards
  by a lock.  Requests that run at once interleave these steps in any order.  Every history of
  requests that are served one after the other is a run of the system, and what every step keeps
  holds whatever the interleaving.
\<close>

section \<open>The steps\<close>

text \<open>A section sees what other requests have left: the world of a refresh is any world, and the
  list that is written to the file was collected entry by entry, so it is any list with the
  pool's ids.  Which system calls fail may differ from write to write.  \<open>Select\<close> and \<open>Available\<close>
  look at one entry after the other, each under its own lock and at its own time, and the
  counter is atomic.\<close>

definition write_env :: "('e, 'w) services \<Rightarrow> io_env \<Rightarrow> bool" where
  "write_env sv env \<longleftrightarrow> io_tmp env = io_tmp (sc_io sv)"

inductive shared_step :: "(auth_error, 'w) services \<Rightarrow> 'w Server \<Rightarrow> 'w Server \<Rightarrow> bool" for sv where
  snapshots: "shared_step sv s (on_pool (on_entry i (snapshot now)) s)"
| counted: "shared_step sv s (on_pool (\<lambda>p. p\<lparr>pl_rr := (pl_rr p + 1) mod 2 ^ 64\<rparr>) s)"
| refreshed: "i < length (server_entries s) \<Longrightarrow>
    auth_refresher (http :: 'w http) clock (en_account (server_entries s ! i)) w = (Inr b, w') \<Longrightarrow>
    shared_step sv s (on_pool (on_entry i (\<lambda>x. x\<lparr>en_account := b, en_state := Healthy, en_last_error := []\<rparr>)) s)"
| refresh_failed: "shared_step sv s (on_pool (on_entry i (\<lambda>x. x\<lparr>en_last_error := m\<rparr>)) s)"
| persisted: "sc_store sv = Some st \<Longrightarrow> write_env sv env \<Longrightarrow> map acc_id xs = server_ids s \<Longrightarrow>
    shared_step sv s (s\<lparr>sr_files := snd (replace_accounts env st xs (sr_files s))\<rparr>)"
| world: "shared_step sv s (s\<lparr>sr_world := w\<rparr>)"
| catalog: "shared_step sv s (s\<lparr>sr_catalog := c\<rparr>)"
| transport: "shared_step sv s (on_pool (on_entry i (set_transport t)) s)"
| cached: "acc_id a \<in> set (server_ids s) \<Longrightarrow> may_cache sv cls k \<Longrightarrow>
    shared_step sv s (s\<lparr>sr_cache := (sr_cache s)(cache_key a cls \<mapsto> kind_name k)\<rparr>)"
| rejected: "shared_step sv s (on_pool (mark_auth_error i) s)"
| disabled: "shared_step sv s (on_pool (mark_disabled now i reason) s)"
| cooldown: "shared_step sv s (on_pool (mark_cooldown now i d) s)"
| ready: "shared_step sv s (s\<lparr>sr_ready := b, sr_degraded := d, sr_ready_error := e\<rparr>)"

abbreviation shared_run :: "(auth_error, 'w) services \<Rightarrow> 'w Server \<Rightarrow> 'w Server \<Rightarrow> bool" where
  "shared_run sv \<equiv> (shared_step sv)\<^sup>*\<^sup>*"

section \<open>What every step keeps\<close>

lemma files_on_pool [simp]: "sr_files (on_pool f s) = sr_files s"
  by (simp add: on_pool_def)

lemma accounts_counted [simp]: "pool_accounts (sr_pool (on_pool (\<lambda>p. p\<lparr>pl_rr := f p\<rparr>) s)) = pool_accounts (sr_pool s)"
  by (simp add: on_pool_def pool_accounts_def)

lemma ids_on_entry:
  "(\<And>x. acc_id (en_account (f x)) = acc_id (en_account x)) \<Longrightarrow> server_ids (on_pool (on_entry i f) s) = server_ids s"
  by (simp add: on_pool_def on_entry_def pool_accounts_def map_update list_update_same_conv)

lemma ids_set_account:
  assumes "acc_id b = acc_id (en_account (server_entries s ! i))"
  shows "server_ids (on_pool (on_entry i (\<lambda>x. x\<lparr>en_account := b, en_state := st, en_last_error := m\<rparr>)) s) = server_ids s"
  using assms by (simp add: on_pool_def on_entry_def pool_accounts_def map_update list_update_same_conv)

lemma refreshed_id: "auth_refresher http clock a w = (Inr b, w') \<Longrightarrow> acc_id b = acc_id a"
  by (drule auth_refreshing.same_identity) simp

lemma step_ids: "shared_step sv s s' \<Longrightarrow> server_ids s' = server_ids s"
  by (induction rule: shared_step.induct)
    (auto simp: ids_set_account refreshed_id set_transport_def intro!: ids_on_entry)

lemma run_ids: "shared_run sv s s' \<Longrightarrow> server_ids s' = server_ids s"
  by (induction rule: rtranclp_induct) (simp_all add: step_ids)

section \<open>Requests are runs\<close>

lemma step_run: "shared_run sv s t \<Longrightarrow> shared_step sv t u \<Longrightarrow> shared_run sv s u"
  by (rule rtranclp.rtrancl_into_rtrancl)

text \<open>A pass over all entries is a run of the looks at each of them.\<close>

lemma snapshot_prefix_run:
  "n \<le> length (server_entries s) \<Longrightarrow>
   shared_run sv s (on_pool (on_entries (\<lambda>es. map (snapshot now) (take n es) @ drop n es)) s)"
proof (induction n)
  case 0
  then show ?case by (simp add: on_pool_def)
next
  case (Suc n)
  let ?f = "\<lambda>n es. map (snapshot now) (take n es) @ drop n es"
  have "(?f n es)[n := snapshot now (?f n es ! n)] = ?f (Suc n) es" if "n < length es" for es
    using that by (intro nth_equalityI) (auto simp: nth_append nth_list_update min_def)
  with Suc.prems have "on_pool (on_entry n (snapshot now)) (on_pool (on_entries (?f n)) s)
      = on_pool (on_entries (?f (Suc n))) s"
    by (simp add: on_pool_def on_entry_def)
  with step_run [OF Suc.IH shared_step.snapshots [of sv _ n now]] Suc.prems show ?case by simp
qed

lemma snapshot_all_run: "shared_run sv s (on_pool (snapshot_all now) s)"
  using snapshot_prefix_run [of "length (server_entries s)" s sv now]
  by (simp add: on_pool_def snapshot_all_def)

lemma select_run:
  assumes "server_select sv session excluded s = (r, s')"
  shows "shared_run sv s s'"
proof -
  let ?a = "on_pool (snapshot_all (server_now sv s)) s"
  have "s' = s\<lparr>sr_pool := snd (select (server_now sv s) session excluded (sr_pool s))\<rparr>"
    using assms by (simp add: server_select_def split: prod.splits)
  then have "s' = ?a \<or> s' = on_pool (\<lambda>p. p\<lparr>pl_rr := (pl_rr p + 1) mod 2 ^ 64\<rparr>) ?a"
    by (simp add: select_def on_pool_def Let_def del: power_numeral)
  then show ?thesis
    using snapshot_all_run [of sv s] step_run [OF snapshot_all_run [of sv s] shared_step.counted] by blast
qed

lemma entry_in_pool: "i < length (server_entries s) \<Longrightarrow> acc_id (en_account (server_entries s ! i)) \<in> set (server_ids s)"
  by (simp add: pool_accounts_def)

lemma ensure_fresh_steps:
  assumes "ensure_fresh (Some refresh) store env now i force p fs w = (r, p', fs', w')"
  shows "p' = p \<and> fs' = fs
    \<or> p' = on_entry i (\<lambda>x. x\<lparr>en_last_error := ''token refresh failed''\<rparr>) p \<and> fs' = fs
    \<or> (\<exists>b w1. refresh (en_account (pl_entries p ! i)) w = (Inr b, w1)
        \<and> p' = on_entry i (\<lambda>x. x\<lparr>en_account := b, en_state := Healthy, en_last_error := []\<rparr>) p
        \<and> (fs' = fs \<or> (\<exists>st. store = Some st \<and> fs' = snd (replace_accounts env st (pool_accounts p') fs))))"
  using assms by (simp add: ensure_fresh_def Let_def split: if_splits prod.splits sum.splits option.splits)

lemma fresh_run:
  assumes "server_fresh (authenticated sv) i force s = ((a, err), s')" and "i < length (server_entries s)"
  shows "shared_run sv s s'"
proof -
  let ?r = "auth_refresher (sc_http sv) (sc_clock sv)" and ?old = "en_account (server_entries s ! i)"
  let ?set = "\<lambda>b. on_pool (on_entry i (\<lambda>x. x\<lparr>en_account := b, en_state := Healthy, en_last_error := []\<rparr>)) s"
  obtain p fs w where e: "ensure_fresh (Some ?r) (sc_store sv) (sc_io sv) (server_now (authenticated sv) s) i force
      (sr_pool s) (sr_files s) (sr_world s) = ((a, err), p, fs, w)"
    and s': "s' = s\<lparr>sr_pool := p, sr_files := fs, sr_world := w\<rparr>"
    using assms(1) by (auto simp: server_fresh_def authenticated_def split: prod.splits)
  from ensure_fresh_steps [OF e] consider "p = sr_pool s" "fs = sr_files s"
    | "p = on_entry i (\<lambda>x. x\<lparr>en_last_error := ''token refresh failed''\<rparr>) (sr_pool s)" "fs = sr_files s"
    | b w1 where "?r ?old (sr_world s) = (Inr b, w1)" "p = sr_pool (?set b)" "fs = sr_files s"
    | b w1 st where "?r ?old (sr_world s) = (Inr b, w1)" "p = sr_pool (?set b)" "sc_store sv = Some st"
        "fs = snd (replace_accounts (sc_io sv) st (pool_accounts p) (sr_files s))"
    by (simp add: on_pool_def) blast
  then show ?thesis
  proof cases
    case 1
    then show ?thesis using shared_step.world [of sv s w] by (simp add: s' r_into_rtranclp)
  next
    case 2
    from step_run [OF r_into_rtranclp shared_step.world, OF shared_step.refresh_failed]
    have "shared_run sv s ((on_pool (on_entry i (\<lambda>x. x\<lparr>en_last_error := ''token refresh failed''\<rparr>)) s)\<lparr>sr_world := w\<rparr>)" .
    with 2 show ?thesis by (simp add: s' on_pool_def)
  next
    case 3
    have "shared_run sv s (?set b)" by (rule r_into_rtranclp, rule shared_step.refreshed [OF assms(2) 3(1)])
    from step_run [OF this shared_step.world [of sv _ w]] 3 show ?thesis by (simp add: s' on_pool_def)
  next
    case 4
    have r: "shared_run sv s (?set b)" by (rule r_into_rtranclp, rule shared_step.refreshed [OF assms(2) 4(1)])
    have "shared_step sv (?set b) ((?set b)\<lparr>sr_files := fs\<rparr>)"
      unfolding 4(4) using shared_step.persisted [OF 4(3), of "sc_io sv" "pool_accounts p" "?set b"] 4(2)
      by (simp add: write_env_def)
    from step_run [OF step_run [OF r this] shared_step.world [of sv _ w]] 4(2) show ?thesis
      by (simp add: s' on_pool_def)
  qed
qed

lemma cache_run:
  assumes "acc_id a \<in> set (server_ids s)" and "may_cache sv cls k"
  shows "shared_run sv s (cache_transport i (cache_key a cls) k s)"
proof -
  have "shared_run sv s (s\<lparr>sr_cache := (sr_cache s)(cache_key a cls \<mapsto> kind_name k)\<rparr>)"
    by (rule r_into_rtranclp) (rule shared_step.cached [OF assms])
  from step_run [OF this shared_step.transport [of sv _ i "kind_name k"]] show ?thesis by (simp add: cache_transport_def)
qed

lemma may_cache_authenticated [simp]: "may_cache (authenticated sv) = may_cache sv"
  by (simp add: may_cache_def fun_eq_iff)

lemma select_authenticated: "server_select (authenticated sv) = server_select sv"
  by (simp add: fun_eq_iff server_select_def server_now_def authenticated_def)

interpretation sequential: server_history "authenticated sv" "\<lambda>t. shared_run sv s t"
  "\<lambda>a. acc_id a \<in> set (server_ids s)" "\<lambda>_. True" for sv s
proof unfold_locales
  show "shared_run sv s u" if "shared_run sv s t" "server_select (authenticated sv) session excluded t = (r, u)"
    for t u session excluded r
    using rtranclp_trans [OF that(1)] select_run [of sv session excluded t r u] that(2)
    by (simp add: select_authenticated)
  show "shared_run sv s (on_pool (snapshot_all now) t)" if "shared_run sv s t" for t now
    by (rule rtranclp_trans [OF that snapshot_all_run])
  show "shared_run sv s u \<and> acc_id a \<in> set (server_ids s)"
    if "shared_run sv s t" "i < length (server_entries t)" "server_fresh (authenticated sv) i force t = ((a, err), u)"
    for t u i force a err
    using fresh_run [OF that(3,2)] ids_fresh [OF that(3,2)] run_ids [OF that(1)] that(1) by auto
  show "shared_run sv s (cache_transport i (cache_key a cls) k t)"
    if "shared_run sv s t" "acc_id a \<in> set (server_ids s)" "may_cache (authenticated sv) cls k" for t a cls k i
    using cache_run [of a t sv cls k i] run_ids [OF that(1)] that by auto
qed (auto intro: step_run shared_step.intros)

text \<open>
  C20: the server implements the abstract system.  Every history of priming and requests, with
  any answers from outside, is a run of the guarded steps.
\<close>

theorem history_is_run: "shared_run sv s (serve_all (authenticated sv) evs s)"
  by (rule sequential.serve_all_inv) simp

section \<open>What holds whatever the interleaving\<close>

definition file_of_pool :: "('e, 'w) services \<Rightarrow> 'w Server \<Rightarrow> 'w Server \<Rightarrow> bool" where
  "file_of_pool sv s t \<longleftrightarrow> (case sc_store sv of
      None \<Rightarrow> sr_files t = sr_files s
    | Some st \<Rightarrow> sr_files t (st_path st) = sr_files s (st_path st) \<or>
        (\<exists>xs. map acc_id xs = server_ids s \<and>
           sr_files t (st_path st) = Some \<lparr>f_perm = 384, f_data = file_text xs\<rparr>))"

lemma replace_path:
  "io_tmp env \<noteq> st_path st \<Longrightarrow> snd (replace_accounts env st xs fs) (st_path st) = fs (st_path st) \<or>
   snd (replace_accounts env st xs fs) (st_path st) = Some \<lparr>f_perm = 384, f_data = file_text xs\<rparr>"
  using write_locked_path by (auto simp: replace_accounts_def split: option.splits)

lemma step_file:
  assumes "shared_step sv t u" and "file_of_pool sv s t" and "server_ids t = server_ids s"
    and "\<forall>st. sc_store sv = Some st \<longrightarrow> io_tmp (sc_io sv) \<noteq> st_path st"
  shows "file_of_pool sv s u"
  using assms
proof (induction rule: shared_step.induct)
  case (persisted st env xs t)
  then have "io_tmp env \<noteq> st_path st" by (simp add: write_env_def)
  from replace_path [OF this, of xs "sr_files t"] persisted show ?case
    by (auto simp: file_of_pool_def)
qed (auto simp: file_of_pool_def server_select_def cache_transport_def split: prod.splits option.splits)

lemma valid_on_entry:
  assumes "\<And>x. validate_account (en_account x) = None \<Longrightarrow> validate_account (en_account (f x)) = None"
    and "any_invalid (pool_accounts (sr_pool s)) = None"
  shows "any_invalid (pool_accounts (sr_pool (on_pool (on_entry i f) s))) = None"
proof (cases "i < length (server_entries s)")
  case True
  then have "server_entries s ! i \<in> set (server_entries s)" by simp
  with assms have "validate_account (en_account (f (server_entries s ! i))) = None"
    by (simp add: pool_accounts_def any_invalid_None)
  with assms(2) True show ?thesis
    by (auto simp: on_pool_def on_entry_def pool_accounts_def any_invalid_None
        dest!: set_update_subset_insert [THEN subsetD])
qed (use assms(2) in \<open>simp add: on_pool_def on_entry_def\<close>)

lemma step_valid:
  assumes "shared_step sv s t" and "any_invalid (pool_accounts (sr_pool s)) = None"
  shows "any_invalid (pool_accounts (sr_pool t)) = None"
  using assms
proof (induction rule: shared_step.induct)
  case (refreshed i s http clock w b w')
  have "en_account (server_entries s ! i) \<in> set (pool_accounts (sr_pool s))"
    using refreshed(1) by (simp add: pool_accounts_def)
  with refreshed have "validate_account b = None"
    using auth_refreshing.refreshed_valid by (metis any_invalid_None)
  then show ?case using refreshed(3) by (intro valid_on_entry) simp_all
qed (auto simp: set_transport_def mark_auth_error_def mark_disabled_def mark_cooldown_def Let_def intro!: valid_on_entry)

lemma step_cache: "shared_step sv s t \<Longrightarrow> cache_inv sv s \<Longrightarrow> cache_inv sv t"
proof (induction rule: shared_step.induct)
  case (cached a s cls k)
  then have "bar_free (acc_id a)" by (auto simp: cache_inv_def list_all_iff)
  with cached show ?case using cache_ok_update [of "sr_cache s" a sv cls k] by (simp add: cache_inv_def)
next
  case (counted s)
  then show ?case by (simp add: cache_inv_def)
next
  case (refreshed i s http clock w b w')
  then show ?case by (simp add: cache_inv_def ids_set_account refreshed_id)
qed (simp_all add: cache_inv_def ids_on_entry set_transport_def)

text \<open>
  C19: what holds whatever the interleaving.  In every state that the guarded steps of any number
  of requests can reach, the pool has the same accounts in the same order, valid ones if they
  were valid; and the credentials file is untouched or the complete text of a list with the pool's
  ids, whichever system calls have failed.  Unless the configuration forces Bearer, no concrete
  model is cached for Bearer if none was and no account has a bar in its id.
\<close>

theorem interleaving_safe:
  assumes "shared_run sv s t" and "\<forall>st. sc_store sv = Some st \<longrightarrow> io_tmp (sc_io sv) \<noteq> st_path st"
  shows "map acc_id (pool_accounts (sr_pool t)) = map acc_id (pool_accounts (sr_pool s))
    \<and> (any_invalid (pool_accounts (sr_pool s)) = None \<longrightarrow> any_invalid (pool_accounts (sr_pool t)) = None)
    \<and> file_of_pool sv s t
    \<and> (cf_transport (sc_config sv) \<noteq> ''bearer'' \<and> cache_ok (sr_cache s) \<and>
         list_all bar_free (map acc_id (pool_accounts (sr_pool s))) \<longrightarrow> cache_ok (sr_cache t))"
proof -
  from assms(1) have "server_ids t = server_ids s
    \<and> (any_invalid (pool_accounts (sr_pool s)) = None \<longrightarrow> any_invalid (pool_accounts (sr_pool t)) = None)
    \<and> file_of_pool sv s t \<and> (cache_inv sv s \<longrightarrow> cache_inv sv t)"
  proof (induction rule: rtranclp_induct)
    case base
    then show ?case by (simp add: file_of_pool_def split: option.splits)
  next
    case (step t u)
    then show ?case using step_ids step_valid step_file [OF step(2) _ _ assms(2)] step_cache by metis
  qed
  then show ?thesis by (simp add: cache_inv_def)
qed

theorem interleaving_safe_witness:
  "map acc_id (pool_accounts (sr_pool (serve_all (authenticated (sample_services quota_error)) [Primed] sample_server)))
     = [''global-u'']
   \<and> cache_ok (sr_cache (serve_all (authenticated (sample_services quota_error)) [Primed] sample_server))"
proof -
  have "\<forall>st. sc_store (sample_services quota_error) = Some st \<longrightarrow> io_tmp (sc_io (sample_services quota_error)) \<noteq> st_path st"
    by (simp add: sample_services_def)
  moreover have "shared_run (sample_services quota_error) sample_server
      (serve_all (authenticated (sample_services quota_error)) [Primed] sample_server)"
    by (rule sequential.serve_all_inv) simp
  moreover have "map acc_id (pool_accounts (sr_pool sample_server)) = [''global-u'']" "cache_ok (sr_cache sample_server)"
    by (simp_all add: sample_server_def new_server_def new_pool_def new_entry_def pool_accounts_def sample_account_def
        cache_ok_def)
  moreover have "cf_transport (sc_config (sample_services quota_error)) \<noteq> ''bearer''" "bar_free ''global-u''"
    by (simp_all add: sample_services_def default_config_def bar_free_def)
  ultimately show ?thesis using interleaving_safe [of "sample_services quota_error" sample_server] by force
qed

end
