(* ===== verification/Interference.thy ===== *)
theory Interference
  imports Interleaving
begin

text \<open>
  A chat request among others.  The handler of a chat is cut into phases at the calls after which
  another request can get in between; run on its own, the phases compute \<open>chat_loop\<close>.  Then the
  guarded steps of theory \<open>Interleaving\<close> are put between them, as many as one likes.  Choosing a
  transport and \<open>EnsureFresh\<close> are one phase each, although others can get in between their
  own sections, too.
\<close>

section \<open>Phases\<close>

text \<open>Each phase is named after what is done next; \<open>nat\<close> is the entry of the pool.\<close>

datatype phase =
    Head
  | Refreshing nat
  | Rejecting nat
  | Listing nat Account
  | Picking nat Account Model
  | Calling nat Account Model transport_kind
  | Answered nat Account Model transport_kind "call_error + UpstreamResponse"
  | Retrying nat Account Model transport_kind
  | Checking nat Account Model transport_kind "call_error + UpstreamResponse"
  | Falling nat Account Model transport_kind "call_error + UpstreamResponse"
  | Switched nat Account Model
  | Deciding nat Account Model "call_error + UpstreamResponse"
  | Finished verdict

type_synonym 'w config = "phase \<times> Turn \<times> 'w Server"

fun after_turn :: "verdict \<times> Turn \<times> 'w Server \<Rightarrow> 'w config" where
  "after_turn (v, tn, s) = (if v = Again then Head else Finished v, tn, s)"

definition select_failed :: "Turn \<Rightarrow> verdict" where
  "select_failed tn = (case tn_quota tn of
      Some he \<Rightarrow> quota_answer he
    | None \<Rightarrow> answer_error 503 ''no_account'' (select_error_text NoHealthyAccount))"

definition decide ::
  "('e, 'w) services \<Rightarrow> client_out \<Rightarrow> ChatRequest \<Rightarrow> nat \<Rightarrow> Account \<Rightarrow> Model \<Rightarrow> call_error + UpstreamResponse \<Rightarrow>
   Turn \<Rightarrow> 'w Server \<Rightarrow> verdict \<times> Turn \<times> 'w Server" where
  "decide sv out req i account model r tn s = (case r of
      Inl e \<Rightarrow> on_call_error sv i account e tn s
    | Inr up \<Rightarrow>
      (let ((body, fin), w) = sc_deliver sv up (sr_world s);
           (reply, status) = relay (sc_detail sv) out body fin req model
       in (Answer reply status, tn, s\<lparr>sr_world := w\<rparr>)))"

definition falls_back :: "('e, 'w) services \<Rightarrow> transport_kind \<Rightarrow> call_error + UpstreamResponse \<Rightarrow> bool" where
  "falls_back sv k r \<longleftrightarrow> error_status r \<in> {Some 404, Some 405} \<and> cf_transport (sc_config sv) = ''auto'' \<and>
     ct_name (transport_of sv k) = ''bearer''"

fun chat_step ::
  "('e, 'w) services \<Rightarrow> client_out \<Rightarrow> ChatRequest \<Rightarrow> int \<Rightarrow> 'w config \<Rightarrow> 'w config" where
  "chat_step sv out req mx (Head, tn, s) =
    (if tn_attempts tn < mx then
       (case server_select sv (cr_session_key req) (tn_excluded tn) s of
          (Inl IndexPanic, s) \<Rightarrow> (Finished Panic, tn, s)
        | (Inl NoHealthyAccount, s) \<Rightarrow> (Finished (select_failed tn), tn, s)
        | (Inr i, s) \<Rightarrow> (Refreshing i, tn, s))
     else (Finished (exhausted tn), tn, s))"
| "chat_step sv out req mx (Refreshing i, tn, s) =
    (let ((a, err), s) = server_fresh sv i False s;
         tn = tn\<lparr>tn_excluded := insert (acc_id a) (tn_excluded tn), tn_attempts := tn_attempts tn + 1\<rparr>
     in (if err \<noteq> None then Rejecting i else Listing i a, tn, s))"
| "chat_step sv out req mx (Rejecting i, tn, s) = (Head, tn, on_pool (mark_auth_error i) s)"
| "chat_step sv out req mx (Listing i a, tn, s) =
    (let ((snap, err), s) = server_catalog sv a s in
     if err \<noteq> None \<and> cs_models snap = [] then (Head, tn, s)
     else (case find_model (cs_models snap) (cr_model req) of
         None \<Rightarrow> (Finished (answer_error 400 ''model_not_found'' ''model is not available for the selected Qoder account''), tn, s)
       | Some m \<Rightarrow>
         (case validate_capabilities req m of
            Some e \<Rightarrow> (Finished (answer_error 400 ''unsupported_capability'' (sc_unsupported sv e)), tn, s)
          | None \<Rightarrow> (Picking i a m, tn, s))))"
| "chat_step sv out req mx (Picking i a m, tn, s) =
    (case pick_transport sv i a (md_upstream_key m) s of
       (Inl _, s) \<Rightarrow> (Head, tn, s)
     | (Inr k, s) \<Rightarrow> (Calling i a m k, tn, s))"
| "chat_step sv out req mx (Calling i a m k, tn, s) =
    (let (r, s) = server_chat sv k a req m s in (Answered i a m k r, tn, s))"
| "chat_step sv out req mx (Answered i a m k r, tn, s) =
    (if error_status r \<noteq> Some 401 then (Falling i a m k r, tn, s)
     else
       (let ((b, err), s) = server_fresh sv i True s
        in (if err = None then Retrying i b m k else Checking i a m k r, tn, s)))"
| "chat_step sv out req mx (Retrying i a m k, tn, s) =
    (let (r, s) = server_chat sv k a req m s in (Checking i a m k r, tn, s))"
| "chat_step sv out req mx (Checking i a m k r, tn, s) =
    (Falling i a m k r, tn, if error_status r = Some 401 then on_pool (mark_auth_error i) s else s)"
| "chat_step sv out req mx (Falling i a m k r, tn, s) =
    (if falls_back sv k r
     then (Switched i a m, tn, cache_transport i (cache_key a (fallback_class (md_upstream_key m))) Cosy s)
     else (Deciding i a m r, tn, s))"
| "chat_step sv out req mx (Switched i a m, tn, s) =
    (let (r, s) = server_chat sv Cosy a req m s in (Deciding i a m r, tn, s))"
| "chat_step sv out req mx (Deciding i a m r, tn, s) = after_turn (decide sv out req i a m r tn s)"
| "chat_step sv out req mx (Finished v, tn, s) = (Finished v, tn, s)"

section \<open>On its own, a request computes the loop\<close>

text \<open>What is left to do in a phase.\<close>

fun loop_after ::
  "('e, 'w) services \<Rightarrow> client_out \<Rightarrow> ChatRequest \<Rightarrow> int \<Rightarrow> verdict \<times> Turn \<times> 'w Server \<Rightarrow> verdict \<times> 'w Server" where
  "loop_after sv out req mx (v, tn, s) = (if v = Again then chat_loop sv out req mx tn s else (v, s))"

definition switch_and_decide where
  "switch_and_decide sv out req i a m k r tn s =
    (let (r, s) = fall_back sv i a req m k r s in decide sv out req i a m r tn s)"

fun meaning :: "('e, 'w) services \<Rightarrow> client_out \<Rightarrow> ChatRequest \<Rightarrow> int \<Rightarrow> 'w config \<Rightarrow> verdict \<times> 'w Server" where
  "meaning sv out req mx (Head, tn, s) = chat_loop sv out req mx tn s"
| "meaning sv out req mx (Refreshing i, tn, s) = loop_after sv out req mx
    (let ((a, err), s) = server_fresh sv i False s;
         tn = tn\<lparr>tn_excluded := insert (acc_id a) (tn_excluded tn), tn_attempts := tn_attempts tn + 1\<rparr>
     in if err \<noteq> None then (Again, tn, on_pool (mark_auth_error i) s) else serve_account sv out req i a tn s)"
| "meaning sv out req mx (Rejecting i, tn, s) = chat_loop sv out req mx tn (on_pool (mark_auth_error i) s)"
| "meaning sv out req mx (Listing i a, tn, s) = loop_after sv out req mx (serve_account sv out req i a tn s)"
| "meaning sv out req mx (Picking i a m, tn, s) = loop_after sv out req mx
    (case pick_transport sv i a (md_upstream_key m) s of
       (Inl _, s) \<Rightarrow> (Again, tn, s)
     | (Inr k, s) \<Rightarrow> (let (r, a, s) = call_upstream sv i a req m k s in decide sv out req i a m r tn s))"
| "meaning sv out req mx (Calling i a m k, tn, s) = loop_after sv out req mx
    (let (r, a, s) = call_upstream sv i a req m k s in decide sv out req i a m r tn s)"
| "meaning sv out req mx (Answered i a m k r, tn, s) = loop_after sv out req mx
    (let (r, a, s) = retry_unauthorized sv i a req m k r s in switch_and_decide sv out req i a m k r tn s)"
| "meaning sv out req mx (Retrying i a m k, tn, s) = loop_after sv out req mx
    (let (r, s) = server_chat sv k a req m s;
         s = (if error_status r = Some 401 then on_pool (mark_auth_error i) s else s)
     in switch_and_decide sv out req i a m k r tn s)"
| "meaning sv out req mx (Checking i a m k r, tn, s) = loop_after sv out req mx
    (switch_and_decide sv out req i a m k r tn
      (if error_status r = Some 401 then on_pool (mark_auth_error i) s else s))"
| "meaning sv out req mx (Falling i a m k r, tn, s) = loop_after sv out req mx
    (switch_and_decide sv out req i a m k r tn s)"
| "meaning sv out req mx (Switched i a m, tn, s) = loop_after sv out req mx
    (let (r, s) = server_chat sv Cosy a req m s in decide sv out req i a m r tn s)"
| "meaning sv out req mx (Deciding i a m r, tn, s) = loop_after sv out req mx (decide sv out req i a m r tn s)"
| "meaning sv out req mx (Finished v, tn, s) = (v, s)"

lemma meaning_after_turn: "meaning sv out req mx (after_turn x) = loop_after sv out req mx x"
  by (cases x rule: prod_cases3) simp

lemma serve_account_phases:
  "serve_account sv out req i a tn s =
    (let ((snap, err), s) = server_catalog sv a s in
     if err \<noteq> None \<and> cs_models snap = [] then (Again, tn, s)
     else (case find_model (cs_models snap) (cr_model req) of
         None \<Rightarrow> (answer_error 400 ''model_not_found'' ''model is not available for the selected Qoder account'', tn, s)
       | Some m \<Rightarrow>
         (case validate_capabilities req m of
            Some e \<Rightarrow> (answer_error 400 ''unsupported_capability'' (sc_unsupported sv e), tn, s)
          | None \<Rightarrow>
            (case pick_transport sv i a (md_upstream_key m) s of
               (Inl _, s) \<Rightarrow> (Again, tn, s)
             | (Inr k, s) \<Rightarrow> (let (r, a, s) = call_upstream sv i a req m k s in decide sv out req i a m r tn s)))))"
  unfolding serve_account_def decide_def by (rule refl)

lemma fall_back_phases:
  "fall_back sv i a req m k r s =
    (if falls_back sv k r
     then server_chat sv Cosy a req m (cache_transport i (cache_key a (fallback_class (md_upstream_key m))) Cosy s)
     else (r, s))"
  unfolding fall_back_def falls_back_def by (rule refl)

lemma answer_goes_on [simp]: "answer_error status typ msg \<noteq> Again"
  by (simp add: answer_error_def)

lemma select_failed_goes_on [simp]: "select_failed tn \<noteq> Again"
  by (simp add: select_failed_def quota_answer_def split: option.split)

lemma exhausted_goes_on [simp]: "exhausted tn \<noteq> Again"
  by (simp add: exhausted_def quota_answer_def split: option.split)

lemma chat_loop_turn:
  "tn_attempts tn < mx \<Longrightarrow> chat_loop sv out req mx tn s = loop_after sv out req mx (chat_turn sv out req tn s)"
  by (subst chat_loop.simps) (auto split: prod.splits verdict.splits)

lemma meaning_step: "meaning sv out req mx (chat_step sv out req mx c) = meaning sv out req mx c"
proof (cases c rule: prod_cases3)
  case (fields ph tn s)
  show ?thesis
  proof (cases ph)
    case Head
    show ?thesis
    proof (cases "tn_attempts tn < mx")
      case True
      then show ?thesis unfolding fields Head
        by (auto simp: chat_loop_turn chat_turn_def select_failed_def [symmetric] Let_def
            split: prod.splits sum.splits select_error.splits)
    next
      case False
      then show ?thesis by (simp add: fields Head chat_loop.simps)
    qed
  next
    case (Refreshing i)
    then show ?thesis by (simp add: fields Let_def split: prod.splits)
  next
    case (Listing i a)
    then show ?thesis by (simp add: fields serve_account_phases Let_def split: prod.splits option.splits)
  next
    case (Picking i a m)
    then show ?thesis by (simp add: fields split: prod.splits sum.splits)
  next
    case (Calling i a m k)
    then show ?thesis by (simp add: fields call_upstream_def switch_and_decide_def Let_def split: prod.splits)
  next
    case (Answered i a m k r)
    obtain b err s1 where f: "server_fresh sv i True s = ((b, err), s1)" by (metis surj_pair)
    obtain r2 s2 where "server_chat sv k b req m s1 = (r2, s2)" by fastforce
    with Answered f show ?thesis by (cases err) (simp_all add: fields retry_unauthorized_def)
  next
    case (Falling i a m k r)
    then show ?thesis by (cases "falls_back sv k r") (simp_all add: fields switch_and_decide_def fall_back_phases)
  next
    case (Deciding i a m r)
    then show ?thesis by (simp add: fields meaning_after_turn)
  qed (simp_all add: fields Let_def split: prod.splits)
qed


section \<open>Every phase uses something up\<close>

text \<open>Eleven phases to a turn at most: what is left is counted in phases.\<close>

fun steps_left :: "Config \<Rightarrow> int \<Rightarrow> phase \<Rightarrow> Turn \<Rightarrow> nat" where
  "steps_left cfg mx Head tn = 11 * turns_left cfg mx tn + 1"
| "steps_left cfg mx (Refreshing i) tn = 11 * turns_left cfg mx (tn\<lparr>tn_attempts := tn_attempts tn + 1\<rparr>) + 11"
| "steps_left cfg mx (Listing i a) tn = 11 * turns_left cfg mx tn + 10"
| "steps_left cfg mx (Picking i a m) tn = 11 * turns_left cfg mx tn + 9"
| "steps_left cfg mx (Calling i a m k) tn = 11 * turns_left cfg mx tn + 8"
| "steps_left cfg mx (Answered i a m k r) tn = 11 * turns_left cfg mx tn + 7"
| "steps_left cfg mx (Retrying i a m k) tn = 11 * turns_left cfg mx tn + 6"
| "steps_left cfg mx (Checking i a m k r) tn = 11 * turns_left cfg mx tn + 5"
| "steps_left cfg mx (Falling i a m k r) tn = 11 * turns_left cfg mx tn + 4"
| "steps_left cfg mx (Switched i a m) tn = 11 * turns_left cfg mx tn + 3"
| "steps_left cfg mx (Deciding i a m r) tn = 11 * turns_left cfg mx tn + 2"
| "steps_left cfg mx (Rejecting i) tn = 11 * turns_left cfg mx tn + 2"
| "steps_left cfg mx (Finished v) tn = 0"

lemma turns_left_cong:
  "tn_attempts tn' = tn_attempts tn \<Longrightarrow> tn_rounds tn' = tn_rounds tn \<Longrightarrow> turns_left cfg mx tn' = turns_left cfg mx tn"
  by (simp add: turns_left_def)

lemma turns_left_next:
  "tn_attempts tn < mx \<Longrightarrow> turns_left cfg mx tn = Suc (turns_left cfg mx (tn\<lparr>tn_attempts := tn_attempts tn + 1\<rparr>))"
  by (simp add: turns_left_def)

lemma decide_again:
  assumes "decide sv out req i a m r tn s = (Again, tn', s')"
  shows "turns_left (sc_config sv) mx tn' \<le> turns_left (sc_config sv) mx tn"
proof -
  obtain e where "on_call_error sv i a e tn s = (Again, tn', s')"
    using assms by (auto simp: decide_def Let_def split: sum.splits prod.splits)
  from on_call_error_again [OF this] show ?thesis by (auto simp: turns_left_def)
qed

definition unfinished :: "phase \<Rightarrow> bool" where
  "unfinished ph \<longleftrightarrow> (case ph of Finished v \<Rightarrow> False | _ \<Rightarrow> True)"

lemma chat_step_decreases:
  assumes "chat_step sv out req mx (ph, tn, s) = (ph', tn', s')" and "unfinished ph"
  shows "steps_left (sc_config sv) mx ph' tn' < steps_left (sc_config sv) mx ph tn"
proof (cases ph)
  case Head
  show ?thesis
  proof (cases "tn_attempts tn < mx")
    case True
    with assms Head turns_left_next [OF True, of "sc_config sv"] show ?thesis
      by (auto split: prod.splits sum.splits select_error.splits)
  qed (use assms Head in auto)
next
  case (Refreshing i)
  have "turns_left (sc_config sv) mx (tn\<lparr>tn_excluded := x, tn_attempts := n\<rparr>) =
      turns_left (sc_config sv) mx (tn\<lparr>tn_attempts := n\<rparr>)" for x n by (simp add: turns_left_def)
  with assms Refreshing show ?thesis by (auto simp: Let_def split: prod.splits if_splits)
next
  case (Deciding i a m r)
  obtain v tn1 s1 where d: "decide sv out req i a m r tn s = (v, tn1, s1)" using prod_cases3 by blast
  with decide_again [of sv out req i a m r tn s tn1 s1 mx] assms Deciding show ?thesis
    by (auto split: if_splits)
qed (use assms in \<open>auto simp: Let_def unfinished_def split: prod.splits sum.splits option.splits if_splits\<close>)

function run_chat :: "('e, 'w) services \<Rightarrow> client_out \<Rightarrow> ChatRequest \<Rightarrow> int \<Rightarrow> 'w config \<Rightarrow> 'w config" where
  "run_chat sv out req mx (ph, tn, s) =
    (if unfinished ph then run_chat sv out req mx (chat_step sv out req mx (ph, tn, s)) else (ph, tn, s))"
  by pat_completeness auto
termination
proof (relation "measure (\<lambda>(sv, out, req, mx, ph, tn, s). steps_left (sc_config sv) mx ph tn)")
  fix sv :: "('e, 'w) services" and out req mx ph tn and s :: "'w Server"
  assume "unfinished ph"
  then show "((sv, out, req, mx, chat_step sv out req mx (ph, tn, s)), sv, out, req, mx, ph, tn, s)
      \<in> measure (\<lambda>(sv, out, req, mx, ph, tn, s). steps_left (sc_config sv) mx ph tn)"
    by (cases "chat_step sv out req mx (ph, tn, s)" rule: prod_cases3) (simp add: chat_step_decreases)
qed simp

declare run_chat.simps [simp del]

lemma run_chat_finished: "\<exists>v tn' s'. run_chat sv out req mx c = (Finished v, tn', s')"
proof (induction sv out req mx c rule: run_chat.induct)
  case (1 sv out req mx ph tn s)
  show ?case
  proof (cases "unfinished ph")
    case True
    with 1 show ?thesis by (simp add: run_chat.simps [of sv out req mx ph])
  next
    case False
    then show ?thesis by (cases ph) (simp_all add: run_chat.simps unfinished_def)
  qed
qed

lemma meaning_run: "meaning sv out req mx (run_chat sv out req mx c) = meaning sv out req mx c"
proof (induction sv out req mx c rule: run_chat.induct)
  case (1 sv out req mx ph tn s)
  then show ?case by (subst run_chat.simps) (simp add: meaning_step)
qed

text \<open>
  Cutting the request into phases changes nothing.  Whatever the services answer, a request
  whose phases follow each other without anything in between ends with the verdict and the
  server of \<open>chat_loop\<close>.
\<close>

lemma phases_compute_loop:
  "\<exists>tn'. run_chat sv out req mx (Head, tn, s) =
    (Finished (fst (chat_loop sv out req mx tn s)), tn', snd (chat_loop sv out req mx tn s))"
  using run_chat_finished [of sv out req mx "(Head, tn, s)"] meaning_run [of sv out req mx "(Head, tn, s)"]
  by (metis fst_conv meaning.simps(1) meaning.simps(13) snd_conv)

section \<open>Among others\<close>

text \<open>Runs of a request with guarded steps of others in between, and the number of the request's
  own phases.\<close>

inductive interfered ::
  "(auth_error, 'w) services \<Rightarrow> client_out \<Rightarrow> ChatRequest \<Rightarrow> int \<Rightarrow> 'w config \<Rightarrow> nat \<Rightarrow> 'w config \<Rightarrow> bool"
  for sv out req mx c0 where
  begins: "interfered sv out req mx c0 0 c0"
| own: "interfered sv out req mx c0 n (ph, tn, s) \<Longrightarrow> unfinished ph \<Longrightarrow>
    interfered sv out req mx c0 (Suc n) (chat_step (authenticated sv) out req mx (ph, tn, s))"
| others: "interfered sv out req mx c0 n (ph, tn, s) \<Longrightarrow> shared_step sv s s' \<Longrightarrow>
    interfered sv out req mx c0 n (ph, tn, s')"

text \<open>What every own phase keeps and others cannot touch, holds at every point of such a run.\<close>

lemma interfered_keeps:
  assumes "interfered sv out req mx (ph0, tn0, s0) n (ph, tn, s)" and "P ph0 tn0"
    and "\<And>ph tn s ph' tn' s'. P ph tn \<Longrightarrow> unfinished ph \<Longrightarrow>
      chat_step (authenticated sv) out req mx (ph, tn, s) = (ph', tn', s') \<Longrightarrow> P ph' tn'"
  shows "P ph tn"
  using assms(1)
proof (induction n "(ph, tn, s)" arbitrary: ph tn s rule: interfered.induct)
  case (own n ph tn s ph' tn' s')
  show ?case by (rule assms(3) [OF own.hyps(2,3) own.hyps(4)])
qed (use assms(2) in simp_all)

lemma interfered_bound:
  assumes "interfered sv out req mx (ph0, tn0, s0) n (ph, tn, s)"
  shows "n + steps_left (sc_config sv) mx ph tn \<le> steps_left (sc_config sv) mx ph0 tn0"
  using assms
proof (induction n "(ph, tn, s)" arbitrary: ph tn s rule: interfered.induct)
  case (own n ph tn s ph' tn' s')
  from chat_step_decreases [OF own.hyps(4) own.hyps(3)] own.hyps(2) show ?case by simp
qed simp_all

section \<open>The variables of the loop\<close>

lemma moved_on_refl [simp]: "moved_on tn tn" "moved_on tn (tn\<lparr>tn_excluded := x, tn_attempts := n\<rparr>)"
  by (simp_all add: moved_on_def)

lemma on_call_error_variables:
  assumes "on_call_error sv i a e tn s = (v, tn', s')"
  shows "v = Again \<and> (queued sv tn tn' \<or> moved_on tn tn') \<or> v \<noteq> Again \<and> tn_quota tn' = tn_quota tn"
  using assms on_call_error_turn [of sv i a e tn s tn' s']
  by (cases v) (auto simp: on_call_error_def queue_wait_def on_status_def Let_def answer_error_def
      split: if_splits option.splits prod.splits)

lemma decide_variables:
  assumes "decide sv out req i a m r tn s = (v, tn', s')"
  shows "v = Again \<and> (queued sv tn tn' \<or> moved_on tn tn') \<or> v \<noteq> Again \<and> tn_quota tn' = tn_quota tn"
  using assms on_call_error_variables [of sv i a _ tn s v tn' s']
  by (auto simp: decide_def Let_def split: sum.splits prod.splits)

lemma decide_not_starved: "decide sv out req i a m r tn s = (v, tn', s') \<Longrightarrow> \<not> starved v"
  using relay_not_starved
  by (fastforce simp: decide_def on_call_error_def queue_wait_def on_status_def Let_def
      split: sum.splits prod.splits if_splits option.splits)

lemma chat_step_variables:
  assumes "chat_step sv out req mx (ph, tn, s) = (ph', tn', s')" and "unfinished ph"
  shows "unfinished ph' \<and> (queued sv tn tn' \<or> moved_on tn tn')
    \<or> \<not> unfinished ph' \<and> tn_quota tn' = tn_quota tn"
proof (cases ph)
  case (Deciding i a m r)
  obtain v tn1 s1 where d: "decide sv out req i a m r tn s = (v, tn1, s1)" using prod_cases3 by blast
  with decide_variables [OF d] assms Deciding show ?thesis by (auto simp: unfinished_def split: if_splits)
qed (use assms in \<open>auto simp: Let_def unfinished_def split: prod.splits sum.splits option.splits if_splits select_error.splits\<close>)

lemma chat_step_starved:
  assumes "chat_step sv out req mx (ph, tn, s) = (Finished v, tn', s')" and "unfinished ph" and "starved v"
  shows "tn_quota tn = None"
proof (cases ph)
  case Head
  with assms show ?thesis
    by (auto simp: select_failed_def exhausted_def quota_answer_def
        split: prod.splits sum.splits if_splits select_error.splits option.splits)
next
  case (Deciding i a m r)
  obtain v' tn1 s1 where d: "decide sv out req i a m r tn s = (v', tn1, s1)" using prod_cases3 by blast
  with decide_not_starved [OF d] assms Deciding show ?thesis by (auto split: if_splits)
qed (use assms in \<open>auto simp: Let_def unfinished_def split: prod.splits sum.splits option.splits if_splits\<close>)

lemma queued_authenticated [simp]: "queued (authenticated sv) = queued sv"
  by (simp add: queued_def fun_eq_iff authenticated_def)

lemma interfered_waiting:
  assumes "interfered sv out req mx (Head, first_turn, s0) n (ph, tn, s)" and "unfinished ph"
    and "queue_config_ok (sc_config sv)" and "rand_ok (sc_rand sv)"
  shows "waiting_inv (sc_config sv) tn"
proof -
  have "unfinished ph \<longrightarrow> waiting_inv (sc_config sv) tn"
  proof (rule interfered_keeps [OF assms(1)])
    show "unfinished Head \<longrightarrow> waiting_inv (sc_config sv) first_turn"
      using assms(3) by (auto simp: waiting_inv_def queue_config_ok_def first_turn_def)
  next
    fix ph tn s ph' tn' s'
    assume "unfinished ph \<longrightarrow> waiting_inv (sc_config sv) tn" "unfinished ph"
      "chat_step (authenticated sv) out req mx (ph, tn, s) = (ph', tn', s')"
    with chat_step_variables waiting_inv_queued [OF _ _ assms(3,4)]
    show "unfinished ph' \<longrightarrow> waiting_inv (sc_config sv) tn'"
      by (fastforce simp: moved_on_def waiting_inv_def)
  qed
  with assms(2) show ?thesis by simp
qed

lemma interfered_quota:
  assumes "interfered sv out req mx (Head, first_turn, s0) n (ph, tn, s)" and "tn_quota tn = Some he"
  shows "quota_seen he \<and> (\<forall>v. ph = Finished v \<longrightarrow> \<not> starved v)"
proof -
  have "(\<forall>he. tn_quota tn = Some he \<longrightarrow> quota_seen he) \<and> (\<forall>v. ph = Finished v \<and> starved v \<longrightarrow> tn_quota tn = None)"
  proof (rule interfered_keeps [OF assms(1)])
    show "(\<forall>he. tn_quota first_turn = Some he \<longrightarrow> quota_seen he) \<and>
        (\<forall>v. Head = Finished v \<and> starved v \<longrightarrow> tn_quota first_turn = None)"
      by (simp add: first_turn_def)
  next
    fix ph tn s ph' tn' s'
    assume a: "(\<forall>he. tn_quota tn = Some he \<longrightarrow> quota_seen he) \<and>
        (\<forall>v. ph = Finished v \<and> starved v \<longrightarrow> tn_quota tn = None)" "unfinished ph"
      "chat_step (authenticated sv) out req mx (ph, tn, s) = (ph', tn', s')"
    have "tn_quota tn' = None" if "ph' = Finished v" "starved v" for v
      using chat_step_variables [OF a(3,2)] chat_step_starved [OF a(3) [unfolded that(1)] a(2) that(2)] that(1)
      by (simp add: unfinished_def)
    moreover have "quota_seen he" if "tn_quota tn' = Some he" for he
      using chat_step_variables [OF a(3,2)] a(1) that by (auto simp: queued_def moved_on_def)
    ultimately show "(\<forall>he. tn_quota tn' = Some he \<longrightarrow> quota_seen he) \<and>
        (\<forall>v. ph' = Finished v \<and> starved v \<longrightarrow> tn_quota tn' = None)" by blast
  qed
  with assms(2) show ?thesis by auto
qed

section \<open>Quota rejections\<close>

text \<open>The quota rejection that a phase meets: the answer of the upstream that is about to be decided,
  unless it is a queue signal that is waited for.\<close>

definition quota_met :: "Config \<Rightarrow> phase \<Rightarrow> Turn \<Rightarrow> HTTPError option" where
  "quota_met cfg ph tn = (case ph of
      Deciding i a m (Inl (HttpFailed he)) \<Rightarrow>
        (if he_status he = 403 \<and> is_quota_error (he_message he) \<and>
            \<not> queue_admits cfg tn (queue_wait_seconds (http_error_text he)) then Some he else None)
    | _ \<Rightarrow> None)"

lemma on_status_quota:
  "on_status sv i he tn s = (v, tn', s') \<Longrightarrow>
   tn_quota tn' = (if he_status he = 403 \<and> is_quota_error (he_message he) then Some he else tn_quota tn)"
  by (auto simp: on_status_def Let_def split: if_splits prod.splits)

lemma queue_wait_quota: "queue_wait sv a q tn s = (v, tn', s') \<Longrightarrow> tn_quota tn' = tn_quota tn"
  by (auto simp: queue_wait_def Let_def split: if_splits prod.splits option.splits)

lemma on_call_error_quota:
  assumes "on_call_error sv i a e tn s = (v, tn', s')"
  shows "tn_quota tn' = (case quota_met (sc_config sv) (Deciding i a m (Inl e)) tn of
      Some he \<Rightarrow> Some he | None \<Rightarrow> tn_quota tn)"
proof (cases "queue_admits (sc_config sv) tn (queue_wait_seconds (call_error_text e))")
  case True
  with assms have "tn_quota tn' = tn_quota tn" by (auto simp: on_call_error_def dest: queue_wait_quota)
  with True show ?thesis by (cases e) (simp_all add: quota_met_def)
next
  case False
  show ?thesis
  proof (cases e)
    case (HttpFailed he)
    with False assms have "on_status sv i he tn s = (v, tn', s')" by (simp add: on_call_error_def as_http_error_def)
    from on_status_quota [OF this] False HttpFailed show ?thesis by (simp add: quota_met_def)
  qed (use False assms in \<open>auto simp: on_call_error_def as_http_error_def quota_met_def\<close>)
qed

lemma chat_step_quota:
  assumes "chat_step sv out req mx (ph, tn, s) = (ph', tn', s')" and "unfinished ph"
  shows "tn_quota tn' = (case quota_met (sc_config sv) ph tn of Some he \<Rightarrow> Some he | None \<Rightarrow> tn_quota tn)"
proof (cases ph)
  case (Deciding i a m r)
  obtain v tn1 s1 where d: "decide sv out req i a m r tn s = (v, tn1, s1)" using prod_cases3 by blast
  with assms Deciding have tn': "tn' = tn1" by auto
  show ?thesis
  proof (cases r)
    case (Inl e)
    with d have "on_call_error sv i a e tn s = (v, tn1, s1)" by (simp add: decide_def)
    from on_call_error_quota [OF this, of m] show ?thesis by (simp add: Deciding Inl tn')
  next
    case (Inr up)
    with d show ?thesis by (auto simp: decide_def Let_def Deciding tn' quota_met_def split: prod.splits)
  qed
qed (use assms in \<open>auto simp: Let_def unfinished_def quota_met_def
      split: prod.splits sum.splits option.splits if_splits select_error.splits\<close>)

text \<open>No account is left to a request that has tried all of them, or finds none that is healthy and
  not tried yet.\<close>

definition none_left :: "('e, 'w) services \<Rightarrow> int \<Rightarrow> Turn \<Rightarrow> 'w Server \<Rightarrow> bool" where
  "none_left sv mx tn s \<longleftrightarrow> mx \<le> tn_attempts tn \<or>
     candidates (tn_excluded tn) (snapshot_all (server_now sv s) (sr_pool s)) = []"

lemma none_left_step:
  assumes "none_left sv mx tn s" and "tn_quota tn = Some he"
  shows "\<exists>s'. chat_step sv out req mx (Head, tn, s) = (Finished (quota_answer he), tn, s')"
proof (cases "tn_attempts tn < mx")
  case True
  with assms(1) have "candidates (tn_excluded tn) (snapshot_all (server_now sv s) (sr_pool s)) = []"
    by (simp add: none_left_def)
  then have "\<exists>s'. server_select sv (cr_session_key req) (tn_excluded tn) s = (Inl NoHealthyAccount, s')"
    by (simp add: server_select_def select_def Let_def)
  with True assms(2) show ?thesis by (auto simp: select_failed_def)
next
  case False
  with assms(2) show ?thesis by (simp add: exhausted_def)
qed

lemma now_authenticated [simp]: "server_now (authenticated sv) = server_now sv"
  by (simp add: fun_eq_iff server_now_def authenticated_def)

section \<open>The phases of a request are guarded steps\<close>

fun phase_ok :: "nat \<Rightarrow> string set \<Rightarrow> phase \<Rightarrow> bool" where
  "phase_ok n ids (Refreshing i) \<longleftrightarrow> i < n"
| "phase_ok n ids (Listing i a) \<longleftrightarrow> i < n \<and> acc_id a \<in> ids"
| "phase_ok n ids (Picking i a m) \<longleftrightarrow> i < n \<and> acc_id a \<in> ids"
| "phase_ok n ids (Calling i a m k) \<longleftrightarrow> i < n \<and> acc_id a \<in> ids"
| "phase_ok n ids (Answered i a m k r) \<longleftrightarrow> i < n \<and> acc_id a \<in> ids"
| "phase_ok n ids (Retrying i a m k) \<longleftrightarrow> i < n \<and> acc_id a \<in> ids"
| "phase_ok n ids (Checking i a m k r) \<longleftrightarrow> i < n \<and> acc_id a \<in> ids"
| "phase_ok n ids (Falling i a m k r) \<longleftrightarrow> i < n \<and> acc_id a \<in> ids"
| "phase_ok n ids _ \<longleftrightarrow> True"

lemma run_length: "shared_run sv s0 s \<Longrightarrow> length (server_entries s) = length (server_entries s0)"
  by (drule run_ids, drule arg_cong [where f = length]) (simp add: pool_accounts_def)

lemma world_run: "shared_run sv s0 s \<Longrightarrow> shared_run sv s0 (s\<lparr>sr_world := w\<rparr>)"
  by (erule step_run) (rule shared_step.world)

lemma own_run:
  assumes "chat_step (authenticated sv) out req mx (ph, tn, s) = (ph', tn', s')" and "shared_run sv s0 s"
    and "phase_ok (length (server_entries s0)) (set (server_ids s0)) ph"
  shows "shared_run sv s0 s' \<and> phase_ok (length (server_entries s0)) (set (server_ids s0)) ph'"
proof (cases ph)
  case Head
  show ?thesis
  proof (cases "tn_attempts tn < mx")
    case True
    obtain r s1 where sel: "server_select (authenticated sv) (cr_session_key req) (tn_excluded tn) s = (r, s1)" by fastforce
    from sequential.inv_select [OF assms(2) sel] have "shared_run sv s0 s1" .
    moreover have "i < length (server_entries s0)" if "r = Inr i" for i
      using server_select_index [OF sel [unfolded that]] run_length [OF \<open>shared_run sv s0 s1\<close>] by simp
    ultimately show ?thesis using assms(1) Head True sel by (auto split: sum.splits select_error.splits)
  qed (use assms Head in auto)
next
  case (Refreshing i)
  obtain a err s1 where f: "server_fresh (authenticated sv) i False s = ((a, err), s1)" by (metis surj_pair)
  have "i < length (server_entries s)" using assms(2,3) Refreshing run_length by fastforce
  from sequential.inv_fresh [OF assms(2) this f] assms Refreshing f show ?thesis by (auto split: if_splits)
next
  case (Answered i a m k r)
  obtain b err s1 where f: "server_fresh (authenticated sv) i True s = ((b, err), s1)" by (metis surj_pair)
  have "i < length (server_entries s)" using assms(2,3) Answered run_length by fastforce
  from sequential.inv_fresh [OF assms(2) this f] assms Answered f show ?thesis by (auto split: if_splits)
next
  case (Rejecting i)
  with assms sequential.inv_auth_error [OF assms(2)] show ?thesis by auto
next
  case (Checking i a m k r)
  with assms sequential.inv_auth_error [OF assms(2)] show ?thesis by (auto split: if_splits)
next
  case (Listing i a)
  have "shared_run sv s0 s1" if "server_catalog (authenticated sv) a s = (r, s1)" for r s1
    by (rule sequential.catalog_inv [OF that assms(2)])
  with assms Listing show ?thesis
    by (auto simp: Let_def split: prod.splits if_splits option.splits)
next
  case (Picking i a m)
  obtain r s1 where p: "pick_transport (authenticated sv) i a (md_upstream_key m) s = (r, s1)" by fastforce
  with sequential.pick_inv [OF p assms(2)] assms Picking show ?thesis by (auto split: sum.splits)
next
  case (Falling i a m k r)
  have "shared_run sv s0 (cache_transport i (cache_key a (fallback_class (md_upstream_key m))) Cosy s)"
    using assms(2,3) Falling by (intro sequential.inv_cache) (auto simp: may_cache_def)
  with assms Falling show ?thesis by (auto split: if_splits)
next
  case (Deciding i a m r)
  obtain v tn1 s1 where d: "decide (authenticated sv) out req i a m r tn s = (v, tn1, s1)" using prod_cases3 by blast
  have "shared_run sv s0 s1"
  proof (cases r)
    case (Inl e)
    with d have "on_call_error (authenticated sv) i a e tn s = (v, tn1, s1)" by (simp add: decide_def)
    from sequential.on_call_error_inv [OF this assms(2)] show ?thesis by simp
  next
    case (Inr up)
    with d world_run [OF assms(2)] show ?thesis by (auto simp: decide_def Let_def split: prod.splits)
  qed
  with d assms(1) Deciding show ?thesis by (auto split: if_splits)
next
  case (Finished v)
  with assms show ?thesis by auto
qed (use assms sequential.server_chat_inv [OF _ assms(2)] in \<open>auto simp: Let_def split: prod.splits\<close>)

lemma interfered_run:
  assumes "interfered sv out req mx (Head, tn0, s0) n (ph, tn, s)"
  shows "shared_run sv s0 s"
proof -
  have "shared_run sv s0 s \<and> phase_ok (length (server_entries s0)) (set (server_ids s0)) ph"
    using assms
  proof (induction n "(ph, tn, s)" arbitrary: ph tn s rule: interfered.induct)
    case (own n ph tn s ph' tn' s')
    then show ?case using own_run by blast
  next
    case (others n ph tn s s')
    then show ?case by (blast intro: step_run)
  qed simp
  then show ?thesis ..
qed

section \<open>Properties\<close>

text \<open>
  C7: a chat among others ends.  However many guarded steps of other requests come between the
  phases of a request, whatever they do to the pool, and whatever the upstream answers, the
  request has at most eleven phases for each account and each round of the queue, and at every
  point its waits for the queue add up to at most the budget and one jitter.
\<close>

theorem chat_among_others_ends:
  assumes "interfered sv out req mx (Head, first_turn, s) n (ph, tn, t)"
  shows "n \<le> 11 * (nat (cf_queue_max_rounds (sc_config sv)) + nat mx) + 1
    \<and> (unfinished ph \<longrightarrow> n \<le> 11 * (nat (cf_queue_max_rounds (sc_config sv)) + nat mx))
    \<and> (unfinished ph \<and> queue_config_ok (sc_config sv) \<and> rand_ok (sc_rand sv) \<longrightarrow>
       0 \<le> tn_waited tn \<and> tn_waited tn \<le> cf_queue_wait_budget (sc_config sv) + cf_queue_wait_jitter (sc_config sv))"
proof -
  have "0 < steps_left cfg mx ph tn" if "unfinished ph" for cfg using that by (cases ph) (simp_all add: unfinished_def)
  note more = this [of "sc_config sv"]
  have bound: "n + steps_left (sc_config sv) mx ph tn \<le> 11 * (nat (cf_queue_max_rounds (sc_config sv)) + nat mx) + 1"
    using interfered_bound [OF assms] by (simp add: turns_left_def first_turn_def)
  show ?thesis
  proof (intro conjI impI)
    show "n \<le> 11 * (nat (cf_queue_max_rounds (sc_config sv)) + nat mx) + 1" using bound by linarith
    show "n \<le> 11 * (nat (cf_queue_max_rounds (sc_config sv)) + nat mx)" if "unfinished ph"
      using bound more [OF that] by linarith
  qed (use interfered_waiting [OF assms] in \<open>auto simp: waiting_inv_def\<close>)
qed

text \<open>
  C8: a chat among others is safe.  Its phases and the steps of the others together are a run
  of the abstract server.  A quota rejection, the last one if there are several, is remembered:
  what the request remembers is changed only by the phase that meets another one, and is a 403 of
  the upstream with a quota marker.  As soon as no account is left, because all have been tried or
  because the others have suspended the rest, the request that remembers a rejection is answered
  with its text and the status 403; it never ends with a 503 for want of accounts.
\<close>

theorem chat_among_others_safe:
  assumes "interfered sv out req mx (Head, first_turn, s) n (ph, tn, t)"
  shows "shared_run sv s t
    \<and> (\<forall>ph' tn' t'. unfinished ph \<and> chat_step (authenticated sv) out req mx (ph, tn, t) = (ph', tn', t') \<longrightarrow>
         tn_quota tn' = (case quota_met (sc_config sv) ph tn of Some he \<Rightarrow> Some he | None \<Rightarrow> tn_quota tn))
    \<and> (\<forall>he. tn_quota tn = Some he \<longrightarrow> he_status he = 403 \<and> is_quota_error (he_message he)
        \<and> (ph = Head \<and> none_left sv mx tn t \<longrightarrow>
             (\<exists>t'. chat_step (authenticated sv) out req mx (ph, tn, t) =
                (Finished (Answer (write_error 403 ''quota_exceeded'' (http_error_text he)) 403), tn, t')))
        \<and> (\<forall>v. ph = Finished v \<longrightarrow> \<not> starved v))"
proof (intro conjI allI impI)
  show "shared_run sv s t" by (rule interfered_run [OF assms])
next
  fix ph' tn' t'
  assume "unfinished ph \<and> chat_step (authenticated sv) out req mx (ph, tn, t) = (ph', tn', t')"
  then show "tn_quota tn' = (case quota_met (sc_config sv) ph tn of Some he \<Rightarrow> Some he | None \<Rightarrow> tn_quota tn)"
    using chat_step_quota [of "authenticated sv" out req mx ph tn t ph' tn' t'] by simp
next
  fix he
  assume he: "tn_quota tn = Some he"
  note seen = interfered_quota [OF assms he, unfolded quota_seen_def]
  then show "he_status he = 403" "is_quota_error (he_message he)" by simp_all
  show "\<not> starved v" if "ph = Finished v" for v using seen that by blast
  assume "ph = Head \<and> none_left sv mx tn t"
  then show "\<exists>t'. chat_step (authenticated sv) out req mx (ph, tn, t) =
      (Finished (Answer (write_error 403 ''quota_exceeded'' (http_error_text he)) 403), tn, t')"
    using none_left_step [of "authenticated sv" mx tn t he out req] he seen
    by (simp add: none_left_def quota_answer_def answer_error_def)
qed

text \<open>A request that selects the only account, and another request that suspends it at once: the
  next phase works on a suspended account.\<close>

definition race :: "nat Server \<Rightarrow> nat config \<Rightarrow> bool" where
  "race s c \<longleftrightarrow> interfered (sample_services quota_error) steady_client sample_request 1 (Head, first_turn, s) 1 c"

lemma race_happens:
  "race sample_server (Refreshing 0, first_turn, on_pool (mark_auth_error 0)
     (sample_server\<lparr>sr_pool := (new_pool [sample_user_account])\<lparr>pl_rr := 1\<rparr>\<rparr>))"
proof -
  let ?s = "sample_server\<lparr>sr_pool := (new_pool [sample_user_account])\<lparr>pl_rr := 1\<rparr>\<rparr>"
  have "chat_step (authenticated (sample_services quota_error)) steady_client sample_request 1 (Head, first_turn, sample_server)
      = (Refreshing 0, first_turn, ?s)"
    using sample_select [of quota_error] by (simp add: first_turn_def select_authenticated sample_request_def)
  moreover have "unfinished Head" by (simp add: unfinished_def)
  ultimately have "interfered (sample_services quota_error) steady_client sample_request 1 (Head, first_turn, sample_server) 1
      (Refreshing 0, first_turn, ?s)"
    using interfered.own [OF interfered.begins [of "sample_services quota_error" steady_client sample_request 1
        "(Head, first_turn, sample_server)"]] by simp
  from interfered.others [OF this shared_step.rejected] show ?thesis by (simp add: race_def)
qed

theorem chat_among_others_ends_witness:
  "\<exists>t. race sample_server (Refreshing 0, first_turn, t) \<and> 1 \<le> 11 * (nat (cf_queue_max_rounds default_config) + 1)"
proof -
  obtain t where r: "race sample_server (Refreshing 0, first_turn, t)" using race_happens by blast
  have "unfinished (Refreshing 0)" by (simp add: unfinished_def)
  with chat_among_others_ends [OF r [unfolded race_def]] have "1 \<le> 11 * (nat (cf_queue_max_rounds default_config) + nat 1)"
    by (simp add: sample_services_def)
  with r show ?thesis by auto
qed

text \<open>A request that meets a quota rejection, phase by phase.\<close>

abbreviation sample_chat :: "nat config \<Rightarrow> nat config" where
  "sample_chat \<equiv> chat_step (authenticated (sample_services quota_error)) steady_client sample_request 1"

lemma authenticated_components [simp]:
  "server_catalog (authenticated sv) = server_catalog sv"
  "server_probe (authenticated sv) = server_probe sv"
  "server_chat (authenticated sv) = server_chat sv"
  by (simp_all add: fun_eq_iff server_catalog_def server_probe_def server_chat_def Let_def)
    (simp add: authenticated_def)

lemma pick_authenticated [simp]:
  "probe_and_cache (authenticated sv) = probe_and_cache sv"
  "pick_transport (authenticated sv) = pick_transport sv"
proof -
  show p: "probe_and_cache (authenticated sv) = probe_and_cache sv"
    by (simp add: fun_eq_iff probe_and_cache_def)
  show "pick_transport (authenticated sv) = pick_transport sv"
    by (simp add: fun_eq_iff pick_transport_def p Let_def)
qed

lemma sample_fresh_authenticated:
  "server_fresh (authenticated (sample_services e)) 0 False (sample_server\<lparr>sr_pool := (new_pool [sample_user_account])\<lparr>pl_rr := 1\<rparr>\<rparr>) =
    ((sample_user_account, None), sample_server\<lparr>sr_pool := (new_pool [sample_user_account])\<lparr>pl_rr := 1\<rparr>\<rparr>)"
  by (simp add: server_fresh_def server_now_def sample_server_def new_server_def sample_services_def authenticated_def
      ensure_fresh_def new_pool_def new_entry_def Let_def sample_account_def)

definition quota_turn_end :: Turn where
  "quota_turn_end = tried_turn\<lparr>tn_quota := Some \<lparr>he_status = 403, he_message = DQ # ''pricingUrl'' @ [DQ], he_retry_after = 0\<rparr>\<rparr>"

text \<open>The eight phases of the turn.\<close>

lemma sample_phases:
  "sample_chat (Head, first_turn, sample_server) =
    (Refreshing 0, first_turn, sample_server\<lparr>sr_pool := (new_pool [sample_user_account])\<lparr>pl_rr := 1\<rparr>\<rparr>)"
  "sample_chat (Refreshing 0, first_turn, sample_server\<lparr>sr_pool := (new_pool [sample_user_account])\<lparr>pl_rr := 1\<rparr>\<rparr>) =
    (Listing 0 sample_user_account, tried_turn, sample_server\<lparr>sr_pool := (new_pool [sample_user_account])\<lparr>pl_rr := 1\<rparr>\<rparr>)"
  "sample_chat (Listing 0 sample_user_account, tried_turn,
      sample_server\<lparr>sr_pool := (new_pool [sample_user_account])\<lparr>pl_rr := 1\<rparr>\<rparr>) =
    (Picking 0 sample_user_account lite_model, tried_turn, tried)"
  "sample_chat (Picking 0 sample_user_account lite_model, tried_turn, tried) =
    (Calling 0 sample_user_account lite_model Bearer, tried_turn, cache_transport 0 ''global-u|tier'' Bearer tried)"
  "sample_chat (Calling 0 sample_user_account lite_model Bearer, tried_turn, cache_transport 0 ''global-u|tier'' Bearer tried) =
    (Answered 0 sample_user_account lite_model Bearer (Inl quota_error), tried_turn, called)"
  "sample_chat (Answered 0 sample_user_account lite_model Bearer (Inl quota_error), tried_turn, called) =
    (Falling 0 sample_user_account lite_model Bearer (Inl quota_error), tried_turn, called)"
  "sample_chat (Falling 0 sample_user_account lite_model Bearer (Inl quota_error), tried_turn, called) =
    (Deciding 0 sample_user_account lite_model (Inl quota_error), tried_turn, called)"
  "sample_chat (Deciding 0 sample_user_account lite_model (Inl quota_error), tried_turn, called) =
    (Head, quota_turn_end, called)"
proof -
  let ?s = "sample_server\<lparr>sr_pool := (new_pool [sample_user_account])\<lparr>pl_rr := 1\<rparr>\<rparr>"
  show "sample_chat (Head, first_turn, sample_server) = (Refreshing 0, first_turn, ?s)"
    using sample_select [of quota_error] by (simp add: first_turn_def select_authenticated sample_request_def)
  show "sample_chat (Refreshing 0, first_turn, ?s) = (Listing 0 sample_user_account, tried_turn, ?s)"
    by (simp add: sample_fresh_authenticated first_turn_def tried_turn_def) (simp add: sample_account_def)
  have m: "md_id lite_model = cr_model sample_request" by (simp add: sample_request_def lite_model_def)
  have v: "validate_capabilities sample_request lite_model = None"
    by (simp add: validate_capabilities_def sample_request_def check_thinking_def Let_def)
  show "sample_chat (Listing 0 sample_user_account, tried_turn, ?s) =
      (Picking 0 sample_user_account lite_model, tried_turn, tried)"
    by (simp add: sample_catalog m v)
  have cls: "model_class (md_upstream_key lite_model) = ''tier''"
    by (simp add: model_class_def lite_model_def is_router_tier_def router_tiers_def)
  show "sample_chat (Picking 0 sample_user_account lite_model, tried_turn, tried) =
      (Calling 0 sample_user_account lite_model Bearer, tried_turn, cache_transport 0 ''global-u|tier'' Bearer tried)"
    by (simp add: pick_transport_def cls cache_key_def sample_services_def default_config_def sample_account_def
        probe_and_cache_def server_probe_def failing_transport_def Let_def tried_def sample_server_def new_server_def)
  show "sample_chat (Calling 0 sample_user_account lite_model Bearer, tried_turn, cache_transport 0 ''global-u|tier'' Bearer tried) =
      (Answered 0 sample_user_account lite_model Bearer (Inl quota_error), tried_turn, called)"
    by (simp add: server_chat_def sample_services_def failing_transport_def Let_def called_def
        cache_transport_def on_pool_def tried_def sample_server_def new_server_def)
  have st: "error_status (Inl quota_error :: call_error + UpstreamResponse) = Some 403"
    by (simp add: error_status_def as_http_error_def quota_error_def upstream_error_def)
  show "sample_chat (Answered 0 sample_user_account lite_model Bearer (Inl quota_error), tried_turn, called) =
      (Falling 0 sample_user_account lite_model Bearer (Inl quota_error), tried_turn, called)"
    by (simp add: st)
  show "sample_chat (Falling 0 sample_user_account lite_model Bearer (Inl quota_error), tried_turn, called) =
      (Deciding 0 sample_user_account lite_model (Inl quota_error), tried_turn, called)"
    by (simp add: falls_back_def st)
  have "on_call_error sv 0 sample_user_account quota_error tried_turn called = (Again, quota_turn_end, called)" for sv :: "(auth_error, nat) services"
    using sample_errors(1,2)
    by (simp add: on_call_error_def queue_admits_def on_status_def as_http_error_def quota_error_def upstream_error_def
        quota_turn_end_def)
  then show "sample_chat (Deciding 0 sample_user_account lite_model (Inl quota_error), tried_turn, called) =
      (Head, quota_turn_end, called)"
    by (simp add: decide_def)
qed

lemma sample_meets_quota:
  "interfered (sample_services quota_error) steady_client sample_request 1 (Head, first_turn, sample_server) 8
     (Head, quota_turn_end, on_pool (mark_auth_error 0) called)"
proof -
  let ?run = "interfered (sample_services quota_error) steady_client sample_request 1 (Head, first_turn, sample_server)"
  have own: "?run (Suc n) c" if "?run n (ph, tn, s)" "sample_chat (ph, tn, s) = c" "unfinished ph" for n ph tn s c
    using interfered.own [OF that(1,3)] that(2) by simp
  note run = own [OF own [OF own [OF own [OF own [OF own [OF own [OF own [OF interfered.begins sample_phases(1)] sample_phases(2)]
    sample_phases(3)] sample_phases(4)] sample_phases(5)] sample_phases(6)] sample_phases(7)] sample_phases(8)]
  have "?run (Suc (Suc (Suc (Suc (Suc (Suc (Suc (Suc 0)))))))) (Head, quota_turn_end, called)" by (rule run) (simp_all add: unfinished_def)
  then have "?run 8 (Head, quota_turn_end, called)" by (simp add: numeral_eq_Suc)
  from interfered.others [OF this shared_step.rejected] show ?thesis .
qed

theorem chat_among_others_safe_witness:
  "\<exists>t t'. interfered (sample_services quota_error) steady_client sample_request 1 (Head, first_turn, sample_server) 8
      (Head, quota_turn_end, t)
    \<and> en_state (server_entries t ! 0) = AuthError
    \<and> sample_chat (Head, quota_turn_end, t) =
        (Finished (Answer (write_error 403 ''quota_exceeded''
           (http_error_text \<lparr>he_status = 403, he_message = DQ # ''pricingUrl'' @ [DQ], he_retry_after = 0\<rparr>)) 403),
         quota_turn_end, t')"
proof -
  let ?t = "on_pool (mark_auth_error 0) called"
  have "none_left (sample_services quota_error) 1 quota_turn_end ?t"
    by (simp add: none_left_def quota_turn_end_def tried_turn_def)
  moreover have "tn_quota quota_turn_end = Some \<lparr>he_status = 403, he_message = DQ # ''pricingUrl'' @ [DQ], he_retry_after = 0\<rparr>"
    by (simp add: quota_turn_end_def)
  ultimately have "\<exists>t'. sample_chat (Head, quota_turn_end, ?t) =
        (Finished (Answer (write_error 403 ''quota_exceeded''
           (http_error_text \<lparr>he_status = 403, he_message = DQ # ''pricingUrl'' @ [DQ], he_retry_after = 0\<rparr>)) 403),
         quota_turn_end, t')"
    using chat_among_others_safe [OF sample_meets_quota] by blast
  moreover have "en_state (server_entries ?t ! 0) = AuthError"
    by (simp add: on_pool_def mark_auth_error_def on_entry_def called_def cache_transport_def tried_def new_pool_def
        Let_def)
  ultimately show ?thesis using sample_meets_quota by blast
qed

end
