(* ===== verification/Spec2Isabelle.thy ===== *)
theory Spec2Isabelle
  imports Thinking OpenAI SseParser Signals Encoding Server Cosy DeviceLogin Requests Program Interference
begin

text \<open>
  A verification development of Qoder2api-plus, a proxy that speaks the OpenAI chat protocol to
  its clients and the protocols of Qoder to the upstream, written in Go.

  \<^bold>\<open>The program.\<close>  A process is started with a command (\<open>src/cmd/qoder-proxy/main.go\<close>).  All
  commands read a configuration (\<open>internal/config\<close>) and put the same components together: a store
  of credentials (\<open>internal/credential\<close>), a pool of accounts over it (\<open>internal/pool\<close>), a client of
  the token endpoints, a catalog of models, two transports for chats and a signer
  (\<open>internal/qoder\<close>).  \<open>import-pat\<close> and \<open>login\<close> add an account to the store, \<open>models\<close> and \<open>doctor\<close> ask
  and report, and \<open>serve\<close> hands the components to the server (\<open>internal/server\<close>).  For a chat the
  server selects an account, refreshes it, finds the model, picks a transport, calls the upstream,
  decides by the answer whether to wait, to try the next account or to fail, and relays the
  upstream's events (\<open>internal/stream\<close>) as a stream or as one answer.

  \<^bold>\<open>The theories\<close>, in the order in which they build on each other:
  \<^item> \<open>GoBase\<close>, \<open>GoJson\<close>, \<open>JsonPrint\<close>, \<open>GoRegexp\<close>, \<open>GoTime\<close>, \<open>GoUrl\<close>, \<open>Sha256\<close>, \<open>Md5\<close>, \<open>Aes\<close>: what the program
    uses of Go and its library.  Strings are lists of bytes, \<open>wrap64\<close> is the wrap-around of a
    64-bit integer, an error is the left side of a sum.  \<open>JsonPrint\<close> proves that printed JSON is
    parsed back, \<open>GoUrl\<close> that encoded query values are decoded back, \<open>Aes\<close> that the inverse cipher
    undoes the cipher.
  \<^item> \<open>Events\<close>, \<open>Thinking\<close>, \<open>OpenAI\<close>, \<open>SseParser\<close>: \<open>internal/stream\<close>.  The router of thinking tags is a
    state with \<open>feed\<close> and \<open>finalize\<close>; the accumulator and the event writer are the two consumers;
    \<open>parse_sse\<close> reads the lines of a body and calls a consumer, whose contract is the locale
    \<open>event_sink\<close> with its extension \<open>total_sink\<close>.
  \<^item> \<open>Signals\<close>: \<open>queue.go\<close>, \<open>queueprobe.go\<close> and the quota signal and redaction of \<open>transport.go\<close> and \<open>auth.go\<close>,
    with the regular expressions run by a matcher.  \<open>Encoding\<close>: \<open>encoding.go\<close>.
  \<^item> \<open>Credential\<close>: \<open>internal/credential/store.go\<close> over a map of files, with every system call able to
    fail.  \<open>Pool\<close>: \<open>internal/pool/pool.go\<close>, its entries as a record, and \<open>EnsureFresh\<close> both as one
    function and, in \<open>persist_step\<close>, as the steps of concurrent requests; the locale \<open>refresher\<close>
    is the contract of the pool with its client of the token endpoints.
  \<^item> \<open>Protocol\<close>: \<open>constants.go\<close> and the host guard of \<open>http.go\<close>; \<open>HttpClient\<close>: the rest of \<open>http.go\<close>, with
    the deadlines of contexts as a linear order.  \<open>Auth\<close> and \<open>DeviceLogin\<close>: \<open>auth.go\<close>.
    \<open>Catalog\<close>: \<open>catalog.go\<close>.  \<open>Transport\<close>: \<open>transport.go\<close>.  \<open>Rsa\<close> and \<open>Cosy\<close>: \<open>cosy.go\<close>, with the
    parsing of the public key, and the locale \<open>block_cipher\<close> for what CBC needs of AES.  \<open>Requests\<close>: what the upstream gets.
    \<open>Config\<close>: \<open>config.go\<close>.
  \<^item> \<open>Relay\<close>, \<open>Services\<close>, \<open>ChatLoop\<close>, \<open>ChatInvariant\<close>, \<open>Server\<close>: \<open>internal/server/server.go\<close>.  The record
    \<open>services\<close> is what the server is given, the record \<open>Server\<close> is what it keeps, with the rest of
    the world as a value \<open>'w\<close> that every call passes on.  A chat is \<open>chat_loop\<close>, whose turns carry
    the record \<open>Turn\<close> of the loop's variables; \<open>serve_http\<close> is the whole handler.
  \<^item> \<open>Interleaving\<close>: the abstract server, a transition system (\<open>shared_step\<close>) whose steps are the
    sections that the program guards by a lock.  \<open>Interference\<close>: a chat cut into phases
    (\<open>chat_step\<close>), with such steps of other requests in between (\<open>interfered\<close>).
  \<^item> \<open>Cli\<close> and \<open>Program\<close>: \<open>main.go\<close> and what holds of the program as a whole.

  \<^bold>\<open>What is proved.\<close>  The properties are numbered \<open>C1\<close> and so on where they stand.
  \<^item> Streams: reassembly of payloads that are cut over frames, one done event at the end,
    independence of the router from how its input is cut, and the equality of the streamed
    deltas with the answer that is not streamed.
  \<^item> Accounts: selection is sound and fair; replacing the file is all or nothing; a refresh is
    stored whatever the interleaving; \<open>import-pat\<close> implements the insertion into a list; the
    pool of a running server keeps its accounts, and each of them stays valid.
  \<^item> Concurrency: every history of requests is a run of the abstract server, and whatever the
    interleaving of its steps, the pool keeps its accounts and the credentials file is whole.
    A chat whose phases others interrupt at will ends within the same bounds, and on its own
    its phases compute \<open>chat_loop\<close>.
  \<^item> Requests: a chat ends after a bounded number of turns and waits for a bounded time; quota
    rejections suspend no account and are the answer when no account is left; an account is tried
    once, and once more for each round of the queue; the catalog is a memory of the last fetch that
    succeeded; concrete models go to COSY; what is
    signed is what is sent, and the private key opens it to the account; only allowed members are
    forwarded.
  \<^item> Access: requests without the key change nothing; the status shows no secrets; no command
    reaches a host outside the allow-list; a server that is open to the network has a key.
  \<^item> Errors: the theorems of the kind error state what goes wrong and when: a jitter of zero
    panics, another account's models are served, an imported account is lost.

  The locales \<open>server_invariant\<close> and \<open>server_history\<close> state once that a predicate on the server which
  the few state-changing operations keep is kept by a chat and by any history of requests; they
  are interpreted for the identities of the accounts, for their validity, for the cache of
  transports, for the suspended entries and for the runs of the abstract server.

  \<^bold>\<open>Termination and bounds.\<close>  No fuel is used.  \<open>chat_loop\<close> is a recursive function with a measure:
  the accounts left to try and the rounds of the queue left to wait.  The reader's and the parsers'
  loops are recursive on their input.  The polling of the device flow is given the events that its
  \<open>select\<close> receives and is \<open>None\<close> while they leave it waiting.

  \<^bold>\<open>Parameters.\<close>  The network, the clock, random bytes and timers are functions of the world.
  What \<open>float64\<close> makes of a number's text, the dates of HTTP, the texts of some errors and the raw
  text of the tools are functions too.  Padding bytes of the RSA encryption are drawn.  The private
  key is not in the program: the inverse of the public operation is an argument of what the
  receiver does.  Programs that are run (\<open>stty\<close>, the browser) are a function of the world.

  \<^bold>\<open>Not modelled.\<close>  Logging; what \<open>net/http\<close> does with the settings it is given, and total timeouts,
  which show as errors of the network or as the end of a stream; listening, signals and shutdown.
  \<open>serve_http\<close> serves requests one after the other; what other requests do in between is modelled
  by the steps of \<open>Pool\<close> (concurrent refreshes), of \<open>Interleaving\<close> (all guarded sections) and of
  \<open>Interference\<close> (one chat among others, where choosing a transport and \<open>EnsureFresh\<close> are one
  phase each).  The bytes of a raw JSON message are those of its value when it is printed again.
\<close>

end
